(* ===== verification/Prelude.thy ===== *)
theory Prelude
  imports Main "HOL-Library.Word" "HOL-Library.Sublist"
begin

text \<open>
  What the components of SlimNode share: bytes, Go errors (sentinels, wrapping with
  \<open>%w\<close>, panics), readers and writers over byte sequences, the little-endian
  encodings of \<open>encoding/binary\<close>, 64-bit signed wrap-around, and the interfaces
  of decoders and codecs as locales.
\<close>

unbundle bit_operations_syntax

named_theorems result_iffs \<open>when an operation in the error monad returns a value\<close>

section \<open>Errors\<close>

text \<open>
  A Go error value. \<open>Wrap\<close> is \<open>fmt.Errorf("...: %w", err)\<close> and \<open>Join\<close> is \<open>errors.Join\<close>
  of two errors; the errors that the code
  compares against with \<open>errors.Is\<close> are constructors of their own. \<open>Panic\<close> is a run-time
  panic: it is not an error value of Go, it unwinds through every caller, so it is never
  wrapped.
\<close>

datatype go_error =
    EOF
  | ErrUnexpectedEOF
  | ErrShortWrite
  | ErrNotExist
  | ErrIO string
  | ErrNew string
  | Wrap string go_error
  | Join go_error go_error
  | Panic string

fun errors_Is :: "go_error \<Rightarrow> go_error \<Rightarrow> bool" where
  "errors_Is (Wrap s e) t = (Wrap s e = t \<or> errors_Is e t)"
| "errors_Is (Join a b) t = (Join a b = t \<or> errors_Is a t \<or> errors_Is b t)"
| "errors_Is e t = (e = t)"

fun Errorf :: "string \<Rightarrow> go_error \<Rightarrow> go_error" where
  "Errorf s (Panic p) = Panic p"
| "Errorf s e = Wrap s e"

fun errors_Join :: "go_error \<Rightarrow> go_error \<Rightarrow> go_error" where
  "errors_Join a (Panic p) = Panic p"
| "errors_Join a e = Join a e"

fun is_panic :: "go_error \<Rightarrow> bool" where
  "is_panic (Panic p) = True"
| "is_panic _ = False"

lemma is_panic_Errorf [simp]: "is_panic (Errorf s e) = is_panic e"
  by (cases e) auto

lemma errors_Is_Join:
  "\<not> is_panic e \<Longrightarrow> errors_Is (errors_Join a e) t \<longleftrightarrow> Join a e = t \<or> errors_Is a t \<or> errors_Is e t"
  by (cases e) auto

lemma is_panic_Join [simp]: "is_panic (errors_Join a e) = is_panic e"
  by (cases e) auto

lemma errors_Is_Errorf [simp]:
  "\<not> is_panic t \<Longrightarrow> \<forall>s e. t \<noteq> Wrap s e \<Longrightarrow> errors_Is (Errorf s e) t = errors_Is e t"
  by (cases e) auto

type_synonym 'a result = "go_error + 'a"

definition bindE :: "'a result \<Rightarrow> ('a \<Rightarrow> 'b result) \<Rightarrow> 'b result" where
  "bindE m f = (case m of Inl e \<Rightarrow> Inl e | Inr x \<Rightarrow> f x)"

definition wrapE :: "string \<Rightarrow> 'a result \<Rightarrow> 'a result" where
  "wrapE s m = (case m of Inl e \<Rightarrow> Inl (Errorf s e) | Inr x \<Rightarrow> Inr x)"

definition guardE :: "bool \<Rightarrow> go_error \<Rightarrow> 'a result \<Rightarrow> 'a result" where
  "guardE b e m = (if b then m else Inl e)"

lemma bindE_simps [simp]:
  "bindE (Inl e) f = Inl e"
  "bindE (Inr x) f = f x"
  by (simp_all add: bindE_def)

lemma wrapE_simps [simp]:
  "wrapE s (Inl e) = Inl (Errorf s e)"
  "wrapE s (Inr x) = Inr x"
  by (simp_all add: wrapE_def)

lemma guardE_simps [simp]:
  "guardE True e m = m"
  "guardE False e m = Inl e"
  by (simp_all add: guardE_def)

lemma bindE_eq_Inr [result_iffs]: "bindE m f = Inr y \<longleftrightarrow> (\<exists>x. m = Inr x \<and> f x = Inr y)"
  by (cases m) auto

lemma wrapE_eq_Inr [result_iffs]: "wrapE s m = Inr y \<longleftrightarrow> m = Inr y"
  by (cases m) auto

lemma guardE_eq_Inr [result_iffs]: "guardE b e m = Inr y \<longleftrightarrow> b \<and> m = Inr y"
  by (cases b) auto

lemma bindE_cong [fundef_cong]:
  "m = m' \<Longrightarrow> (\<And>x. m' = Inr x \<Longrightarrow> f x = g x) \<Longrightarrow> bindE m f = bindE m' g"
  by (cases m') auto

text \<open>A loop that stops at the first error, and one that also keeps or drops elements.\<close>

fun mapE :: "('a \<Rightarrow> 'b result) \<Rightarrow> 'a list \<Rightarrow> 'b list result" where
  "mapE f [] = Inr []"
| "mapE f (x # xs) = bindE (f x) (\<lambda>y. bindE (mapE f xs) (\<lambda>ys. Inr (y # ys)))"

lemma mapE_Inr: "mapE f xs = Inr ys \<longleftrightarrow> list_all2 (\<lambda>x y. f x = Inr y) xs ys"
  by (induction xs arbitrary: ys) (auto simp: result_iffs list_all2_Cons1)

lemma mapE_ok: "(\<And>x. x \<in> set xs \<Longrightarrow> f x = Inr (g x)) \<Longrightarrow> mapE f xs = Inr (map g xs)"
  by (induction xs) auto

definition filter_mapE :: "('a \<Rightarrow> 'b option result) \<Rightarrow> 'a list \<Rightarrow> 'b list result" where
  "filter_mapE f xs = bindE (mapE f xs) (\<lambda>ys. Inr (List.map_filter id ys))"

lemma set_map_filter_Some: "set (List.map_filter g xs) = {y. \<exists>x \<in> set xs. g x = Some y}"
  by (induction xs) (auto simp: List.map_filter_simps split: option.split)

lemma ok_value: "(case m of Inr v \<Rightarrow> v | Inl e \<Rightarrow> None) = Some y \<longleftrightarrow> m = Inr (Some y)"
  by (cases m) auto

lemma filter_mapE_Inr:
  assumes "filter_mapE f xs = Inr ys"
  shows "\<forall>x \<in> set xs. \<exists>o'. f x = Inr o'" "set ys = {y. \<exists>x \<in> set xs. f x = Inr (Some y)}"
    "ys = List.map_filter (\<lambda>x. case f x of Inr o' \<Rightarrow> o' | Inl e \<Rightarrow> None) xs"
proof -
  obtain os where os: "list_all2 (\<lambda>x y. f x = Inr y) xs os" "ys = List.map_filter id os"
    using assms by (auto simp: filter_mapE_def result_iffs mapE_Inr)
  from os(1) show "\<forall>x \<in> set xs. \<exists>o'. f x = Inr o'"
    by (induction rule: list_all2_induct) auto
  have "List.map_filter id os = List.map_filter (\<lambda>x. case f x of Inr o' \<Rightarrow> o' | Inl e \<Rightarrow> None) xs"
    using os(1) by (induction rule: list_all2_induct) (simp_all add: List.map_filter_simps split: option.split)
  with os(2) show ys: "ys = List.map_filter (\<lambda>x. case f x of Inr o' \<Rightarrow> o' | Inl e \<Rightarrow> None) xs" by simp
  show "set ys = {y. \<exists>x \<in> set xs. f x = Inr (Some y)}"
    unfolding ys set_map_filter_Some ok_value ..
qed

text \<open>
  \<open>make([]T, n)\<close>: the run-time panics when the slice would exceed its largest
  allocation, \<open>2 ^ 48\<close> bytes on 64-bit Linux; \<open>sz\<close> is the size of \<open>T\<close>.
\<close>

definition make_slice :: "nat \<Rightarrow> nat \<Rightarrow> 'a result \<Rightarrow> 'a result" where
  "make_slice sz n m = guardE (sz * n \<le> 2 ^ 48) (Panic ''makeslice: len out of range'') m"

lemma make_slice_Inr [result_iffs]: "make_slice sz n m = Inr y \<longleftrightarrow> sz * n \<le> 2 ^ 48 \<and> m = Inr y"
  by (simp add: make_slice_def result_iffs)

lemma make_slice_ok [simp]: "sz * n \<le> 2 ^ 48 \<Longrightarrow> make_slice sz n m = m"
  by (simp add: make_slice_def)

section \<open>Bytes, readers and writers\<close>

type_synonym byte = "8 word"
type_synonym bytes = "byte list"
type_synonym 'a decoder_fun = "bytes \<Rightarrow> ('a \<times> bytes) result"

text \<open>
  A reader is the sequence of bytes it still delivers; \<open>io.ReadFull\<close> with a buffer of
  \<open>n\<close> bytes returns them, or \<open>EOF\<close> when there is no byte at all, or
  \<open>ErrUnexpectedEOF\<close> when there are too few.
\<close>

definition ReadFull :: "nat \<Rightarrow> bytes decoder_fun" where
  "ReadFull n r =
     (if n \<le> length r then Inr (take n r, drop n r)
      else if r = [] then Inl EOF else Inl ErrUnexpectedEOF)"

lemma ReadFull_append [simp]: "length p = n \<Longrightarrow> ReadFull n (p @ r) = Inr (p, r)"
  by (auto simp: ReadFull_def)

lemma ReadFull_Inr: "ReadFull n r = Inr (p, r') \<longleftrightarrow> length p = n \<and> r = p @ r'"
  by (auto simp: ReadFull_def split: if_splits)

lemma ReadFull_not_panic: "ReadFull n r = Inl e \<Longrightarrow> e = EOF \<or> e = ErrUnexpectedEOF"
  by (auto simp: ReadFull_def split: if_splits)

text \<open>
  A writer holds what was written so far and how many more bytes it accepts before its
  \<open>Write\<close> fails (\<open>None\<close>: it never fails, as \<open>bytes.Buffer\<close>). A failing
  \<open>Write\<close> keeps the bytes that fitted and returns an error, as the contract of
  \<open>io.Writer\<close> requires.
\<close>

record writer =
  written :: bytes
  room :: "nat option"

type_synonym write_op = "writer \<Rightarrow> go_error option \<times> writer"

definition w_write :: "bytes \<Rightarrow> write_op" where
  "w_write p w =
     (case room w of
        None \<Rightarrow> (None, w\<lparr>written := written w @ p\<rparr>)
      | Some n \<Rightarrow>
          if length p \<le> n
          then (None, w\<lparr>written := written w @ p, room := Some (n - length p)\<rparr>)
          else (Some ErrShortWrite, w\<lparr>written := written w @ take n p, room := Some 0\<rparr>))"

definition w_fail :: "go_error \<Rightarrow> write_op" where
  "w_fail e w = (Some e, w)"

definition w_seq :: "write_op \<Rightarrow> write_op \<Rightarrow> write_op" where
  "w_seq f g w = (case f w of (None, w') \<Rightarrow> g w' | (Some e, w') \<Rightarrow> (Some e, w'))"

definition w_wrap :: "string \<Rightarrow> write_op \<Rightarrow> write_op" where
  "w_wrap s f w = (case f w of (None, w') \<Rightarrow> (None, w') | (Some e, w') \<Rightarrow> (Some (Errorf s e), w'))"

definition w_skip :: write_op where
  "w_skip w = (None, w)"

fun w_each :: "('a \<Rightarrow> write_op) \<Rightarrow> 'a list \<Rightarrow> write_op" where
  "w_each f [] = w_skip"
| "w_each f (x # xs) = w_seq (f x) (w_each f xs)"

text \<open>
  \<open>emits f p\<close>: the operation \<open>f\<close> sends exactly the bytes \<open>p\<close> to its writer, whatever its
  capacity: the same bytes arrive and it fails exactly when one \<open>Write\<close> of all of \<open>p\<close>
  would, though perhaps with another (wrapped) error.
\<close>

definition emits :: "write_op \<Rightarrow> bytes \<Rightarrow> bool" where
  "emits f p \<longleftrightarrow>
     (\<forall>w. snd (f w) = snd (w_write p w) \<and> (fst (f w) = None \<longleftrightarrow> fst (w_write p w) = None)
          \<and> (\<forall>e. fst (f w) = Some e \<longrightarrow> errors_Is e ErrShortWrite))"

lemma w_write_Nil [simp]: "w_write [] w = (None, w)"
  by (cases w) (auto simp: w_write_def split: option.splits)

lemma w_write_append:
  "w_write (p @ q) w = w_seq (w_write p) (w_write q) w"
  by (cases w) (auto simp: w_write_def w_seq_def split: option.splits)

lemma emits_write [intro, simp]: "emits (w_write p) p"
  by (auto simp: emits_def w_write_def split: option.splits if_splits)

lemma emits_skip [intro, simp]: "emits w_skip []"
  by (simp add: emits_def w_skip_def)

lemma emits_wrap [intro, simp]: "emits f p \<Longrightarrow> emits (w_wrap s f) p"
  unfolding emits_def w_wrap_def
proof
  fix w
  assume h: "\<forall>w. snd (f w) = snd (w_write p w) \<and> (fst (f w) = None \<longleftrightarrow> fst (w_write p w) = None)
          \<and> (\<forall>e. fst (f w) = Some e \<longrightarrow> errors_Is e ErrShortWrite)"
  show "snd (case f w of (None, w') \<Rightarrow> (None, w') | (Some e, w') \<Rightarrow> (Some (Errorf s e), w')) = snd (w_write p w)
    \<and> (fst (case f w of (None, w') \<Rightarrow> (None, w') | (Some e, w') \<Rightarrow> (Some (Errorf s e), w')) = None
         \<longleftrightarrow> fst (w_write p w) = None)
    \<and> (\<forall>e. fst (case f w of (None, w') \<Rightarrow> (None, w') | (Some e, w') \<Rightarrow> (Some (Errorf s e), w')) = Some e
         \<longrightarrow> errors_Is e ErrShortWrite)"
    using h [rule_format, of w] by (cases "f w"; cases "fst (f w)") auto
qed

lemma emits_seq [intro]: "emits f p \<Longrightarrow> emits g q \<Longrightarrow> emits (w_seq f g) (p @ q)"
  unfolding emits_def
proof
  fix w
  assume f: "\<forall>w. snd (f w) = snd (w_write p w) \<and> (fst (f w) = None \<longleftrightarrow> fst (w_write p w) = None)
          \<and> (\<forall>e. fst (f w) = Some e \<longrightarrow> errors_Is e ErrShortWrite)"
    and g: "\<forall>w. snd (g w) = snd (w_write q w) \<and> (fst (g w) = None \<longleftrightarrow> fst (w_write q w) = None)
          \<and> (\<forall>e. fst (g w) = Some e \<longrightarrow> errors_Is e ErrShortWrite)"
  show "snd (w_seq f g w) = snd (w_write (p @ q) w)
     \<and> (fst (w_seq f g w) = None \<longleftrightarrow> fst (w_write (p @ q) w) = None)
     \<and> (\<forall>e. fst (w_seq f g w) = Some e \<longrightarrow> errors_Is e ErrShortWrite)"
    using f [rule_format, of w] g [rule_format, of "snd (f w)"]
    by (cases "f w"; cases "w_write p w"; cases "fst (f w)"; cases "fst (w_write p w)")
      (auto simp: w_write_append w_seq_def)
qed

lemma emits_each: "(\<And>x. x \<in> set xs \<Longrightarrow> emits (f x) (enc x)) \<Longrightarrow> emits (w_each f xs) (concat (map enc xs))"
  by (induction xs) auto

text \<open>An operation that emits \<open>p\<close> into an empty \<open>bytes.Buffer\<close> leaves \<open>p\<close> there.\<close>

definition run_buffer :: "write_op \<Rightarrow> bytes result" where
  "run_buffer f =
     (case f \<lparr>written = [], room = None\<rparr> of
        (None, w) \<Rightarrow> Inr (written w)
      | (Some e, w) \<Rightarrow> Inl e)"

lemma emits_run_buffer: "emits f p \<Longrightarrow> run_buffer f = Inr p"
  unfolding emits_def run_buffer_def
  by (auto simp: w_write_def split: prod.splits option.splits dest: spec [where x = "\<lparr>written = [], room = None\<rparr>"])


section \<open>Little-endian integers (\<open>encoding/binary\<close>)\<close>

fun le_put :: "nat \<Rightarrow> 'a::len word \<Rightarrow> bytes" where
  "le_put 0 x = []"
| "le_put (Suc k) x = ucast x # le_put k (drop_bit 8 x)"

fun le_get :: "bytes \<Rightarrow> 'a::len word" where
  "le_get [] = 0"
| "le_get (b # bs) = ucast b OR push_bit 8 (le_get bs)"

definition PutUint16 :: "16 word \<Rightarrow> bytes" where "PutUint16 x = le_put 2 x"
definition PutUint32 :: "32 word \<Rightarrow> bytes" where "PutUint32 x = le_put 4 x"
definition PutUint64 :: "64 word \<Rightarrow> bytes" where "PutUint64 x = le_put 8 x"
definition Uint16 :: "bytes \<Rightarrow> 16 word" where "Uint16 bs = le_get (take 2 bs)"
definition Uint32 :: "bytes \<Rightarrow> 32 word" where "Uint32 bs = le_get (take 4 bs)"
definition Uint64 :: "bytes \<Rightarrow> 64 word" where "Uint64 bs = le_get (take 8 bs)"

lemma length_le_put [simp]: "length (le_put k x) = k"
  by (induction k arbitrary: x) auto

lemma le_get_put: "le_get (le_put k x) = take_bit (8 * k) (x :: 'a::len word)"
proof (induction k arbitrary: x)
  case 0
  then show ?case by simp
next
  case (Suc k)
  show ?case
    by (rule bit_word_eqI) (auto simp: Suc bit_simps)
qed

lemma le_get_le_put_same: "LENGTH('a) \<le> 8 * k \<Longrightarrow> le_get (le_put k x) = (x :: 'a::len word)"
  by (simp add: le_get_put take_bit_word_eq_self)

lemma le_put_get:
  "8 * length bs \<le> LENGTH('a) \<Longrightarrow> le_put (length bs) (le_get bs :: 'a::len word) = bs"
proof (induction bs)
  case Nil
  then show ?case by simp
next
  case (Cons b bs)
  have hd: "ucast (ucast b OR push_bit 8 (le_get bs) :: 'a word) = b"
    using Cons.prems by (intro bit_word_eqI) (auto simp: bit_simps)
  have tl: "drop_bit 8 (ucast b OR push_bit 8 (le_get bs) :: 'a word) = take_bit (LENGTH('a) - 8) (le_get bs)"
    by (intro bit_word_eqI) (auto simp: bit_simps dest: bit_imp_le_length)
  have bound: "take_bit (LENGTH('a) - 8) (le_get bs :: 'a word) = le_get bs"
  proof -
    have "le_get bs = (take_bit (8 * length bs) (le_get bs) :: 'a word)"
      using Cons by (metis Suc_leD le_get_put add_leD2 length_Cons mult_Suc_right)
    then show ?thesis
      using Cons.prems by (metis (no_types) add_leD1 add_le_imp_le_diff length_Cons min.absorb2
          mult_Suc_right take_bit_take_bit add.commute)
  qed
  show ?case using Cons hd tl bound by simp
qed

lemma Uint_Put [simp]:
  "Uint16 (PutUint16 a) = a"
  "Uint32 (PutUint32 b) = b"
  "Uint64 (PutUint64 c) = c"
  by (simp_all add: Uint16_def PutUint16_def Uint32_def PutUint32_def Uint64_def PutUint64_def
      le_get_le_put_same)

lemma Uint_Put_append [simp]:
  "Uint16 (PutUint16 a @ r) = a"
  "Uint32 (PutUint32 b @ r) = b"
  "Uint64 (PutUint64 c @ r) = c"
  by (simp_all add: Uint16_def PutUint16_def Uint32_def PutUint32_def Uint64_def PutUint64_def
      le_get_le_put_same)

lemma length_PutUint [simp]:
  "length (PutUint16 a) = 2"
  "length (PutUint32 b) = 4"
  "length (PutUint64 c) = 8"
  by (simp_all add: PutUint16_def PutUint32_def PutUint64_def)

lemma Put_Uint:
  "length bs = 2 \<Longrightarrow> PutUint16 (Uint16 bs) = bs"
  "length bs = 4 \<Longrightarrow> PutUint32 (Uint32 bs) = bs"
  "length bs = 8 \<Longrightarrow> PutUint64 (Uint64 bs) = bs"
  using le_put_get [of bs, where 'a = 16] le_put_get [of bs, where 'a = 32] le_put_get [of bs, where 'a = 64]
  by (simp_all add: PutUint16_def Uint16_def PutUint32_def Uint32_def PutUint64_def Uint64_def)

section \<open>Signed 64-bit integers\<close>

text \<open>
  \<open>int64\<close> values are integers; every operation of the source that may leave the range is
  followed by \<open>wrap64\<close>, Go's two's complement wrap-around.
\<close>

definition in_int64 :: "int \<Rightarrow> bool" where
  "in_int64 x \<longleftrightarrow> - (2 ^ 63) \<le> x \<and> x < 2 ^ 63"

definition wrap64 :: "int \<Rightarrow> int" where
  "wrap64 x = (x + 2 ^ 63) mod 2 ^ 64 - 2 ^ 63"

lemma wrap64_id [simp]: "in_int64 x \<Longrightarrow> wrap64 x = x"
  by (simp add: wrap64_def in_int64_def)

lemma in_int64_wrap64 [simp]: "in_int64 (wrap64 x)"
  by (auto simp: wrap64_def in_int64_def)

lemma wrap64_sint: "wrap64 x = sint (word_of_int x :: 64 word)"
  by transfer (simp add: wrap64_def signed_take_bit_eq_take_bit_shift take_bit_eq_mod)

section \<open>Small words\<close>

lemma take_bit_of_small_nat: "d < 2 ^ k \<Longrightarrow> take_bit k (of_nat d :: 'a::len word) = of_nat d"
  by (simp add: take_bit_of_nat take_bit_nat_eq_self)

lemma ucast_byte_of_small_nat [simp]: "d < 256 \<Longrightarrow> ucast (of_nat d :: byte) = (of_nat d :: 'a::len word)"
  by (simp add: unsigned_of_nat take_bit_nat_eq_self)

lemma and_127: "(w :: 'a::len word) AND 0x7F = take_bit 7 w"
  by (simp add: take_bit_eq_mask mask_eq_exp_minus_1)

lemma push_or_small:
  assumes "d < 2 ^ k"
  shows "push_bit k (x :: 'a::len word) OR of_nat d = x * 2 ^ k + of_nat d"
proof -
  let ?t = "take_bit k (of_nat d :: 'a word)"
  have "push_bit k x + ?t = push_bit k x OR ?t"
    by (rule disjunctive_add) (auto simp: bit_simps)
  then show ?thesis using assms by (simp add: take_bit_of_small_nat push_bit_eq_mult)
qed

lemma unat_less_64: "unat (n :: 64 word) < 18446744073709551616"
proof -
  have "unat n < 2 ^ LENGTH(64)" by (rule unsigned_less)
  then show ?thesis by simp
qed

lemma take_bit_eq_self_unat: "unat (w :: 'a::len word) < 2 ^ k \<Longrightarrow> take_bit k w = w"
  by (rule unsigned_word_eqI [where 'a = nat]) (simp add: unsigned_take_bit_eq take_bit_nat_eq_self)

lemma ucast_ucast_64:
  "ucast (ucast (n :: 64 word) :: 16 word) = take_bit 16 n"
  "ucast (ucast (n :: 64 word) :: 32 word) = take_bit 32 n"
  "ucast (ucast (n :: 64 word) :: 8 word) = take_bit 8 n"
  by (intro bit_word_eqI; auto simp: bit_simps)+

lemma drop_list_update_same: "j < length xs \<Longrightarrow> drop j (xs[j := y]) = y # drop (Suc j) xs"
  using Cons_nth_drop_Suc [of j "xs[j := y]"] by simp

section \<open>Slices\<close>

text \<open>The bytes of \<open>xs\<close> at positions \<open>[off, off + n)\<close>, cut at the end of \<open>xs\<close>.\<close>

definition slice :: "nat \<Rightarrow> nat \<Rightarrow> 'a list \<Rightarrow> 'a list" where
  "slice off n xs = take n (drop off xs)"

lemma length_slice [simp]: "length (slice off n xs) = min n (length xs - off)"
  by (auto simp: slice_def)

lemma slice_append_skip: "slice (length p + k) n (p @ xs) = slice k n xs"
  by (simp add: slice_def)

lemma slice_len_0 [simp]: "slice off 0 xs = []"
  by (simp add: slice_def)

lemma slice_0_all [simp]: "length xs \<le> n \<Longrightarrow> slice 0 n xs = xs"
  by (simp add: slice_def)

lemma slice_slice: "a + b \<le> n \<Longrightarrow> slice a b (slice off n xs) = slice (off + a) b xs"
  by (auto simp: slice_def drop_take take_take min_def add.commute)

lemma slice_split: "m \<le> n \<Longrightarrow> slice off n xs = slice off m xs @ slice (off + m) (n - m) xs"
  by (simp add: slice_def flip: take_add)  (metis add.commute le_add_diff_inverse take_add drop_drop)

lemma drop_slice: "a \<le> b \<Longrightarrow> drop a xs = slice a (b - a) xs @ drop b xs"
  by (metis append_take_drop_id drop_drop le_add_diff_inverse2 slice_def)

lemma drop_nth: "i < length xs \<Longrightarrow> drop i xs = xs ! i # drop (Suc i) xs"
  by (simp add: Cons_nth_drop_Suc)

section \<open>Interfaces of decoders and codecs\<close>

text \<open>
  A decoder reads a value from the front of a stream and returns the rest of it. The
  readers of \<open>revfile\<close> and \<open>blockmap\<close> are decoders: what they return is a suffix of
  their input, which is what makes loops over a stream stop.
\<close>

locale decoder =
  fixes dec :: "'a decoder_fun"
  assumes dec_suffix: "dec bs = Inr (x, r) \<Longrightarrow> suffix r bs"
begin

lemma dec_length: "dec bs = Inr (x, r) \<Longrightarrow> length r \<le> length bs"
  by (auto dest!: dec_suffix simp: suffix_def)

end

text \<open>Reading \<open>n\<close> values in a row, the loop of \<open>DeserializeTxUndo\<close> and its kin.\<close>

fun read_loop :: "nat \<Rightarrow> 'a decoder_fun \<Rightarrow> 'a list decoder_fun" where
  "read_loop 0 dec r = Inr ([], r)"
| "read_loop (Suc n) dec r =
     bindE (dec r) (\<lambda>(x, r'). bindE (read_loop n dec r') (\<lambda>(xs, r''). Inr (x # xs, r'')))"

lemma read_loop_length: "read_loop n dec r = Inr (xs, r') \<Longrightarrow> length xs = n"
  by (induction n arbitrary: r xs) (auto simp: result_iffs split: prod.splits)

context decoder
begin

lemma read_loop_suffix: "read_loop n dec bs = Inr (xs, r) \<Longrightarrow> suffix r bs"
proof (induction n arbitrary: bs xs)
  case 0
  then show ?case by simp
next
  case (Suc n)
  then obtain x r' ys where "dec bs = Inr (x, r')" "read_loop n dec r' = Inr (ys, r)"
    by (auto simp: result_iffs)
  then show ?case
    using Suc.IH dec_suffix suffix_order.trans by blast
qed

end

text \<open>
  A codec is a decoder with an encoder that it inverts, on the values the format can
  carry, with any continuation of the stream. What follows for every codec: encodings
  are self-delimiting (no encoding is a proper prefix of another), hence injective, and
  a concatenation of encodings reads back as the list.
\<close>

locale codec = decoder dec
  for dec :: "'a decoder_fun" +
  fixes enc :: "'a \<Rightarrow> bytes" and valid :: "'a \<Rightarrow> bool"
  assumes dec_enc: "valid x \<Longrightarrow> dec (enc x @ r) = Inr (x, r)"
begin

lemma dec_enc_exact: "valid x \<Longrightarrow> dec (enc x) = Inr (x, [])"
  using dec_enc [of x "[]"] by simp

lemma enc_self_delimiting:
  assumes "valid x" "valid y" "enc x @ r = enc y @ s"
  shows "x = y \<and> r = s"
proof -
  have "dec (enc x @ r) = Inr (y, s)"
    unfolding assms(3) by (rule dec_enc [OF assms(2)])
  with dec_enc [OF assms(1), of r] show ?thesis by simp
qed

lemma enc_inj_on: "inj_on enc {x. valid x}"
proof (rule inj_onI)
  fix x y
  assume "x \<in> {x. valid x}" "y \<in> {x. valid x}" "enc x = enc y"
  then show "x = y" using enc_self_delimiting [of x y "[]" "[]"] by simp
qed

lemma read_loop_enc:
  "list_all valid xs \<Longrightarrow> read_loop (length xs) dec (concat (map enc xs) @ r) = Inr (xs, r)"
  by (induction xs) (auto simp: dec_enc)

end

text \<open>A codec whose encodings all have the same width.\<close>

locale fixed_codec = codec dec enc valid
  for dec :: "'a decoder_fun" and enc :: "'a \<Rightarrow> bytes" and valid :: "'a \<Rightarrow> bool" +
  fixes width :: nat
  assumes enc_width: "valid x \<Longrightarrow> length (enc x) = width"
begin

lemma concat_enc_width: "list_all valid xs \<Longrightarrow> length (concat (map enc xs)) = width * length xs"
  by (induction xs) (auto simp: enc_width)

end

end
