(* ===== verification/Revfile_Numbers.thy ===== *)
theory Revfile_Numbers
  imports Prelude
begin

text \<open>
  The number encodings of \<open>internal/revfile\<close>: Bitcoin Core's VARINT
  (\<open>varint.go\<close>), CompactSize (\<open>compactsize.go\<close>) and the amount compression
  (\<open>amount.go\<close>). Numbers are 64-bit words, so every shift, increment and product wraps
  as in Go. Shown: the writers never run out of their buffer, what they emit, that the
  readers invert them with any continuation of the stream, and for amounts on which
  range compression is exact.
\<close>

section \<open>VARINT\<close>

text \<open>
  The loop of \<open>WriteVarInt\<close> fills a 10-byte buffer from the right; \<open>i\<close> is the index of
  the leftmost byte written. An index below 0 is Go's panic.
\<close>

fun varint_loop :: "64 word \<Rightarrow> nat \<Rightarrow> bytes \<Rightarrow> (nat \<times> bytes) result" where
  "varint_loop n 0 buf = (if n = 0 then Inr (0, buf) else Inl (Panic ''index out of range''))"
| "varint_loop n (Suc i) buf =
     (if n = 0 then Inr (Suc i, buf)
      else varint_loop (drop_bit 7 (n - 1)) i (buf[i := ucast ((n - 1) AND 0x7F) OR 0x80]))"

definition WriteVarInt :: "64 word \<Rightarrow> write_op" where
  "WriteVarInt n =
     (case varint_loop (drop_bit 7 n) 9 ((replicate 10 0)[9 := ucast (n AND 0x7F)]) of
        Inl e \<Rightarrow> w_fail e
      | Inr (i, buf) \<Rightarrow> w_write (drop i buf))"

fun read_varint_loop :: "64 word \<Rightarrow> 64 word decoder_fun" where
  "read_varint_loop n [] = Inl (Errorf ''revfile: read varint'' EOF)"
| "read_varint_loop n (b # r) =
     (let n' = push_bit 7 n OR ucast (b AND 0x7F)
      in if b AND 0x80 = 0 then Inr (n', r) else read_varint_loop (n' + 1) r)"

definition ReadVarInt :: "64 word decoder_fun" where
  "ReadVarInt r = read_varint_loop 0 r"

text \<open>
  The bytes a VARINT consists of, on natural numbers: \<open>varint_cont m\<close> are the bytes with
  the continuation bit, for the groups above the last one.
\<close>

fun varint_cont :: "nat \<Rightarrow> bytes" where
  "varint_cont m =
     (if m < 128 then [of_nat m OR 0x80]
      else varint_cont (m div 128 - 1) @ [of_nat (m mod 128) OR 0x80])"

declare varint_cont.simps [simp del]

definition varint_bytes :: "64 word \<Rightarrow> bytes" where
  "varint_bytes n =
     (if unat n < 128 then [ucast n]
      else varint_cont (unat n div 128 - 1) @ [of_nat (unat n mod 128)])"

lemma varint_cont_small: "m < 128 \<Longrightarrow> varint_cont m = [of_nat m OR 0x80]"
  by (simp add: varint_cont.simps)

lemma varint_cont_big:
  "\<not> m < 128 \<Longrightarrow> varint_cont m = varint_cont (m div 128 - 1) @ [of_nat (m mod 128) OR 0x80]"
  by (simp add: varint_cont.simps [of m])

lemma varint_loop_0 [simp]: "varint_loop 0 i buf = Inr (i, buf)"
  by (cases i) auto

lemma low7_of_nat: "d < 128 \<Longrightarrow> (of_nat d OR 0x80 :: byte) AND 0x7F = of_nat d"
proof -
  assume d: "d < 128"
  have "(of_nat d OR 0x80 :: byte) AND 0x7F = of_nat d AND 0x7F"
    by (simp add: and.commute [of _ "0x7F"] bit.conj_disj_distrib)
  then show ?thesis
    using d by (simp add: and_127 take_bit_of_small_nat)
qed

lemma low7_of_nat' [simp]: "d < 128 \<Longrightarrow> (of_nat d :: byte) AND 0x7F = of_nat d"
  by (simp add: and_127 take_bit_of_small_nat)

lemma cont_bit_set: "(b OR 0x80 :: byte) AND 0x80 \<noteq> 0"
proof -
  have "bit ((b OR 0x80) AND 0x80 :: byte) 7"
    by (simp add: bit_simps)
  then show ?thesis by auto
qed

lemma cont_bit_clear: "d < 128 \<Longrightarrow> (of_nat d :: byte) AND 0x80 = 0"
proof -
  assume d: "d < 128"
  then have "(of_nat d :: byte) AND 0x80 = take_bit 7 (of_nat d) AND 0x80"
    by (simp add: take_bit_of_small_nat)
  also have "\<dots> = take_bit 7 (of_nat d) AND 2 ^ 7" by simp
  also have "\<dots> = 0"
    by (intro bit_word_eqI) (simp only: bit_simps, simp)
  finally show ?thesis .
qed

lemma shift7_or: "d < 128 \<Longrightarrow> push_bit 7 (x :: 64 word) OR of_nat d = x * 128 + of_nat d"
  using push_or_small [of d 7 x] by simp

lemma read_varint_cont_byte:
  "d < 128 \<Longrightarrow> read_varint_loop x ((of_nat d OR 0x80) # r) = read_varint_loop (x * 128 + of_nat d + 1) r"
  by (simp add: cont_bit_set low7_of_nat shift7_or)

lemma read_varint_last_byte:
  "d < 128 \<Longrightarrow> read_varint_loop x (of_nat d # r) = Inr (x * 128 + of_nat d, r)"
  by (simp add: cont_bit_clear shift7_or)

lemma of_nat_div_mod_128: "(of_nat (m div 128) * 128 + of_nat (m mod 128) :: 64 word) = of_nat m"
  by (metis div_mult_mod_eq of_nat_add of_nat_mult of_nat_numeral)

lemma of_nat_pred: "0 < k \<Longrightarrow> of_nat (k - 1) + 1 = (of_nat k :: 64 word)"
  by (metis Suc_pred' add.commute of_nat_Suc)

lemma read_cont: "read_varint_loop 0 (varint_cont m @ r) = read_varint_loop (of_nat m + 1) r"
proof (induction m arbitrary: r rule: varint_cont.induct)
  case (1 m)
  show ?case
  proof (cases "m < 128")
    case True
    then show ?thesis
      by (subst varint_cont.simps) (simp add: read_varint_cont_byte del: read_varint_loop.simps)
  next
    case False
    then have eq: "varint_cont m @ r = varint_cont (m div 128 - 1) @ (of_nat (m mod 128) OR 0x80) # r"
      by (subst varint_cont.simps) simp
    show ?thesis
      using False unfolding eq "1.IH" [OF False]
      by (simp add: read_varint_cont_byte of_nat_pred of_nat_div_mod_128 del: read_varint_loop.simps)
  qed
qed

lemma ReadVarInt_bytes: "ReadVarInt (varint_bytes n @ r) = Inr (n, r)"
proof (cases "unat n < 128")
  case True
  then show ?thesis
    using read_varint_last_byte [OF True, of 0 r] by (simp add: ReadVarInt_def varint_bytes_def)
next
  case False
  then show ?thesis
    by (simp add: ReadVarInt_def varint_bytes_def read_cont read_varint_last_byte of_nat_pred
        of_nat_div_mod_128 del: read_varint_loop.simps)
qed

lemma length_varint_cont: "m < 128 ^ k \<Longrightarrow> length (varint_cont m) \<le> max 1 k"
proof (induction k arbitrary: m)
  case 0
  then show ?case by (simp add: varint_cont.simps)
next
  case (Suc k)
  show ?case
  proof (cases "m < 128")
    case True
    then show ?thesis by (simp add: varint_cont.simps)
  next
    case False
    then have "0 < k" using Suc.prems by (cases k) auto
    have "m div 128 - 1 < 128 ^ k" using Suc.prems False by (simp add: less_mult_imp_div_less less_imp_diff_less mult.commute)
    then have "length (varint_cont (m div 128 - 1)) \<le> k" using Suc.IH \<open>0 < k\<close> by fastforce
    then show ?thesis using False by (subst varint_cont.simps) simp
  qed
qed

lemma unat_drop_bit_7: "unat (drop_bit 7 (n :: 64 word)) = unat n div 128"
  by (simp add: drop_bit_eq_div unat_div)

lemma ucast_and_127: "ucast ((n :: 64 word) AND 0x7F) = (of_nat (unat n mod 128) :: byte)"
proof -
  have "unat (n AND 0x7F) = unat n mod 128"
    by (simp add: and_127 take_bit_eq_mod unat_mod)
  then show ?thesis by (metis of_nat_unat)
qed

lemma varint_cont_nonempty: "varint_cont m \<noteq> []"
  by (subst varint_cont.simps) simp

lemma unat_pred: "n \<noteq> 0 \<Longrightarrow> unat (n - 1 :: 64 word) = unat n - 1"
  by (metis unat_1 unat_sub word_less_1 linorder_not_less)

lemma varint_loop_spec:
  assumes "n \<noteq> 0" "length (varint_cont (unat n - 1)) \<le> i" "i \<le> length buf"
  shows "\<exists>i' buf'. varint_loop n i buf = Inr (i', buf') \<and> drop i' buf' = varint_cont (unat n - 1) @ drop i buf"
  using assms
proof (induction i arbitrary: n buf)
  case 0
  then show ?case by (simp add: varint_cont_nonempty)
next
  case (Suc j)
  define m where "m = n - 1"
  have um: "unat m = unat n - 1"
    using Suc.prems(1) by (simp add: m_def unat_pred)
  define buf' where "buf' = buf[j := ucast (m AND 0x7F) OR 0x80]"
  have dj: "drop j buf' = (of_nat (unat m mod 128) OR 0x80) # drop (Suc j) buf"
    using Suc.prems(3) by (simp add: buf'_def ucast_and_127 drop_list_update_same)
  have step: "varint_loop n (Suc j) buf = varint_loop (drop_bit 7 m) j buf'"
    using Suc.prems(1) by (simp add: m_def buf'_def)
  show ?case
  proof (cases "unat m < 128")
    case True
    then have "drop_bit 7 m = 0"
      by (simp add: unat_drop_bit_7 flip: unat_eq_0)
    with True dj show ?thesis
      unfolding step um [symmetric] by (simp add: varint_cont_small)
  next
    case False
    then have vc: "varint_cont (unat n - 1) = varint_cont (unat m div 128 - 1) @ [of_nat (unat m mod 128) OR 0x80]"
      unfolding um [symmetric] by (rule varint_cont_big)
    have "drop_bit 7 m \<noteq> 0"
      using False by (simp add: unat_drop_bit_7 flip: unat_eq_0)
    then obtain i' b' where "varint_loop (drop_bit 7 m) j buf' = Inr (i', b')"
      and "drop i' b' = varint_cont (unat m div 128 - 1) @ drop j buf'"
      using Suc.IH [of "drop_bit 7 m" buf'] Suc.prems vc by (auto simp: unat_drop_bit_7 buf'_def)
    then show ?thesis unfolding step vc dj by auto
  qed
qed

lemma WriteVarInt_bytes: "WriteVarInt n = w_write (varint_bytes n)"
proof (cases "unat n < 128")
  case True
  then have "drop_bit 7 n = 0"
    by (simp add: unat_drop_bit_7 flip: unat_eq_0)
  with True show ?thesis
    by (simp add: WriteVarInt_def varint_bytes_def drop_list_update_same ucast_and_127)
next
  case False
  let ?m = "drop_bit 7 n" and ?buf = "(replicate 10 0)[9 := ucast (n AND 0x7F) :: byte]"
  have nz: "?m \<noteq> 0"
    using False by (simp add: unat_drop_bit_7 flip: unat_eq_0)
  have "unat ?m - 1 < 128 ^ 9"
    using unat_less_64 [of n] by (simp add: unat_drop_bit_7 less_mult_imp_div_less less_imp_diff_less)
  then have len: "length (varint_cont (unat ?m - 1)) \<le> 9"
    using length_varint_cont [of "unat ?m - 1" 9] by simp
  obtain i b where l: "varint_loop ?m 9 ?buf = Inr (i, b)"
    and d: "drop i b = varint_cont (unat ?m - 1) @ drop 9 ?buf"
    using varint_loop_spec [OF nz len, of ?buf] by auto
  have "drop 9 ?buf = [of_nat (unat n mod 128)]"
    by (simp add: ucast_and_127 drop_list_update_same)
  then show ?thesis
    using False l d by (simp add: WriteVarInt_def varint_bytes_def unat_drop_bit_7)
qed


interpretation varint: codec ReadVarInt varint_bytes "\<lambda>_. True"
proof
  fix bs x r
  assume "ReadVarInt bs = Inr (x, r)"
  moreover have "read_varint_loop n bs = Inr (x, r) \<Longrightarrow> suffix r bs" for n
    by (induction n bs rule: read_varint_loop.induct) (auto simp: Let_def suffix_ConsI split: if_splits)
  ultimately show "suffix r bs" by (simp add: ReadVarInt_def)
qed (simp add: ReadVarInt_bytes)

lemma emits_WriteVarInt [intro, simp]: "emits (WriteVarInt n) (varint_bytes n)"
  by (simp add: WriteVarInt_bytes)

section \<open>CompactSize\<close>

definition WriteCompactSize :: "64 word \<Rightarrow> write_op" where
  "WriteCompactSize n =
     (if n \<le> 0xFC then w_write [ucast n]
      else if n \<le> 0xFFFF then w_seq (w_write [0xFD]) (w_write (PutUint16 (ucast n)))
      else if n \<le> 0xFFFFFFFF then w_seq (w_write [0xFE]) (w_write (PutUint32 (ucast n)))
      else w_seq (w_write [0xFF]) (w_write (PutUint64 n)))"

definition ReadCompactSize :: "64 word decoder_fun" where
  "ReadCompactSize r =
     bindE (wrapE ''revfile: read first byte'' (ReadFull 1 r)) (\<lambda>(firstByte, r1).
       if hd firstByte = 0xFD then
         bindE (wrapE ''revfile: read uint16'' (ReadFull 2 r1)) (\<lambda>(buf, r2). Inr (ucast (Uint16 buf), r2))
       else if hd firstByte = 0xFE then
         bindE (wrapE ''revfile: read uint32'' (ReadFull 4 r1)) (\<lambda>(buf, r2). Inr (ucast (Uint32 buf), r2))
       else if hd firstByte = 0xFF then
         bindE (wrapE ''revfile: read uint64'' (ReadFull 8 r1)) (\<lambda>(buf, r2). Inr (Uint64 buf, r2))
       else Inr (ucast (hd firstByte), r1))"

definition compactsize_bytes :: "64 word \<Rightarrow> bytes" where
  "compactsize_bytes n =
     (if n \<le> 0xFC then [ucast n]
      else if n \<le> 0xFFFF then 0xFD # PutUint16 (ucast n)
      else if n \<le> 0xFFFFFFFF then 0xFE # PutUint32 (ucast n)
      else 0xFF # PutUint64 n)"

lemma emits_WriteCompactSize [intro, simp]: "emits (WriteCompactSize n) (compactsize_bytes n)"
proof -
  have "emits (w_seq (w_write [a]) (w_write p)) (a # p)" for a p
    using emits_seq [OF emits_write emits_write, of "[a]" p] by simp
  then show ?thesis
    by (simp add: WriteCompactSize_def compactsize_bytes_def)
qed

lemma ReadFull_1_Cons [simp]: "ReadFull (Suc 0) (b # r) = Inr ([b], r)"
  by (simp add: ReadFull_def)

lemma ucast_byte_special:
  assumes "n \<le> 0xFC"
  shows "ucast (n :: 64 word) \<noteq> (0xFD :: byte)" "ucast n \<noteq> (0xFE :: byte)" "ucast n \<noteq> (0xFF :: byte)"
    and "ucast (ucast n :: byte) = n"
proof -
  have un: "unat n \<le> 252" using assms by (simp add: word_le_nat_alt)
  have "unat (ucast n :: byte) = unat n"
    using un by (simp add: unsigned_ucast_eq take_bit_nat_eq_self)
  then show "ucast n \<noteq> (0xFD :: byte)" "ucast n \<noteq> (0xFE :: byte)" "ucast n \<noteq> (0xFF :: byte)"
    using un by auto
  have "take_bit 8 n = n"
    using un by (simp add: take_bit_eq_self_unat)
  then show "ucast (ucast n :: byte) = n"
    by (simp add: ucast_ucast_64)
qed

lemma ReadCompactSize_bytes: "ReadCompactSize (compactsize_bytes n @ r) = Inr (n, r)"
proof -
  have "n \<le> 0xFFFF \<Longrightarrow> take_bit 16 n = n" "n \<le> 0xFFFFFFFF \<Longrightarrow> take_bit 32 n = n"
    by (simp_all add: take_bit_eq_self_unat word_le_nat_alt)
  then show ?thesis
    using ucast_byte_special [of n]
    by (simp add: ReadCompactSize_def compactsize_bytes_def ucast_ucast_64)
qed

interpretation compactsize: codec ReadCompactSize compactsize_bytes "\<lambda>_. True"
proof
  fix bs x r
  assume "ReadCompactSize bs = Inr (x, r)"
  then show "suffix r bs"
    by (auto simp: ReadCompactSize_def ReadFull_Inr result_iffs suffix_appendI split: if_splits)
qed (simp add: ReadCompactSize_bytes)


section \<open>Amount compression\<close>

function strip_zeros :: "64 word \<Rightarrow> nat \<Rightarrow> 64 word \<times> nat" where
  "strip_zeros n e = (if n mod 10 = 0 \<and> e < 9 then strip_zeros (n div 10) (Suc e) else (n, e))"
  by pat_completeness auto
termination
  by (relation "measure (\<lambda>(n, e). 9 - e)") auto

declare strip_zeros.simps [simp del]

definition CompressAmount :: "64 word \<Rightarrow> 64 word" where
  "CompressAmount n =
     (if n = 0 then 0
      else case strip_zeros n 0 of (m, e) \<Rightarrow>
        if e < 9 then 1 + (m div 10 * 9 + m mod 10 - 1) * 10 + of_nat e
        else 1 + (m - 1) * 10 + 9)"

fun mul10 :: "nat \<Rightarrow> 64 word \<Rightarrow> 64 word" where
  "mul10 0 n = n"
| "mul10 (Suc e) n = mul10 e (n * 10)"

definition DecompressAmount :: "64 word \<Rightarrow> 64 word" where
  "DecompressAmount x =
     (if x = 0 then 0
      else let x1 = x - 1; e = x1 mod 10; x2 = x1 div 10;
               n = (if e < 9 then x2 div 9 * 10 + (x2 mod 9 + 1) else x2 + 1)
           in mul10 (unat e) n)"

text \<open>
  The same two functions on natural numbers, where nothing wraps: the mathematical
  encoding. The words compute it modulo \<open>2 ^ 64\<close>, and it is a bijection.
\<close>

function strip_nat :: "nat \<Rightarrow> nat \<Rightarrow> nat \<times> nat" where
  "strip_nat n e = (if n mod 10 = 0 \<and> e < 9 then strip_nat (n div 10) (Suc e) else (n, e))"
  by pat_completeness auto
termination
  by (relation "measure (\<lambda>(n, e). 9 - e)") auto

declare strip_nat.simps [simp del]

definition compress_nat :: "nat \<Rightarrow> nat" where
  "compress_nat n =
     (if n = 0 then 0
      else case strip_nat n 0 of (m, e) \<Rightarrow>
        if e < 9 then 1 + (m div 10 * 9 + m mod 10 - 1) * 10 + e
        else 1 + (m - 1) * 10 + 9)"

definition decompress_nat :: "nat \<Rightarrow> nat" where
  "decompress_nat x =
     (if x = 0 then 0
      else let x1 = x - 1; e = x1 mod 10; x2 = x1 div 10;
               n = (if e < 9 then x2 div 9 * 10 + (x2 mod 9 + 1) else x2 + 1)
           in n * 10 ^ e)"

lemma strip_nat_spec:
  "0 < n \<Longrightarrow> e \<le> 9 \<Longrightarrow> strip_nat n e = (m, e') \<Longrightarrow>
   n = m * 10 ^ (e' - e) \<and> e \<le> e' \<and> e' \<le> 9 \<and> 0 < m \<and> (e' < 9 \<longrightarrow> m mod 10 \<noteq> 0)"
proof (induction n e rule: strip_nat.induct)
  case (1 n e)
  show ?case
  proof (cases "n mod 10 = 0 \<and> e < 9")
    case True
    with "1.prems" have s: "strip_nat (n div 10) (Suc e) = (m, e')"
      by (simp add: strip_nat.simps [of n e])
    have "0 < n div 10" "Suc e \<le> 9" using True "1.prems" by (auto simp: div_greater_zero_iff)
    from "1.IH" [OF True this s] have ih: "n div 10 = m * 10 ^ (e' - Suc e)" "Suc e \<le> e'" "e' \<le> 9" "0 < m"
      "e' < 9 \<longrightarrow> m mod 10 \<noteq> 0" by auto
    have "n = n div 10 * 10" using True by auto
    also have "\<dots> = m * 10 ^ Suc (e' - Suc e)" using ih(1) by simp
    finally show ?thesis using ih by (simp add: Suc_diff_Suc)
  next
    case False
    with "1.prems" show ?thesis by (auto simp: strip_nat.simps [of n e])
  qed
qed

lemma strip_nat_unique:
  "0 < m \<Longrightarrow> e + k \<le> 9 \<Longrightarrow> e + k < 9 \<longrightarrow> m mod 10 \<noteq> 0 \<Longrightarrow> strip_nat (m * 10 ^ k) e = (m, e + k)"
proof (induction k arbitrary: e)
  case 0
  then show ?case by (auto simp: strip_nat.simps [of m e])
next
  case (Suc k)
  have "m * 10 ^ Suc k = m * 10 ^ k * 10" by simp
  then have "(m * 10 ^ Suc k) mod 10 = 0" "(m * 10 ^ Suc k) div 10 = m * 10 ^ k"
    by (metis mod_mult_self2_is_0, metis nonzero_mult_div_cancel_right zero_neq_numeral)
  then have "strip_nat (m * 10 ^ Suc k) e = strip_nat (m * 10 ^ k) (Suc e)"
    using Suc.prems by (subst strip_nat.simps) (simp del: power_Suc)
  also have "\<dots> = (m, Suc e + k)"
    using Suc.prems by (intro Suc.IH) auto
  finally show ?case by simp
qed

lemma digit_split:
  "(r :: nat) < b \<Longrightarrow> (q * b + r) mod b = r" "(r :: nat) < b \<Longrightarrow> (q * b + r) div b = q"
  by auto

lemma decompress_compress_nat: "decompress_nat (compress_nat n) = n"
proof (cases "n = 0")
  case True
  then show ?thesis by (simp add: compress_nat_def decompress_nat_def)
next
  case False
  obtain m e where s: "strip_nat n 0 = (m, e)" by (cases "strip_nat n 0")
  have spec: "n = m * 10 ^ e" "e \<le> 9" "0 < m" "e < 9 \<longrightarrow> m mod 10 \<noteq> 0"
    using strip_nat_spec [OF _ _ s] False by auto
  show ?thesis
  proof (cases "e < 9")
    case True
    let ?q = "m div 10" and ?d = "m mod 10"
    have d: "0 < ?d" "?d \<le> 9" using spec(4) True by auto
    define a where "a = ?q * 9 + (?d - 1)"
    have c: "compress_nat n = Suc (a * 10 + e)"
      using False s True d by (simp add: compress_nat_def a_def)
    have "(a * 10 + e) mod 10 = e" "(a * 10 + e) div 10 = a"
      using True by (simp_all only: digit_split)
    moreover have "a div 9 = ?q" "a mod 9 = ?d - 1"
      using d unfolding a_def by (simp_all only: digit_split)
    ultimately have "decompress_nat (Suc (a * 10 + e)) = m * 10 ^ e"
      using True d by (simp add: decompress_nat_def Let_def)
    then show ?thesis unfolding c by (simp only: spec(1))
  next
    case nine: False
    then have "e = 9" using spec(2) by simp
    then have "compress_nat n = Suc ((m - 1) * 10 + 9)" using False s by (simp add: compress_nat_def)
    moreover have "((m - 1) * 10 + 9) mod 10 = 9" "((m - 1) * 10 + 9) div 10 = m - 1"
      by (simp_all only: digit_split)
    ultimately have "decompress_nat (compress_nat n) = m * 10 ^ 9"
      using spec(3) by (simp add: decompress_nat_def Let_def)
    then show ?thesis using spec(1) \<open>e = 9\<close> by simp
  qed
qed

lemma compress_decompress_nat: "compress_nat (decompress_nat x) = x"
proof (cases "x = 0")
  case True
  then show ?thesis by (simp add: compress_nat_def decompress_nat_def)
next
  case False
  define e q where "e = (x - 1) mod 10" and "q = (x - 1) div 10"
  have x: "x = Suc (q * 10 + e)" using False by (simp add: e_def q_def)
  have e: "e < 10" by (simp add: e_def)
  define m where "m = (if e < 9 then q div 9 * 10 + (q mod 9 + 1) else q + 1)"
  have dx: "decompress_nat x = m * 10 ^ e"
    using False by (simp add: decompress_nat_def Let_def e_def q_def m_def)
  have "q mod 9 + 1 < 10" using mod_less_divisor [of 9 q] by linarith
  then have m: "0 < m" "e < 9 \<longrightarrow> m mod 10 = q mod 9 + 1" "e < 9 \<longrightarrow> m div 10 = q div 9"
    by (simp_all add: m_def digit_split del: One_nat_def)
  have s: "strip_nat (m * 10 ^ e) 0 = (m, e)"
    using strip_nat_unique [of m 0 e] m e by auto
  show ?thesis
  proof (cases "e < 9")
    case True
    have "m div 10 * 9 + m mod 10 - 1 = q" using m True by simp
    then show ?thesis using True s m(1) unfolding dx by (simp add: compress_nat_def x)
  next
    case nine: False
    then have "e = 9" "m = Suc q" using e by (auto simp: m_def)
    then show ?thesis using s x unfolding dx by (simp add: compress_nat_def)
  qed
qed


lemma eq_of_nat_unat: "unat (w :: 64 word) = k \<Longrightarrow> w = of_nat k"
  by (drule sym) simp

lemma word_digits:
  "(w :: 64 word) div 10 = of_nat (unat w div 10)" "w mod 10 = of_nat (unat w mod 10)"
  "w div 9 = of_nat (unat w div 9)" "w mod 9 = of_nat (unat w mod 9)"
  by (rule eq_of_nat_unat, simp add: unat_div unat_mod)+

lemma strip_zeros_nat: "strip_zeros n e = (case strip_nat (unat n) e of (m, e') \<Rightarrow> (of_nat m, e'))"
proof (induction n e rule: strip_zeros.induct)
  case (1 n e)
  have z: "n mod 10 = 0 \<longleftrightarrow> unat n mod 10 = 0"
    using unat_0_iff [of "n mod 10"] by (simp add: unat_mod)
  show ?case
  proof (cases "n mod 10 = 0 \<and> e < 9")
    case True
    then show ?thesis
      using "1.IH" z by (simp add: strip_zeros.simps [of n e] strip_nat.simps [of "unat n" e] unat_div)
  next
    case False
    then have nz: "\<not> (unat n mod 10 = 0 \<and> e < 9)" unfolding z .
    show ?thesis
      unfolding strip_zeros.simps [of n e] strip_nat.simps [of "unat n" e]
        if_not_P [OF False] if_not_P [OF nz] by simp
  qed
qed

lemma CompressAmount_nat: "CompressAmount n = of_nat (compress_nat (unat n))"
proof (cases "n = 0")
  case True
  then show ?thesis by (simp add: CompressAmount_def compress_nat_def)
next
  case False
  obtain m e where s: "strip_nat (unat n) 0 = (m, e)" by (cases "strip_nat (unat n) 0")
  have spec: "unat n = m * 10 ^ e" "e \<le> 9" "0 < m" "e < 9 \<longrightarrow> m mod 10 \<noteq> 0"
    using strip_nat_spec [OF _ _ s] False by (auto simp: unat_gt_0)
  have "m \<le> unat n" using spec(1) by simp
  then have um: "unat (of_nat m :: 64 word) = m"
    using unat_less_64 [of n] by (simp add: unsigned_of_nat take_bit_nat_eq_self)
  have "1 \<le> m div 10 * 9 + m mod 10" if "e < 9" using spec(4) that by linarith
  then show ?thesis
    using False s spec(3) um
    by (simp add: CompressAmount_def compress_nat_def strip_zeros_nat word_digits of_nat_diff unat_0_iff)
qed

lemma mul10_power: "mul10 e n = n * 10 ^ e"
  by (induction e arbitrary: n) auto

lemma DecompressAmount_nat: "DecompressAmount x = of_nat (decompress_nat (unat x))"
proof (cases "x = 0")
  case True
  then show ?thesis by (simp add: DecompressAmount_def decompress_nat_def)
next
  case False
  have u1: "unat (x - 1) = unat x - 1" using False by (rule unat_pred)
  have e: "unat ((x - 1) mod 10) = (unat x - 1) mod 10" by (simp add: unat_mod u1)
  have q: "unat ((x - 1) div 10) = (unat x - 1) div 10" by (simp add: unat_div u1)
  have lt: "(x - 1) mod 10 < 9 \<longleftrightarrow> (unat x - 1) mod 10 < 9" by (simp add: word_less_nat_alt e)
  have n: "(if (x - 1) mod 10 < 9 then (x - 1) div 10 div 9 * 10 + ((x - 1) div 10 mod 9 + 1) else (x - 1) div 10 + 1)
     = of_nat (if (unat x - 1) mod 10 < 9 then (unat x - 1) div 10 div 9 * 10 + ((unat x - 1) div 10 mod 9 + 1)
        else (unat x - 1) div 10 + 1)"
    unfolding lt word_digits(3,4) q by (simp add: word_digits(1) u1)
  show ?thesis
    using False unfolding DecompressAmount_def decompress_nat_def Let_def e mul10_power n
    by (simp add: unat_0_iff)
qed

lemma compress_nat_less: "n < 2 ^ 60 \<Longrightarrow> compress_nat n < 2 ^ 64"
proof (cases "n = 0")
  case True
  then show ?thesis by (simp add: compress_nat_def)
next
  case False
  assume n: "n < 2 ^ 60"
  obtain m e where s: "strip_nat n 0 = (m, e)" by (cases "strip_nat n 0")
  have spec: "n = m * 10 ^ e" "e \<le> 9" using strip_nat_spec [OF _ _ s] False by auto
  have "m \<le> n" using spec(1) by simp
  moreover have "m div 10 * 9 + m mod 10 \<le> m"
    using div_mult_mod_eq [of m 10] by linarith
  ultimately have "(m div 10 * 9 + m mod 10 - 1) * 10 \<le> n * 10" "(m - 1) * 10 \<le> n * 10" by auto
  then show ?thesis using False s n spec(2) by (simp add: compress_nat_def)
qed

lemma Decompress_Compress: "compress_nat (unat n) < 2 ^ 64 \<Longrightarrow> DecompressAmount (CompressAmount n) = n"
  by (simp add: CompressAmount_nat DecompressAmount_nat unsigned_of_nat take_bit_nat_eq_self
      decompress_compress_nat)

lemma Compress_Decompress: "decompress_nat (unat x) < 2 ^ 64 \<Longrightarrow> CompressAmount (DecompressAmount x) = x"
  by (simp add: CompressAmount_nat DecompressAmount_nat unsigned_of_nat take_bit_nat_eq_self
      compress_decompress_nat)

section \<open>Properties\<close>

text \<open>
  Every 64-bit number that \<open>WriteVarInt\<close> writes, \<open>ReadVarInt\<close> reads back, with the rest of
  the stream left in place: no number is refused and the encoding needs no terminator.
\<close>

theorem varint_roundtrip:
  "bindE (run_buffer (WriteVarInt n)) (\<lambda>bs. ReadVarInt (bs @ r)) = Inr (n, r)"
  by (simp add: emits_run_buffer [OF emits_WriteVarInt] ReadVarInt_bytes)

text \<open>
  \<open>ReadCompactSize\<close> inverts \<open>WriteCompactSize\<close> on every 64-bit number, whatever follows in
  the stream.
\<close>

theorem compactsize_roundtrip:
  "bindE (run_buffer (WriteCompactSize n)) (\<lambda>bs. ReadCompactSize (bs @ r)) = Inr (n, r)"
  by (simp add: emits_run_buffer [OF emits_WriteCompactSize] ReadCompactSize_bytes)

text \<open>
  Amounts: decompression inverts compression for every amount below \<open>2 ^ 60\<close>, five hundred
  times the money supply in satoshis; beyond, the multiplication by ten wraps around.
\<close>

theorem amount_roundtrip:
  "unat v < 2 ^ 60 \<Longrightarrow> DecompressAmount (CompressAmount v) = v"
  by (rule Decompress_Compress) (rule compress_nat_less)

theorem amount_roundtrip_witness: "DecompressAmount (CompressAmount 5000000000) = 5000000000"
  using amount_roundtrip [of 5000000000] by simp

end
