(* ===== verification/Revfile_Script.thy ===== *)
theory Revfile_Script
  imports Revfile_Numbers
begin

text \<open>
  \<open>internal/revfile/script.go\<close>: Bitcoin Core's script compression. A script of one of six
  standard forms is written as its form number and its payload, any other script as its
  length plus 6 and its bytes. Shown: the bytes the writer emits, that the reader returns
  every script but the uncompressed P2PK form, what it returns for that one, and that
  writing is stable under reading back. Shown too: a script of 33 bytes that happens to
  start with 4 or 5 is taken for the reader's internal form.
\<close>

definition opDUP :: byte where "opDUP = 0x76"
definition opHASH160 :: byte where "opHASH160 = 0xa9"
definition opEQUALVERIFY :: byte where "opEQUALVERIFY = 0x88"
definition opCHECKSIG :: byte where "opCHECKSIG = 0xac"
definition opEQUAL :: byte where "opEQUAL = 0x87"

definition nSpecialScripts :: "64 word" where "nSpecialScripts = 6"

text \<open>The five conditions of \<open>WriteCompressedScript\<close>, in its order.\<close>

definition is_p2pkh :: "bytes \<Rightarrow> bool" where
  "is_p2pkh script \<longleftrightarrow> length script = 25 \<and> script ! 0 = opDUP \<and> script ! 1 = opHASH160
     \<and> script ! 2 = 0x14 \<and> script ! 23 = opEQUALVERIFY \<and> script ! 24 = opCHECKSIG"

definition is_p2sh :: "bytes \<Rightarrow> bool" where
  "is_p2sh script \<longleftrightarrow> length script = 23 \<and> script ! 0 = opHASH160 \<and> script ! 1 = 0x14 \<and> script ! 22 = opEQUAL"

definition is_p2pk_compressed :: "bytes \<Rightarrow> bool" where
  "is_p2pk_compressed script \<longleftrightarrow> length script = 35 \<and> script ! 0 = 0x21
     \<and> (script ! 1 = 0x02 \<or> script ! 1 = 0x03) \<and> script ! 34 = opCHECKSIG"

definition is_p2pk_uncompressed :: "bytes \<Rightarrow> bool" where
  "is_p2pk_uncompressed script \<longleftrightarrow>
     length script = 67 \<and> script ! 0 = 0x41 \<and> script ! 1 = 0x04 \<and> script ! 66 = opCHECKSIG"

definition is_p2pk_internal :: "bytes \<Rightarrow> bool" where
  "is_p2pk_internal script \<longleftrightarrow> length script = 33 \<and> (script ! 0 = 0x04 \<or> script ! 0 = 0x05)"

definition WriteCompressedScript :: "bytes \<Rightarrow> write_op" where
  "WriteCompressedScript script =
     (if is_p2pkh script then w_write (0x00 # slice 3 20 script)
      else if is_p2sh script then w_write (0x01 # slice 2 20 script)
      else if is_p2pk_compressed script then w_write (script ! 1 # slice 2 32 script)
      else if is_p2pk_uncompressed script
      then w_write ((0x04 + (script ! 65 AND 1)) # slice 2 32 script)
      else if is_p2pk_internal script then w_write (take 33 script)
      else w_seq (w_wrap ''revfile: write compressed script size''
                    (WriteVarInt (of_nat (length script) + nSpecialScripts)))
                 (w_write script))"

definition ReadCompressedScript :: "bytes decoder_fun" where
  "ReadCompressedScript r =
     bindE (wrapE ''revfile: read compressed script nSize'' (ReadVarInt r)) (\<lambda>(nSize, r1).
       if nSize = 0x00 then
         bindE (wrapE ''revfile: read P2PKH hash160'' (ReadFull 20 r1)) (\<lambda>(hash160, r2).
           Inr ([opDUP, opHASH160, 0x14] @ hash160 @ [opEQUALVERIFY, opCHECKSIG], r2))
       else if nSize = 0x01 then
         bindE (wrapE ''revfile: read P2SH hash160'' (ReadFull 20 r1)) (\<lambda>(hash160, r2).
           Inr ([opHASH160, 0x14] @ hash160 @ [opEQUAL], r2))
       else if nSize = 0x02 \<or> nSize = 0x03 then
         bindE (wrapE ''revfile: read P2PK compressed x-coord'' (ReadFull 32 r1)) (\<lambda>(xCoord, r2).
           Inr ([0x21, ucast nSize] @ xCoord @ [opCHECKSIG], r2))
       else if nSize = 0x04 \<or> nSize = 0x05 then
         bindE (wrapE ''revfile: read P2PK uncompressed x-coord'' (ReadFull 32 r1)) (\<lambda>(xCoord, r2).
           Inr (ucast nSize # xCoord, r2))
       else
         guardE (\<not> nSize < nSpecialScripts) (ErrNew ''revfile: invalid compressed script nSize'')
           (let scriptLen = nSize - nSpecialScripts in
            make_slice 1 (unat scriptLen)
              (wrapE ''revfile: read raw script'' (ReadFull (unat scriptLen) r1))))"

section \<open>What is written\<close>

definition script_bytes :: "bytes \<Rightarrow> bytes" where
  "script_bytes s =
     (if is_p2pkh s then 0 # slice 3 20 s
      else if is_p2sh s then 1 # slice 2 20 s
      else if is_p2pk_compressed s then s ! 1 # slice 2 32 s
      else if is_p2pk_uncompressed s then (4 + (s ! 65 AND 1)) # slice 2 32 s
      else if is_p2pk_internal s then s
      else varint_bytes (of_nat (length s) + 6) @ s)"

lemma emits_WriteCompressedScript [intro, simp]: "emits (WriteCompressedScript s) (script_bytes s)"
proof -
  have "emits (w_seq (w_wrap m (WriteVarInt n)) (w_write s)) (varint_bytes n @ s)" for m n
    by (intro emits_seq emits_wrap) auto
  moreover have "is_p2pk_internal s \<Longrightarrow> take 33 s = s" by (simp add: is_p2pk_internal_def)
  ultimately show ?thesis
    by (simp add: WriteCompressedScript_def script_bytes_def nSpecialScripts_def)
qed

section \<open>Reading back\<close>

text \<open>The forms in terms of their parts: a list of known length from its elements and slices.\<close>

lemma p2pkh_parts:
  assumes "is_p2pkh s"
  shows "s = [opDUP, opHASH160, 0x14] @ slice 3 20 s @ [opEQUALVERIFY, opCHECKSIG]"
proof -
  have "s = s ! 0 # drop 1 s" "drop 1 s = s ! 1 # drop 2 s" "drop 2 s = s ! 2 # drop 3 s"
    "drop 3 s = slice 3 20 s @ drop 23 s" "drop 23 s = [s ! 23, s ! 24]"
    using assms drop_nth [of 0 s] drop_nth [of 1 s] drop_nth [of 2 s] drop_slice [of 3 23 s]
      drop_nth [of 23 s] drop_nth [of 24 s] by (simp_all add: is_p2pkh_def eval_nat_numeral)
  then show ?thesis using assms unfolding is_p2pkh_def by (metis append_Cons append_Nil)
qed

lemma p2sh_parts:
  assumes "is_p2sh s"
  shows "s = [opHASH160, 0x14] @ slice 2 20 s @ [opEQUAL]"
proof -
  have "s = s ! 0 # drop 1 s" "drop 1 s = s ! 1 # drop 2 s"
    "drop 2 s = slice 2 20 s @ drop 22 s" "drop 22 s = [s ! 22]"
    using assms drop_nth [of 0 s] drop_nth [of 1 s] drop_slice [of 2 22 s]
      drop_nth [of 22 s] by (simp_all add: is_p2sh_def numeral_2_eq_2)
  then show ?thesis using assms unfolding is_p2sh_def by (metis append_Cons append_Nil)
qed

lemma p2pk_parts:
  assumes "is_p2pk_compressed s"
  shows "s = [0x21, s ! 1] @ slice 2 32 s @ [opCHECKSIG]"
proof -
  have "s = s ! 0 # drop 1 s" "drop 1 s = s ! 1 # drop 2 s"
    "drop 2 s = slice 2 32 s @ drop 34 s" "drop 34 s = [s ! 34]"
    using assms drop_nth [of 0 s] drop_nth [of 1 s] drop_slice [of 2 34 s]
      drop_nth [of 34 s] by (simp_all add: is_p2pk_compressed_def numeral_2_eq_2)
  then show ?thesis using assms unfolding is_p2pk_compressed_def by (metis append_Cons append_Nil)
qed

lemma ReadVarInt_small_byte:
  "b < 0x80 \<Longrightarrow> ReadVarInt (b # r) = Inr (ucast b, r)"
proof -
  assume "b < 0x80"
  then have b: "unat b < 128" by (simp add: word_less_nat_alt)
  have "ReadVarInt (of_nat (unat b) # r) = Inr (of_nat (unat b), r)"
    using read_varint_last_byte [OF b, of 0 r] unfolding ReadVarInt_def by simp
  then show ?thesis by simp
qed

lemma unat_script_len:
  "length s \<le> 2 ^ 48 \<Longrightarrow> unat (of_nat (length s) + 6 :: 64 word) = length s + 6"
  by (simp add: unat_word_ariths unsigned_of_nat take_bit_nat_eq_self)


text \<open>The reader on each form number.\<close>

lemma read_form:
  "length h = 20 \<Longrightarrow> ReadCompressedScript (0 # h @ r)
     = Inr ([opDUP, opHASH160, 0x14] @ h @ [opEQUALVERIFY, opCHECKSIG], r)"
  "length h = 20 \<Longrightarrow> ReadCompressedScript (1 # h @ r) = Inr ([opHASH160, 0x14] @ h @ [opEQUAL], r)"
  "length x = 32 \<Longrightarrow> p = 2 \<or> p = 3 \<Longrightarrow> ReadCompressedScript (p # x @ r) = Inr ([0x21, p] @ x @ [opCHECKSIG], r)"
  "length x = 32 \<Longrightarrow> q = 4 \<or> q = 5 \<Longrightarrow> ReadCompressedScript (q # x @ r) = Inr (q # x, r)"
  by (auto simp: ReadCompressedScript_def ReadVarInt_small_byte)

lemma read_raw:
  assumes "length s \<le> 2 ^ 48"
  shows "ReadCompressedScript (varint_bytes (of_nat (length s) + 6) @ s @ r) = Inr (s, r)"
proof -
  let ?n = "of_nat (length s) + 6 :: 64 word"
  have u: "unat ?n = length s + 6" using assms by (rule unat_script_len)
  then have "?n \<noteq> k" if "unat k < 6" for k using that by auto
  then have ne: "?n \<noteq> 0" "?n \<noteq> 1" "?n \<noteq> 2" "?n \<noteq> 3" "?n \<noteq> 4" "?n \<noteq> 5" by simp_all
  have "\<not> ?n < 6" using u by (simp add: word_less_nat_alt)
  moreover have "unat (?n - 6) = length s"
    using assms by (simp add: unsigned_of_nat take_bit_nat_eq_self)
  ultimately show ?thesis
    using assms ne unfolding ReadCompressedScript_def
    by (simp add: ReadVarInt_bytes nSpecialScripts_def Let_def del: add_diff_cancel_right')
qed

text \<open>
  What reading back a written script gives: the script itself, but for the uncompressed
  P2PK form, of which only the x-coordinate and the parity of y are kept.
\<close>

definition script_readback :: "bytes \<Rightarrow> bytes" where
  "script_readback s = (if is_p2pk_uncompressed s then (4 + (s ! 65 AND 1)) # slice 2 32 s else s)"

lemma parity_form: "(4 + (b AND 1 :: byte)) = 4 \<or> (4 + (b AND 1)) = 5"
  by (cases "bit b 0") (auto simp: and_one_eq odd_iff_mod_2_eq_one bit_0)

lemma is_form_excl:
  "is_p2pk_uncompressed s \<Longrightarrow> \<not> is_p2pkh s \<and> \<not> is_p2sh s \<and> \<not> is_p2pk_compressed s"
  by (auto simp: is_p2pk_uncompressed_def is_p2pkh_def is_p2sh_def is_p2pk_compressed_def)

lemma ReadCompressedScript_bytes:
  assumes "length s \<le> 2 ^ 48"
  shows "ReadCompressedScript (script_bytes s @ r) = Inr (script_readback s, r)"
proof -
  consider (pkh) "is_p2pkh s" | (sh) "\<not> is_p2pkh s" "is_p2sh s"
    | (pk) "\<not> is_p2pkh s" "\<not> is_p2sh s" "is_p2pk_compressed s"
    | (unc) "is_p2pk_uncompressed s"
    | (int) "\<not> is_p2pkh s" "\<not> is_p2sh s" "\<not> is_p2pk_compressed s" "\<not> is_p2pk_uncompressed s" "is_p2pk_internal s"
    | (raw) "\<not> is_p2pkh s" "\<not> is_p2sh s" "\<not> is_p2pk_compressed s" "\<not> is_p2pk_uncompressed s" "\<not> is_p2pk_internal s"
    by blast
  then show ?thesis
  proof cases
    case pkh
    then have "length s = 25" "\<not> is_p2pk_uncompressed s" by (auto simp: is_p2pkh_def is_p2pk_uncompressed_def)
    then show ?thesis
      using pkh read_form(1) [of "slice 3 20 s" r] p2pkh_parts [OF pkh] by (simp add: script_bytes_def script_readback_def)
  next
    case sh
    then have "length s = 23" "\<not> is_p2pk_uncompressed s" by (auto simp: is_p2sh_def is_p2pk_uncompressed_def)
    then show ?thesis
      using sh read_form(2) [of "slice 2 20 s" r] p2sh_parts [OF sh(2)] by (simp add: script_bytes_def script_readback_def)
  next
    case pk
    then have "length s = 35" "\<not> is_p2pk_uncompressed s" "s ! 1 = 2 \<or> s ! 1 = 3"
      by (auto simp: is_p2pk_compressed_def is_p2pk_uncompressed_def)
    then show ?thesis
      using pk read_form(3) [of "slice 2 32 s" "s ! 1" r] p2pk_parts [OF pk(3)]
      by (simp add: script_bytes_def script_readback_def)
  next
    case unc
    then have "length s = 67" by (simp add: is_p2pk_uncompressed_def)
    then show ?thesis
      using unc is_form_excl [OF unc] read_form(4) [of "slice 2 32 s" "4 + (s ! 65 AND 1)" r] parity_form [of "s ! 65"]
      by (simp add: script_bytes_def script_readback_def)
  next
    case int
    then have "s = s ! 0 # drop 1 s" "length (drop 1 s) = 32" "s ! 0 = 4 \<or> s ! 0 = 5"
      using drop_nth [of 0 s] by (auto simp: is_p2pk_internal_def)
    then show ?thesis
      using int read_form(4) [of "drop 1 s" "s ! 0" r]
      by (metis append_Cons script_bytes_def script_readback_def)
  next
    case raw
    then show ?thesis
      using read_raw [OF assms, of r] by (simp add: script_bytes_def script_readback_def)
  qed
qed

definition valid_script :: "bytes \<Rightarrow> bool" where
  "valid_script s \<longleftrightarrow> length s \<le> 2 ^ 48 \<and> \<not> is_p2pk_uncompressed s"

interpretation script: codec ReadCompressedScript script_bytes valid_script
proof
  fix bs x r
  assume "ReadCompressedScript bs = Inr (x, r)"
  then obtain n r1 where "ReadVarInt bs = Inr (n, r1)" "suffix r r1"
    by (auto simp: ReadCompressedScript_def ReadFull_Inr Let_def result_iffs suffix_appendI split: if_splits)
  then show "suffix r bs" using varint.dec_suffix suffix_order.trans by blast
next
  fix x r
  assume "valid_script x"
  then show "ReadCompressedScript (script_bytes x @ r) = Inr (x, r)"
    using ReadCompressedScript_bytes [of x r] by (simp add: valid_script_def script_readback_def)
qed

lemma script_readback_stable: "script_bytes (script_readback s) = script_bytes s"
proof (cases "is_p2pk_uncompressed s")
  case True
  let ?t = "(4 + (s ! 65 AND 1)) # slice 2 32 s"
  have len: "length ?t = 33" using True by (simp add: is_p2pk_uncompressed_def)
  then have "is_p2pk_internal ?t" "\<not> is_p2pk_uncompressed ?t" "\<not> is_p2pkh ?t" "\<not> is_p2sh ?t" "\<not> is_p2pk_compressed ?t"
    using parity_form [of "s ! 65"]
    by (simp_all add: is_p2pk_internal_def is_p2pk_uncompressed_def is_p2pkh_def is_p2sh_def is_p2pk_compressed_def)
  then show ?thesis
    using True is_form_excl [OF True] by (simp add: script_readback_def script_bytes_def)
qed (simp add: script_readback_def)

section \<open>Properties\<close>

text \<open>
  A script of any form that is written comes back as itself, except that a public key in
  uncompressed form comes back in the internal form; written again, that gives the same
  bytes, so parsing and serialising a rev file does not change it.
\<close>

theorem script_roundtrip:
  assumes "length s \<le> 2 ^ 48"
  shows "bindE (run_buffer (WriteCompressedScript s)) (\<lambda>bs. ReadCompressedScript (bs @ r))
           = Inr (script_readback s, r)
     \<and> run_buffer (WriteCompressedScript (script_readback s)) = run_buffer (WriteCompressedScript s)"
  using ReadCompressedScript_bytes [OF assms, of r]
  by (simp add: emits_run_buffer [OF emits_WriteCompressedScript] script_readback_stable)

theorem script_roundtrip_witness:
  "bindE (run_buffer (WriteCompressedScript [0x6a, 1, 2])) (\<lambda>bs. ReadCompressedScript (bs @ [7]))
     = Inr (script_readback [0x6a, 1, 2], [7])"
  using script_roundtrip [of "[0x6a, 1, 2]" "[7]"] by simp

text \<open>
  The internal form is ambiguous: a raw script of 33 bytes that starts with 4 is read as
  itself from its own encoding (size 39), but is written without the size, so these coins are
  not serialised as they were parsed.
\<close>

theorem script_raw_33_rewritten:
  assumes "length x = 32"
  shows "ReadCompressedScript (varint_bytes 39 @ 4 # x) = Inr (4 # x, [])
     \<and> run_buffer (WriteCompressedScript (4 # x)) = Inr (4 # x)"
proof -
  have "script_bytes (4 # x) = 4 # x"
    using assms by (simp add: script_bytes_def is_p2pkh_def is_p2sh_def is_p2pk_compressed_def
        is_p2pk_uncompressed_def is_p2pk_internal_def)
  moreover have "ReadCompressedScript (varint_bytes (of_nat (length (4 # x)) + 6) @ (4 # x) @ []) = Inr (4 # x, [])"
    using assms by (intro read_raw) simp
  ultimately show ?thesis
    using assms by (simp add: emits_run_buffer [OF emits_WriteCompressedScript])
qed

theorem script_raw_33_rewritten_witness:
  "ReadCompressedScript (varint_bytes 39 @ 4 # replicate 32 0) = Inr (4 # replicate 32 0, [])"
  using script_raw_33_rewritten [of "replicate 32 0"] by simp

end
