(* ===== verification/Revfile_Coin.thy ===== *)
theory Revfile_Coin
  imports Revfile_Script
begin

text \<open>
  \<open>internal/revfile/types.go\<close> and \<open>coin.go\<close>: spent coins, the undo data of a transaction and
  of a block, and their serialisation. \<open>int64\<close> and \<open>uint32\<close> fields are words. Shown: the
  bytes each serialiser emits on any writer, and that each deserialiser inverts it.
\<close>

record TxOut =
  Value :: "64 word"
  ScriptPubKey :: bytes

record Coin =
  Height :: "32 word"
  CoinBase :: bool
  Out :: TxOut

record TxUndo =
  Prevouts :: "Coin list"

record BlockUndo =
  TxUndos :: "TxUndo list"

definition SerializeCoin :: "Coin \<Rightarrow> write_op" where
  "SerializeCoin coin =
     (let packed = ucast (Height coin) * 2;
          packed' = (if CoinBase coin then packed OR 1 else packed)
      in w_seq (w_wrap ''coin: write height'' (WriteVarInt packed'))
          (w_seq (if Height coin > 0 then w_wrap ''coin: write dummy'' (w_write [0x00]) else w_skip)
            (w_seq (w_wrap ''coin: write amount'' (WriteVarInt (CompressAmount (Value (Out coin)))))
              (w_wrap ''coin: write script'' (WriteCompressedScript (ScriptPubKey (Out coin)))))))"

definition DeserializeCoin :: "Coin decoder_fun" where
  "DeserializeCoin r =
     bindE (wrapE ''coin: read height'' (ReadVarInt r)) (\<lambda>(packed, r1).
       let height = ucast (drop_bit 1 packed) :: 32 word; coinbase = (packed AND 1 = 1) in
       bindE (if height > 0 then
                bindE (wrapE ''coin: read dummy'' (ReadFull 1 r1)) (\<lambda>(buf, r2).
                  guardE (hd buf = 0x00) (ErrNew ''coin: expected dummy 0x00'') (Inr r2))
              else Inr r1) (\<lambda>r2.
       bindE (wrapE ''coin: read amount'' (ReadVarInt r2)) (\<lambda>(compressed, r3).
       bindE (wrapE ''coin: read script'' (ReadCompressedScript r3)) (\<lambda>(script, r4).
         Inr (\<lparr>Height = height, CoinBase = coinbase,
               Out = \<lparr>Value = DecompressAmount compressed, ScriptPubKey = script\<rparr>\<rparr>, r4)))))"

definition SerializeTxUndo :: "TxUndo \<Rightarrow> write_op" where
  "SerializeTxUndo txundo =
     w_seq (w_wrap ''txundo: write count'' (WriteCompactSize (of_nat (length (Prevouts txundo)))))
           (w_each (\<lambda>coin. w_wrap ''txundo: serialize coin'' (SerializeCoin coin)) (Prevouts txundo))"

text \<open>A \<open>Coin\<close> takes 40 bytes, a \<open>TxUndo\<close> (one slice header) 24.\<close>

definition DeserializeTxUndo :: "TxUndo decoder_fun" where
  "DeserializeTxUndo r =
     bindE (wrapE ''txundo: read count'' (ReadCompactSize r)) (\<lambda>(n, r1).
       make_slice 40 (unat n)
         (bindE (read_loop (unat n) (\<lambda>r. wrapE ''txundo: deserialize coin'' (DeserializeCoin r)) r1)
            (\<lambda>(coins, r2). Inr (\<lparr>Prevouts = coins\<rparr>, r2))))"

definition SerializeBlockUndo :: "BlockUndo \<Rightarrow> write_op" where
  "SerializeBlockUndo bu =
     w_seq (w_wrap ''blockundo: write count'' (WriteCompactSize (of_nat (length (TxUndos bu)))))
           (w_each (\<lambda>txundo. w_wrap ''blockundo: serialize txundo'' (SerializeTxUndo txundo)) (TxUndos bu))"

definition DeserializeBlockUndo :: "BlockUndo decoder_fun" where
  "DeserializeBlockUndo r =
     bindE (wrapE ''blockundo: read count'' (ReadCompactSize r)) (\<lambda>(n, r1).
       make_slice 24 (unat n)
         (bindE (read_loop (unat n) (\<lambda>r. wrapE ''blockundo: deserialize txundo'' (DeserializeTxUndo r)) r1)
            (\<lambda>(txundos, r2). Inr (\<lparr>TxUndos = txundos\<rparr>, r2))))"

section \<open>The bytes emitted\<close>

definition coin_packed :: "Coin \<Rightarrow> 64 word" where
  "coin_packed c = (if CoinBase c then ucast (Height c) * 2 OR 1 else ucast (Height c) * 2)"

definition coin_bytes :: "Coin \<Rightarrow> bytes" where
  "coin_bytes c =
     varint_bytes (coin_packed c) @ (if Height c > 0 then [0] else [])
       @ varint_bytes (CompressAmount (Value (Out c))) @ script_bytes (ScriptPubKey (Out c))"

definition txundo_bytes :: "TxUndo \<Rightarrow> bytes" where
  "txundo_bytes t = compactsize_bytes (of_nat (length (Prevouts t))) @ concat (map coin_bytes (Prevouts t))"

definition blockundo_bytes :: "BlockUndo \<Rightarrow> bytes" where
  "blockundo_bytes b = compactsize_bytes (of_nat (length (TxUndos b))) @ concat (map txundo_bytes (TxUndos b))"

lemma emits_SerializeCoin [intro, simp]: "emits (SerializeCoin c) (coin_bytes c)"
proof -
  have "emits (if Height c > 0 then w_wrap ''coin: write dummy'' (w_write [0x00]) else w_skip)
      (if Height c > 0 then [0] else [])" by simp
  then show ?thesis
    unfolding SerializeCoin_def coin_bytes_def coin_packed_def Let_def
    by (intro emits_seq emits_wrap emits_WriteVarInt emits_WriteCompressedScript)
qed

lemma emits_SerializeTxUndo [intro, simp]: "emits (SerializeTxUndo t) (txundo_bytes t)"
  unfolding SerializeTxUndo_def txundo_bytes_def
  by (intro emits_seq emits_wrap emits_WriteCompactSize emits_each emits_SerializeCoin)

lemma emits_SerializeBlockUndo [intro, simp]: "emits (SerializeBlockUndo b) (blockundo_bytes b)"
  unfolding SerializeBlockUndo_def blockundo_bytes_def
  by (intro emits_seq emits_wrap emits_WriteCompactSize emits_each emits_SerializeTxUndo)

section \<open>Deserialising inverts serialising\<close>

definition valid_amount :: "64 word \<Rightarrow> bool" where
  "valid_amount v \<longleftrightarrow> compress_nat (unat v) < 2 ^ 64"

definition valid_coin :: "Coin \<Rightarrow> bool" where
  "valid_coin c \<longleftrightarrow> valid_amount (Value (Out c)) \<and> valid_script (ScriptPubKey (Out c))"

definition valid_txundo :: "TxUndo \<Rightarrow> bool" where
  "valid_txundo t \<longleftrightarrow> 40 * length (Prevouts t) \<le> 2 ^ 48 \<and> list_all valid_coin (Prevouts t)"

definition valid_blockundo :: "BlockUndo \<Rightarrow> bool" where
  "valid_blockundo b \<longleftrightarrow> 24 * length (TxUndos b) \<le> 2 ^ 48 \<and> list_all valid_txundo (TxUndos b)"

lemma unpack_coin:
  "ucast (drop_bit (Suc 0) (coin_packed c)) = Height c" "coin_packed c AND 1 = 1 \<longleftrightarrow> CoinBase c"
proof -
  have p: "(ucast (Height c) * 2 :: 64 word) = 2 * ucast (Height c)" by simp
  show "ucast (drop_bit (Suc 0) (coin_packed c)) = Height c"
    unfolding coin_packed_def p
    by (rule bit_word_eqI) (auto simp: bit_simps bit_double_iff)
  have "odd (coin_packed c) \<longleftrightarrow> CoinBase c"
    unfolding coin_packed_def p by (auto simp: even_or_iff)
  then show "coin_packed c AND 1 = 1 \<longleftrightarrow> CoinBase c"
    by (auto simp: and_one_eq odd_iff_mod_2_eq_one)
qed

lemma DeserializeCoin_bytes:
  assumes "valid_amount (Value (Out c))" "length (ScriptPubKey (Out c)) \<le> 2 ^ 48"
  shows "DeserializeCoin (coin_bytes c @ r) =
    Inr (c\<lparr>Out := (Out c)\<lparr>ScriptPubKey := script_readback (ScriptPubKey (Out c))\<rparr>\<rparr>, r)"
  using assms
  by (cases "Height c > 0"; cases c; cases "Out c")
    (simp_all add: DeserializeCoin_def coin_bytes_def ReadVarInt_bytes unpack_coin Let_def
      ReadCompressedScript_bytes valid_amount_def Decompress_Compress)

interpretation ReadFull: decoder "ReadFull n"
  by unfold_locales (auto simp: ReadFull_Inr suffix_appendI)

lemma DeserializeCoin_suffix: "DeserializeCoin bs = Inr (x, r) \<Longrightarrow> suffix r bs"
  unfolding DeserializeCoin_def Let_def
  by (auto simp: result_iffs split: if_splits
      dest!: varint.dec_suffix script.dec_suffix ReadFull.dec_suffix)

interpretation coin: codec DeserializeCoin coin_bytes valid_coin
proof
  fix x r
  assume "valid_coin x"
  then show "DeserializeCoin (coin_bytes x @ r) = Inr (x, r)"
    using DeserializeCoin_bytes [of x r] by (simp add: valid_coin_def valid_script_def script_readback_def)
qed (rule DeserializeCoin_suffix)

text \<open>The loops wrap the error of an element; that changes no successful run.\<close>

lemma codec_wrapE: "codec dec enc valid \<Longrightarrow> codec (\<lambda>r. wrapE s (dec r)) enc valid"
  by (auto simp: codec_def codec_axioms_def decoder_def result_iffs)

interpretation coin_w: codec "\<lambda>r. wrapE ''txundo: deserialize coin'' (DeserializeCoin r)" coin_bytes valid_coin
  by (rule codec_wrapE) unfold_locales

lemma unat_count: "n \<le> 2 ^ 48 \<Longrightarrow> unat (of_nat n :: 64 word) = n"
  by (simp add: unsigned_of_nat take_bit_nat_eq_self)

interpretation txundo: codec DeserializeTxUndo txundo_bytes valid_txundo
proof
  fix x r
  assume "valid_txundo x"
  then show "DeserializeTxUndo (txundo_bytes x @ r) = Inr (x, r)"
    using coin_w.read_loop_enc [of "Prevouts x" r]
    by (simp add: DeserializeTxUndo_def txundo_bytes_def ReadCompactSize_bytes valid_txundo_def unat_count)
next
  fix bs x r
  assume "DeserializeTxUndo bs = Inr (x, r)"
  then show "suffix r bs"
    by (auto simp: DeserializeTxUndo_def result_iffs dest!: coin_w.read_loop_suffix compactsize.dec_suffix)
qed

interpretation txundo_w: codec "\<lambda>r. wrapE ''blockundo: deserialize txundo'' (DeserializeTxUndo r)" txundo_bytes valid_txundo
  by (rule codec_wrapE) unfold_locales

interpretation blockundo: codec DeserializeBlockUndo blockundo_bytes valid_blockundo
proof
  fix x r
  assume "valid_blockundo x"
  then show "DeserializeBlockUndo (blockundo_bytes x @ r) = Inr (x, r)"
    using txundo_w.read_loop_enc [of "TxUndos x" r]
    by (simp add: DeserializeBlockUndo_def blockundo_bytes_def ReadCompactSize_bytes valid_blockundo_def unat_count)
next
  fix bs x r
  assume "DeserializeBlockUndo bs = Inr (x, r)"
  then show "suffix r bs"
    by (auto simp: DeserializeBlockUndo_def result_iffs dest!: txundo_w.read_loop_suffix compactsize.dec_suffix)
qed

end
