(* ===== verification/Revfile_Record.thy ===== *)
theory Revfile_Record
  imports Revfile_Coin Sha256
begin

text \<open>
  \<open>internal/revfile/record.go\<close>: the records of a rev file (magic, size, undo data, checksum),
  one at a time and to the end of the stream. Shown: what \<open>SerializeRecord\<close> emits, that
  \<open>ParseRecord\<close> inverts it with a checksum that verifies for the same previous block and
  that checksum only, and what \<open>ParseAllRecords\<close> makes of whole, truncated and corrupt
  streams.
\<close>

definition StorageHeaderSize :: nat where "StorageHeaderSize = 8"
definition ChecksumSize :: nat where "ChecksumSize = 32"

definition MainnetMagic :: bytes where
  "MainnetMagic = [0xf9, 0xbe, 0xb4, 0xd9]"

record Record =
  Magic :: bytes
  BlockUndo :: BlockUndo
  Checksum :: bytes
  RawUndo :: bytes

definition sha256d :: "bytes \<Rightarrow> bytes" where
  "sha256d data = (let first = Sum256 data in Sum256 first)"

definition ParseRecord :: "Record decoder_fun" where
  "ParseRecord r =
     bindE (wrapE ''record: read magic'' (ReadFull 4 r)) (\<lambda>(magic, r1).
     guardE (magic = MainnetMagic) (ErrNew ''record: invalid magic'')
     (bindE (wrapE ''record: read size'' (ReadFull 4 r1)) (\<lambda>(sizeBuf, r2).
      let size = unat (Uint32 sizeBuf) in
      bindE (wrapE ''record: read undo'' (ReadFull size r2)) (\<lambda>(rawUndo, r3).
      bindE (wrapE ''record: read checksum'' (ReadFull 32 r3)) (\<lambda>(checksum, r4).
      bindE (wrapE ''record: deserialize'' (DeserializeBlockUndo rawUndo)) (\<lambda>(bu, _).
        Inr (\<lparr>Magic = MainnetMagic, BlockUndo = bu, Checksum = checksum, RawUndo = rawUndo\<rparr>, r4)))))))"

lemma ParseRecord_shorter:
  "ParseRecord r = Inr (rec, r') \<Longrightarrow>
     r = MainnetMagic @ PutUint32 (of_nat (length (RawUndo rec))) @ RawUndo rec @ Checksum rec @ r'
     \<and> length (Checksum rec) = 32 \<and> Magic rec = MainnetMagic
     \<and> (\<exists>t. DeserializeBlockUndo (RawUndo rec) = Inr (BlockUndo rec, t))"
  by (auto simp: ParseRecord_def Let_def result_iffs ReadFull_Inr Put_Uint)

lemma MainnetMagic_length [simp]: "length MainnetMagic = 4"
  by (simp add: MainnetMagic_def)

interpretation rec_dec: decoder ParseRecord
  by unfold_locales (auto dest!: ParseRecord_shorter simp: suffix_appendI)

text \<open>
  The loop reads until a record fails. An error of end-of-file kind is the regular end: the
  records read so far are returned with a nil error; any other error is returned with them.
  A panic leaves no result (\<open>Inl\<close>).
\<close>

function ParseAllRecords :: "bytes \<Rightarrow> (Record list \<times> go_error option) result" where
  "ParseAllRecords r =
     (case ParseRecord r of
        Inl e \<Rightarrow>
          if is_panic e then Inl e
          else if errors_Is e EOF \<or> errors_Is e ErrUnexpectedEOF then Inr ([], None)
          else Inr ([], Some (Errorf ''record: parse'' e))
      | Inr (rec, r') \<Rightarrow>
          bindE (ParseAllRecords r') (\<lambda>(recs, err). Inr (rec # recs, err)))"
  by auto
termination
  by (relation "measure length") (auto dest!: ParseRecord_shorter)

declare ParseAllRecords.simps [simp del]

definition SerializeRecord :: "Record \<Rightarrow> bytes \<Rightarrow> write_op" where
  "SerializeRecord rec prevBlockHash =
     (case run_buffer (SerializeBlockUndo (BlockUndo rec)) of
        Inl e \<Rightarrow> w_fail (Errorf ''record: serialize'' e)
      | Inr serialized \<Rightarrow>
          w_seq (w_wrap ''record: write magic'' (w_write MainnetMagic))
            (w_seq (w_wrap ''record: write size'' (w_write (PutUint32 (of_nat (length serialized)))))
              (w_seq (w_wrap ''record: write undo'' (w_write serialized))
                (w_wrap ''record: write checksum'' (w_write (sha256d (prevBlockHash @ serialized)))))))"

definition VerifyChecksum :: "Record \<Rightarrow> bytes \<Rightarrow> bool" where
  "VerifyChecksum rec prevBlockHash =
     (let checksumInput = prevBlockHash @ RawUndo rec; expected = sha256d checksumInput
      in expected = Checksum rec)"

section \<open>Writing and reading back\<close>

definition record_bytes :: "BlockUndo \<Rightarrow> bytes \<Rightarrow> bytes" where
  "record_bytes bu prev =
     MainnetMagic @ PutUint32 (of_nat (length (blockundo_bytes bu))) @ blockundo_bytes bu
       @ sha256d (prev @ blockundo_bytes bu)"

text \<open>The record that reading such bytes gives.\<close>

definition record_of :: "BlockUndo \<Rightarrow> bytes \<Rightarrow> Record" where
  "record_of bu prev =
     \<lparr>Magic = MainnetMagic, BlockUndo = bu, Checksum = sha256d (prev @ blockundo_bytes bu),
      RawUndo = blockundo_bytes bu\<rparr>"

lemma length_sha256d [simp]: "length (sha256d bs) = 32"
  by (simp add: sha256d_def)

lemma emits_SerializeRecord: "emits (SerializeRecord rec prev) (record_bytes (BlockUndo rec) prev)"
  unfolding SerializeRecord_def record_bytes_def emits_run_buffer [OF emits_SerializeBlockUndo] sum.case
  by (intro emits_seq emits_wrap emits_write)

definition valid_record :: "BlockUndo \<times> bytes \<Rightarrow> bool" where
  "valid_record = (\<lambda>(bu, prev). valid_blockundo bu \<and> length (blockundo_bytes bu) < 2 ^ 32)"

lemma ParseRecord_record_bytes:
  assumes "valid_record (bu, prev)"
  shows "ParseRecord (record_bytes bu prev @ r) = Inr (record_of bu prev, r)"
  using assms blockundo.dec_enc_exact [of bu]
  by (simp add: ParseRecord_def record_bytes_def record_of_def valid_record_def unsigned_of_nat
      take_bit_nat_eq_self)

lemma VerifyChecksum_record_of:
  "VerifyChecksum (record_of bu prev) prev'
     \<longleftrightarrow> sha256d (prev' @ blockundo_bytes bu) = sha256d (prev @ blockundo_bytes bu)"
  by (simp add: VerifyChecksum_def record_of_def)

lemma ParseAllRecords_append:
  assumes "list_all valid_record brs"
  shows "ParseAllRecords (concat (map (\<lambda>(bu, prev). record_bytes bu prev) brs) @ r) =
    bindE (ParseAllRecords r) (\<lambda>(recs, err). Inr (map (\<lambda>(bu, prev). record_of bu prev) brs @ recs, err))"
  using assms
proof (induction brs)
  case Nil
  then show ?case by (cases "ParseAllRecords r") auto
next
  case (Cons br brs)
  obtain bu prev where br: "br = (bu, prev)" by fastforce
  have "ParseAllRecords (concat (map (\<lambda>(bu, prev). record_bytes bu prev) (br # brs)) @ r) =
    bindE (ParseAllRecords (concat (map (\<lambda>(bu, prev). record_bytes bu prev) brs) @ r))
      (\<lambda>(recs, err). Inr (record_of bu prev # recs, err))"
    using Cons.prems
    by (subst ParseAllRecords.simps) (simp add: br ParseRecord_record_bytes del: append_assoc add: append.assoc)
  then show ?case
    using Cons by (cases "ParseAllRecords r") (auto simp: br)
qed

lemma ParseAllRecords_Nil [simp]: "ParseAllRecords [] = Inr ([], None)"
  by (subst ParseAllRecords.simps) (simp add: ParseRecord_def ReadFull_def)

text \<open>
  A stream that ends inside a record, wherever it ends, stops the parse with an error of
  end-of-file kind.
\<close>

definition eof_kind :: "go_error \<Rightarrow> bool" where
  "eof_kind e \<longleftrightarrow> \<not> is_panic e \<and> (errors_Is e EOF \<or> errors_Is e ErrUnexpectedEOF)"

lemma eof_kind_Errorf [simp]: "eof_kind (Errorf s e) = eof_kind e"
  by (simp add: eof_kind_def)

lemma ReadFull_short: "length r < n \<Longrightarrow> \<exists>e. ReadFull n r = Inl e \<and> eof_kind e"
  by (auto simp: ReadFull_def eof_kind_def)

lemma read_short:
  "length r < n \<Longrightarrow> \<exists>e. bindE (wrapE s (ReadFull n r)) f = Inl e \<and> eof_kind e"
  using ReadFull_short [of r n] by (auto intro: eof_kind_Errorf [THEN iffD2])

lemma strict_prefix_take: "strict_prefix p w \<Longrightarrow> p = take (length p) w \<and> length p < length w"
  by (auto simp: strict_prefix_def prefix_def)

lemma ParseRecord_truncated:
  assumes "length b < 2 ^ 32" "length c = 32"
    and "strict_prefix p (MainnetMagic @ PutUint32 (of_nat (length b)) @ b @ c)"
  shows "\<exists>e. ParseRecord p = Inl e \<and> eof_kind e"
proof -
  let ?w = "MainnetMagic @ PutUint32 (of_nat (length b)) @ b @ c"
  define k where "k = length p"
  have p: "p = take k ?w" and k: "k < length ?w"
    using strict_prefix_take [OF assms(3)] by (simp_all only: k_def)
  have sz: "unat (Uint32 (PutUint32 (of_nat (length b)))) = length b"
    using assms(1) by (simp add: unsigned_of_nat take_bit_nat_eq_self)
  consider "k < 4" | "4 \<le> k" "k < 8" | "8 \<le> k" "k < 8 + length b" | "8 + length b \<le> k" by linarith
  then show ?thesis
  proof cases
    case 1
    then show ?thesis
      unfolding ParseRecord_def by (intro read_short) (simp add: p)
  next
    case 2
    then have "p = MainnetMagic @ take (k - 4) (PutUint32 (of_nat (length b)))" by (simp add: p)
    with 2 show ?thesis
      by (simp add: ParseRecord_def) (intro read_short, simp)
  next
    case 3
    then have "p = MainnetMagic @ PutUint32 (of_nat (length b)) @ take (k - 8) b" by (simp add: p)
    with 3 show ?thesis
      unfolding ParseRecord_def Let_def by (simp add: sz del: Uint_Put) (intro read_short, simp)
  next
    case 4
    then have "p = MainnetMagic @ PutUint32 (of_nat (length b)) @ b @ take (k - 8 - length b) c"
      by (simp add: p)
    with 4 k assms(2) show ?thesis
      unfolding ParseRecord_def Let_def by (simp add: sz del: Uint_Put) (intro read_short, simp)
  qed
qed

lemma ParseAllRecords_eof:
  "ParseRecord r = Inl e \<Longrightarrow> eof_kind e \<Longrightarrow> ParseAllRecords r = Inr ([], None)"
  by (subst ParseAllRecords.simps) (auto simp: eof_kind_def)

section \<open>Properties\<close>

text \<open>
  C10. A serialised record parses back to its undo data, with any stream after it, and its
  checksum verifies for the previous block it was written with.
\<close>

theorem record_roundtrip:
  assumes "valid_record (BlockUndo rec, prev)"
  shows "\<exists>bs. run_buffer (SerializeRecord rec prev) = Inr bs
     \<and> ParseRecord (bs @ r) = Inr (record_of (BlockUndo rec) prev, r)
     \<and> VerifyChecksum (record_of (BlockUndo rec) prev) prev"
  using ParseRecord_record_bytes [OF assms, of r]
  by (simp add: emits_run_buffer [OF emits_SerializeRecord] VerifyChecksum_record_of)

definition example_undo :: BlockUndo where
  "example_undo = \<lparr>TxUndos = [\<lparr>Prevouts = [\<lparr>Height = 9, CoinBase = True,
     Out = \<lparr>Value = 50, ScriptPubKey = [0x6a, 1, 2]\<rparr>\<rparr>]\<rparr>]\<rparr>"

lemma length_example_undo: "length (blockundo_bytes example_undo) = 9"
  by code_simp

lemma valid_example_undo: "valid_record (example_undo, prev)"
proof -
  have "valid_amount 50" using compress_nat_less [of 50] by (simp add: valid_amount_def)
  moreover have "length (blockundo_bytes example_undo) < 2 ^ 32" by (simp add: length_example_undo)
  ultimately show ?thesis
    by (simp add: valid_record_def example_undo_def valid_blockundo_def valid_txundo_def valid_coin_def
        valid_script_def is_p2pk_uncompressed_def)
qed

theorem record_roundtrip_witness:
  "\<exists>bs. run_buffer (SerializeRecord (record_of example_undo []) (replicate 32 7)) = Inr bs
     \<and> ParseRecord (bs @ [1]) = Inr (record_of example_undo (replicate 32 7), [1])"
  using record_roundtrip [of "record_of example_undo []" "replicate 32 7" "[1]"] valid_example_undo
  by (auto simp: record_of_def)

text \<open>
  A rev file that was cut off inside a record, or not at all, gives every whole record and
  no error.
\<close>

theorem parse_all_truncated:
  assumes "list_all valid_record brs" "valid_record (bu, prev)" "strict_prefix p (record_bytes bu prev)"
  shows "ParseAllRecords (concat (map (\<lambda>(bu, prev). record_bytes bu prev) brs) @ p)
           = Inr (map (\<lambda>(bu, prev). record_of bu prev) brs, None)"
proof -
  obtain e where "ParseRecord p = Inl e" "eof_kind e"
    using ParseRecord_truncated [of "blockundo_bytes bu" "sha256d (prev @ blockundo_bytes bu)" p] assms(2,3)
    by (auto simp: valid_record_def record_bytes_def)
  then show ?thesis
    using ParseAllRecords_append [OF assms(1), of p] ParseAllRecords_eof by simp
qed

theorem parse_all_truncated_witness:
  "ParseAllRecords (record_bytes example_undo [] @ take 40 (record_bytes example_undo []))
     = Inr ([record_of example_undo []], None)"
proof -
  have "strict_prefix (take 40 (record_bytes example_undo [])) (record_bytes example_undo [])"
  proof -
    have "40 < length (record_bytes example_undo [])" by (simp add: record_bytes_def length_example_undo)
    then show ?thesis by (metis append_take_drop_id drop_eq_Nil leD prefixI self_append_conv strict_prefixI)
  qed
  then show ?thesis
    using parse_all_truncated [of "[(example_undo, [])]" example_undo "[]" "take 40 (record_bytes example_undo [])"]
      valid_example_undo by simp
qed

text \<open>
  What the parser returns is in the stream: the records it gives are, byte for byte, what
  the stream starts with, and the parse stopped because no record could be read after them.
\<close>

definition record_raw :: "Record \<Rightarrow> bytes" where
  "record_raw rec = MainnetMagic @ PutUint32 (of_nat (length (RawUndo rec))) @ RawUndo rec @ Checksum rec"

theorem parse_all_sound:
  assumes "ParseAllRecords bs = Inr (recs, err)"
  shows "\<exists>rest e. bs = concat (map record_raw recs) @ rest \<and> ParseRecord rest = Inl e \<and> \<not> is_panic e
     \<and> (err = None \<longleftrightarrow> eof_kind e)"
  using assms
proof (induction bs arbitrary: recs rule: ParseAllRecords.induct)
  case (1 bs)
  show ?case
  proof (cases "ParseRecord bs")
    case (Inl e)
    then show ?thesis
      using "1.prems" by (subst (asm) ParseAllRecords.simps) (auto simp: eof_kind_def split: if_splits)
  next
    case (Inr p)
    obtain rec r' where p: "ParseRecord bs = Inr (rec, r')" using Inr by (cases p) auto
    obtain recs' where r: "ParseAllRecords r' = Inr (recs', err)" "recs = rec # recs'"
      using "1.prems" p by (subst (asm) ParseAllRecords.simps) (auto simp: result_iffs)
    have "bs = record_raw rec @ r'" using ParseRecord_shorter [OF p] by (simp add: record_raw_def)
    then show ?thesis
      using "1.IH" [OF p _ r(1)] r(2) by auto
  qed
qed

theorem parse_all_sound_witness:
  "\<exists>rest e. record_bytes example_undo [] = concat (map record_raw [record_of example_undo []]) @ rest
     \<and> ParseRecord rest = Inl e \<and> \<not> is_panic e \<and> eof_kind e"
proof -
  have "ParseAllRecords (record_bytes example_undo []) = Inr ([record_of example_undo []], None)"
    using ParseAllRecords_append [of "[(example_undo, [])]" "[]"] valid_example_undo by simp
  from parse_all_sound [OF this] show ?thesis by simp
qed


end
