(* ===== verification/Files.thy ===== *)
theory Files
  imports Go_Lib "HOL-Library.List_Lexorder" "HOL-Library.Char_ord"
begin

text \<open>
  The part of package \<open>os\<close> that the components call. A disk maps path names to contents.
  The environment of a call decides which system call fails and with which error, how many
  bytes a new file takes before the device is full, and the random part of a temporary
  file's name; every theorem quantifies over it, so all failures are covered. A directory
  is not an object of its own: creating one only may fail. Paths are clean, so
  \<open>filepath.Join(dir, name)\<close> is \<open>dir/name\<close>.
\<close>

datatype syscall =
    SysOpen string
  | SysStat string
  | SysReadAt string nat
  | SysMkdirAll string
  | SysCreate string
  | SysWrite string
  | SysSync string
  | SysClose string
  | SysRename string string
  | SysRemove string
  | SysReadDir string
  | SysAllocate string

record io_env =
  fault :: "syscall \<Rightarrow> go_error option"
  space :: "string \<Rightarrow> nat option"
  tmp_rnd :: nat

type_synonym disk = "string \<rightharpoonup> bytes"

text \<open>The environment in which nothing fails.\<close>

definition io_ok :: io_env where
  "io_ok = \<lparr>fault = (\<lambda>_. None), space = (\<lambda>_. None), tmp_rnd = 0\<rparr>"

lemma io_ok_simps [simp]: "fault io_ok c = None" "space io_ok p = None"
  by (simp_all add: io_ok_def)

text \<open>\<open>os.CreateTemp\<close> puts a random decimal number in place of the star of its pattern.\<close>

definition tmp_suffix :: "io_env \<Rightarrow> string" where
  "tmp_suffix env = Itoa_nat (tmp_rnd env)"

lemma tmp_suffix_ok [simp]: "tmp_suffix io_ok = ''0''"
  by code_simp

text \<open>A system that reports a file missing only when it is, and the end of a file only at its end.\<close>

definition honest_io :: "io_env \<Rightarrow> bool" where
  "honest_io env \<longleftrightarrow> (\<forall>c. fault env c \<noteq> Some ErrNotExist \<and> fault env c \<noteq> Some EOF)"

lemma honest_io_ok [simp]: "honest_io io_ok"
  by (simp add: honest_io_def)

definition path_Join :: "string \<Rightarrow> string \<Rightarrow> string" where
  "path_Join dir name = dir @ ''/'' @ name"

definition sys :: "io_env \<Rightarrow> syscall \<Rightarrow> 'a result \<Rightarrow> 'a result" where
  "sys env c m = (case fault env c of Some e \<Rightarrow> Inl e | None \<Rightarrow> m)"

lemma sys_ok [simp]: "fault env c = None \<Longrightarrow> sys env c m = m"
  by (simp add: sys_def)

lemma sys_Inr [result_iffs]: "sys env c m = Inr y \<longleftrightarrow> fault env c = None \<and> m = Inr y"
  by (auto simp: sys_def split: option.splits)

definition os_Open :: "io_env \<Rightarrow> disk \<Rightarrow> string \<Rightarrow> bytes result" where
  "os_Open env d p = sys env (SysOpen p) (case d p of None \<Rightarrow> Inl ErrNotExist | Some c \<Rightarrow> Inr c)"

lemma os_Open_Inr [result_iffs]: "os_Open env d p = Inr c \<longleftrightarrow> fault env (SysOpen p) = None \<and> d p = Some c"
  by (auto simp: os_Open_def result_iffs split: option.splits)

text \<open>\<open>os.Stat\<close> of a file gives its size; \<open>os.ReadFile\<close> and \<open>io.Copy\<close> from a file read all of it.\<close>

definition os_Stat :: "io_env \<Rightarrow> disk \<Rightarrow> string \<Rightarrow> int result" where
  "os_Stat env d p = sys env (SysStat p) (case d p of None \<Rightarrow> Inl ErrNotExist | Some c \<Rightarrow> Inr (int (length c)))"

definition os_ReadFile :: "io_env \<Rightarrow> disk \<Rightarrow> string \<Rightarrow> bytes result" where
  "os_ReadFile env d p = bindE (os_Open env d p) (\<lambda>c. sys env (SysReadAt p 0) (Inr c))"

lemma os_Stat_Inr [result_iffs]:
  "os_Stat env d p = Inr n \<longleftrightarrow> fault env (SysStat p) = None \<and> (\<exists>c. d p = Some c \<and> n = int (length c))"
  by (auto simp: os_Stat_def result_iffs split: option.splits)

lemma os_ReadFile_Inr [result_iffs]:
  "os_ReadFile env d p = Inr c \<longleftrightarrow> fault env (SysOpen p) = None \<and> fault env (SysReadAt p 0) = None \<and> d p = Some c"
  by (auto simp: os_ReadFile_def result_iffs)

text \<open>\<open>File.ReadAt\<close> fills its buffer or fails; a short read is \<open>io.EOF\<close>.\<close>

definition os_ReadAt :: "io_env \<Rightarrow> string \<Rightarrow> bytes \<Rightarrow> nat \<Rightarrow> nat \<Rightarrow> bytes result" where
  "os_ReadAt env p c off n =
     sys env (SysReadAt p off) (if off + n \<le> length c then Inr (slice off n c) else Inl EOF)"

lemma os_ReadAt_Inr [result_iffs]:
  "os_ReadAt env p c off n = Inr b \<longleftrightarrow>
     fault env (SysReadAt p off) = None \<and> off + n \<le> length c \<and> b = slice off n c"
  by (auto simp: os_ReadAt_def result_iffs)

text \<open>
  The regular files of a directory, in the byte order of their names, as \<open>os.ReadDir\<close> lists
  them. A disk has finitely many files.
\<close>

definition dir_names :: "disk \<Rightarrow> string \<Rightarrow> string set" where
  "dir_names d dir = {n. CHR ''/'' \<notin> set n \<and> d (path_Join dir n) \<noteq> None}"

definition os_ReadDir :: "io_env \<Rightarrow> disk \<Rightarrow> string \<Rightarrow> string list result" where
  "os_ReadDir env d dir = sys env (SysReadDir dir) (Inr (sorted_list_of_set (dir_names d dir)))"

lemma path_Join_inj [simp]: "path_Join dir a = path_Join dir b \<longleftrightarrow> a = b"
  by (simp add: path_Join_def)

lemma path_Join_dirs: "length a = length b \<Longrightarrow> path_Join dir a = path_Join dir' b \<Longrightarrow> dir = dir' \<and> a = b"
  by (simp add: path_Join_def)

lemma path_Join_same_name [simp]: "path_Join dir a = path_Join dir' a \<longleftrightarrow> dir = dir'"
  by (simp add: path_Join_def)

lemma finite_dir_names: "finite (dom d) \<Longrightarrow> finite (dir_names d dir)"
proof -
  assume "finite (dom d)"
  moreover have "path_Join dir ` dir_names d dir \<subseteq> dom d" by (auto simp: dir_names_def)
  ultimately show ?thesis
    by (meson finite_imageD finite_subset inj_onI path_Join_inj)
qed

definition file_size :: "disk \<Rightarrow> string \<Rightarrow> int" where
  "file_size d p = (case d p of None \<Rightarrow> 0 | Some b \<Rightarrow> int (length b))"

text \<open>Operations that change the disk return their error, if any, and the new disk.\<close>

type_synonym disk_op = "disk \<Rightarrow> go_error option \<times> disk"

definition os_Remove :: "io_env \<Rightarrow> string \<Rightarrow> disk_op" where
  "os_Remove env p d =
     (case fault env (SysRemove p) of
        Some e \<Rightarrow> (Some e, d)
      | None \<Rightarrow> if d p = None then (Some ErrNotExist, d) else (None, d(p := None)))"

definition os_Rename :: "io_env \<Rightarrow> string \<Rightarrow> string \<Rightarrow> disk_op" where
  "os_Rename env p q d =
     (case fault env (SysRename p q) of
        Some e \<Rightarrow> (Some e, d)
      | None \<Rightarrow> (case d p of None \<Rightarrow> (Some ErrNotExist, d) | Some c \<Rightarrow> (None, d(p := None, q \<mapsto> c))))"

lemma os_Remove_other: "q \<noteq> p \<Longrightarrow> snd (os_Remove env p d) q = d q"
  by (auto simp: os_Remove_def split: option.splits)

definition fresh_writer :: "io_env \<Rightarrow> string \<Rightarrow> writer" where
  "fresh_writer env p = \<lparr>written = [], room = space env p\<rparr>"

text \<open>
  The pattern of atomic replacement: a temporary file in the directory of the target is
  filled by a write operation, closed and renamed over the target; on any failure it is
  removed. The four strings are the texts of the errors of the four steps after creation.
\<close>

definition write_atomic ::
  "io_env \<Rightarrow> string \<Rightarrow> string \<Rightarrow> string \<Rightarrow> string \<Rightarrow> string \<Rightarrow> string \<Rightarrow> write_op \<Rightarrow> disk_op" where
  "write_atomic env tmp path e_create e_write e_close e_rename body d =
     (case fault env (SysCreate tmp) of
        Some e \<Rightarrow> (Some (Errorf e_create e), d)
      | None \<Rightarrow>
          (case body (fresh_writer env tmp) of (err, w) \<Rightarrow>
            let d1 = d(tmp \<mapsto> written w);
                fail = (\<lambda>s e. (Some (Errorf s e), snd (os_Remove env tmp d1)))
            in case err of
                 Some e \<Rightarrow> fail e_write e
               | None \<Rightarrow>
                   (case fault env (SysClose tmp) of
                      Some e \<Rightarrow> fail e_close e
                    | None \<Rightarrow>
                        (case os_Rename env tmp path d1 of
                           (Some e, _) \<Rightarrow> fail e_rename e
                         | (None, d2) \<Rightarrow> (None, d2)))))"

text \<open>
  Whatever fails, the target has its old content or all of the new one, and no other file
  than the temporary one changes.
\<close>

lemma write_atomic_spec:
  assumes "emits body p" "tmp \<noteq> path" "write_atomic env tmp path a b c e body d = (err, d')"
  shows "(err = None \<longrightarrow> d' = d(tmp := None, path \<mapsto> p))
       \<and> (err \<noteq> None \<longrightarrow> (\<forall>q. q \<noteq> tmp \<longrightarrow> d' q = d q))
       \<and> (err \<noteq> None \<longrightarrow> fault env (SysRemove tmp) = None \<longrightarrow> d tmp = None \<longrightarrow> d' = d)"
proof -
  obtain e0 w where w: "body (fresh_writer env tmp) = (e0, w)" by fastforce
  have full: "written w = p" if "e0 = None"
  proof -
    have "snd (body (fresh_writer env tmp)) = snd (w_write p (fresh_writer env tmp))"
      "fst (w_write p (fresh_writer env tmp)) = None"
      using assms(1) that w unfolding emits_def by (metis fst_conv)+
    then show ?thesis
      using w by (auto simp: w_write_def fresh_writer_def split: option.splits if_splits)
  qed
  have rm: "snd (os_Remove env tmp (d(tmp \<mapsto> x))) q = d q" if "q \<noteq> tmp" for x q
    using that by (simp add: os_Remove_other)
  have clean: "snd (os_Remove env tmp (d(tmp \<mapsto> x))) = d"
    if "fault env (SysRemove tmp) = None" "d tmp = None" for x
    using that by (auto simp: os_Remove_def fun_upd_idem)
  show ?thesis
    using assms(3) full rm clean assms(2)
    by (auto simp: write_atomic_def w Let_def os_Rename_def fun_upd_twist split: option.splits prod.splits if_splits)
qed

text \<open>Whatever the write operation does, no third file changes, and a failure keeps the target.\<close>

lemma write_atomic_other:
  assumes "write_atomic env tmp path a b c e body d = (err, d')" "q \<noteq> tmp" "q \<noteq> path \<or> err \<noteq> None"
  shows "d' q = d q"
  using assms os_Remove_other [of q tmp env]
  by (auto simp: write_atomic_def Let_def os_Rename_def split: option.splits prod.splits if_splits)

text \<open>When nothing fails and the device has room, it succeeds.\<close>

lemma write_atomic_ok:
  assumes "emits body p" "fault env = (\<lambda>_. None)"
    "case space env tmp of None \<Rightarrow> True | Some n \<Rightarrow> length p \<le> n"
  shows "fst (write_atomic env tmp path a b c e body d) = None"
proof -
  have "fst (w_write p (fresh_writer env tmp)) = None"
    using assms(3) by (auto simp: w_write_def fresh_writer_def split: option.splits)
  then have "fst (body (fresh_writer env tmp)) = None"
    using assms(1) unfolding emits_def by blast
  then show ?thesis
    using assms(2) by (auto simp: write_atomic_def Let_def os_Rename_def split: prod.splits option.splits)
qed

lemma path_Base_Join:
  assumes "n \<noteq> []" "CHR ''/'' \<notin> set n"
  shows "path_Base (path_Join dir n) = n"
proof -
  obtain c cs where n: "rev n = c # cs" using assms(1) by (cases "rev n") auto
  then have "c \<noteq> CHR ''/''" using assms(2) by (metis list.set_intros(1) set_rev)
  then have dw: "dropWhile (\<lambda>c. c = CHR ''/'') (rev (path_Join dir n)) = rev (path_Join dir n)"
    by (simp add: path_Join_def n)
  have "takeWhile (\<lambda>c. c \<noteq> CHR ''/'') (rev n @ CHR ''/'' # rev dir) = rev n"
    using assms(2) by (subst takeWhile_append2) auto
  then have "takeWhile (\<lambda>c. c \<noteq> CHR ''/'') (rev (path_Join dir n)) = rev n" by (simp add: path_Join_def)
  then show ?thesis
    unfolding path_Base_def Let_def dw rev_rev_ident by (simp add: path_Join_def)
qed

text \<open>
  \<open>os.WriteFile\<close>: the file is created or truncated, filled and closed. It is not atomic: a
  failing write leaves what was written so far.
\<close>

definition os_WriteFile :: "io_env \<Rightarrow> string \<Rightarrow> bytes \<Rightarrow> disk_op" where
  "os_WriteFile env p data d =
     (case fault env (SysCreate p) of
        Some e \<Rightarrow> (Some e, d)
      | None \<Rightarrow>
          (case w_write data (fresh_writer env p) of
             (Some e, w) \<Rightarrow> (Some e, d(p \<mapsto> written w))
           | (None, w) \<Rightarrow> (fault env (SysClose p), d(p \<mapsto> written w))))"

lemma os_WriteFile_other: "q \<noteq> p \<Longrightarrow> snd (os_WriteFile env p data d) q = d q"
  by (auto simp: os_WriteFile_def split: option.splits prod.splits)

lemma os_WriteFile_None: "os_WriteFile env p data d = (None, d') \<Longrightarrow> d' = d(p \<mapsto> data)"
  by (auto simp: os_WriteFile_def w_write_def fresh_writer_def split: option.splits if_splits)

lemma os_WriteFile_ok:
  "fault env = (\<lambda>_. None) \<Longrightarrow> space env p = None \<Longrightarrow> os_WriteFile env p data d = (None, d(p \<mapsto> data))"
  by (simp add: os_WriteFile_def w_write_def fresh_writer_def)

end
