(* ===== verification/Blockmap.thy ===== *)
theory Blockmap
  imports Files Sha256 "HOL-Library.Multiset"
begin

text \<open>
  \<open>internal/blockmap\<close>: the index of the blocks of one blk file. Its lookups
  (\<open>types.go\<close>), its binary format (\<open>reader.go\<close>, \<open>writer.go\<close>) and the scanner
  that builds it from a blk file (\<open>scanner.go\<close>). Shown: the binary search returns the
  block that covers an offset, the overlap query the blocks that a byte range needs, the
  format round-trips, a file is replaced atomically, and the scanner succeeds exactly on
  sequences of whole frames and returns their exact positions.
\<close>

definition BlockmapMagic :: "32 word" where "BlockmapMagic = 0x424D4150"
definition BlockmapVersion :: "16 word" where "BlockmapVersion = 1"
definition HeaderSize :: nat where "HeaderSize = 16"
definition EntrySize :: nat where "EntrySize = 44"

record BlockmapEntry =
  BlockHash :: bytes
  FileOffset :: int
  BlockDataSize :: "32 word"

record Blockmap =
  Filename :: string
  Entries :: "BlockmapEntry list"

section \<open>Lookups\<close>

text \<open>\<open>entry.FileOffset + int64(entry.BlockDataSize) + 8\<close> in 64-bit arithmetic.\<close>

definition entryEnd :: "BlockmapEntry \<Rightarrow> int" where
  "entryEnd entry = wrap64 (wrap64 (FileOffset entry + uint (BlockDataSize entry)) + 8)"

definition FindBlock :: "Blockmap \<Rightarrow> int \<Rightarrow> BlockmapEntry option" where
  "FindBlock bm offset =
     (if Entries bm = [] then None
      else let idx = sort_Search (length (Entries bm)) (\<lambda>i. entryEnd (Entries bm ! i) > offset)
           in if idx \<ge> length (Entries bm) then None
              else let entry = Entries bm ! idx
                   in if offset \<ge> FileOffset entry \<and> offset < entryEnd entry then Some entry else None)"

definition FindBlocks :: "Blockmap \<Rightarrow> int \<Rightarrow> int \<Rightarrow> BlockmapEntry list" where
  "FindBlocks bm offset len =
     (if Entries bm = [] then []
      else let rangeEnd = wrap64 (offset + len)
           in filter (\<lambda>entry. FileOffset entry < rangeEnd \<and> entryEnd entry > offset) (Entries bm))"

text \<open>
  The invariant of a blockmap: entries in order without overlap, offsets not negative, and
  no end beyond \<open>int64\<close>.
\<close>

definition entry_stop :: "BlockmapEntry \<Rightarrow> int" where
  "entry_stop e = FileOffset e + uint (BlockDataSize e) + 8"

definition entries_wf :: "BlockmapEntry list \<Rightarrow> bool" where
  "entries_wf es \<longleftrightarrow>
     sorted_wrt (\<lambda>a b. entry_stop a \<le> FileOffset b) es
     \<and> list_all (\<lambda>e. 0 \<le> FileOffset e \<and> entry_stop e < 2 ^ 63) es"

definition blockmap_wf :: "Blockmap \<Rightarrow> bool" where
  "blockmap_wf bm \<longleftrightarrow> entries_wf (Entries bm)"

definition covers :: "BlockmapEntry \<Rightarrow> int \<Rightarrow> bool" where
  "covers e x \<longleftrightarrow> FileOffset e \<le> x \<and> x < entry_stop e"

lemma uint_nonneg: "0 \<le> uint (w :: 'a::len word)"
  by simp

lemma entryEnd_stop:
  assumes "0 \<le> FileOffset e" "entry_stop e < 2 ^ 63"
  shows "entryEnd e = entry_stop e"
proof -
  have "in_int64 (FileOffset e + uint (BlockDataSize e))" "in_int64 (entry_stop e)"
    using assms uint_nonneg [of "BlockDataSize e"] unfolding in_int64_def entry_stop_def by linarith+
  then show ?thesis by (simp add: entryEnd_def entry_stop_def)
qed

lemma entries_wf_nth:
  assumes "entries_wf es" "i < length es"
  shows "0 \<le> FileOffset (es ! i)" "entry_stop (es ! i) < 2 ^ 63" "entryEnd (es ! i) = entry_stop (es ! i)"
  using assms by (auto simp: entries_wf_def list_all_length intro: entryEnd_stop)

lemma entries_wf_mono:
  assumes "entries_wf es" "i < j" "j < length es"
  shows "entry_stop (es ! i) \<le> FileOffset (es ! j)"
  using assms by (auto simp: entries_wf_def sorted_wrt_iff_nth_less)

lemma FileOffset_less_stop: "FileOffset e < entry_stop e"
  using uint_nonneg [of "BlockDataSize e"] unfolding entry_stop_def by linarith

lemma entries_wf_stop_mono:
  assumes "entries_wf es" "i \<le> j" "j < length es"
  shows "entry_stop (es ! i) \<le> entry_stop (es ! j)"
  using entries_wf_mono [OF assms(1), of i j] FileOffset_less_stop [of "es ! j"] assms
  by (cases "i = j") auto

text \<open>At most one entry covers an offset.\<close>

lemma covers_unique:
  assumes "entries_wf es" "i < length es" "j < length es" "covers (es ! i) x" "covers (es ! j) x"
  shows "i = j"
  using entries_wf_mono [OF assms(1), of i j] entries_wf_mono [OF assms(1), of j i] assms
  by (cases i j rule: linorder_cases) (auto simp: covers_def)

lemma FindBlock_iff:
  assumes wf: "blockmap_wf bm"
  shows "FindBlock bm x = Some e \<longleftrightarrow> e \<in> set (Entries bm) \<and> covers e x"
proof -
  let ?es = "Entries bm" and ?n = "length (Entries bm)"
  let ?f = "\<lambda>i. entryEnd (?es ! i) > x"
  let ?i = "sort_Search ?n ?f"
  have es: "entries_wf ?es" using wf by (simp add: blockmap_wf_def)
  have mono: "\<And>a b. a \<le> b \<Longrightarrow> b < ?n \<Longrightarrow> ?f a \<Longrightarrow> ?f b"
    using entries_wf_stop_mono [OF es] entries_wf_nth(3) [OF es] by (metis le_less_trans less_le_trans)
  have srch: "\<not> ?f k" if "k < ?i" for k
    using sort_Search_first(2) [of ?n ?f] mono that by blast
  have srch': "?f k" if "?i \<le> k" "k < ?n" for k
    using sort_Search_first(3) [of ?n ?f] mono that by blast
  have covered: "k = ?i" if "k < ?n" "covers (?es ! k) x" for k
  proof -
    have "?f k" using that entries_wf_nth(3) [OF es, of k] by (simp add: covers_def)
    then have "?i \<le> k" using srch [of k] by (meson not_le)
    moreover have "\<not> ?i < k"
    proof
      assume less: "?i < k"
      then have "entry_stop (?es ! ?i) > x"
        using srch' [of ?i] that(1) entries_wf_nth(3) [OF es, of ?i] by auto
      with entries_wf_mono [OF es less that(1)] that(2) show False by (simp add: covers_def)
    qed
    ultimately show ?thesis by simp
  qed
  have found: "FindBlock bm x = Some e \<longleftrightarrow> ?i < ?n \<and> e = ?es ! ?i \<and> covers e x"
    using entries_wf_nth(3) [OF es, of ?i] by (auto simp: FindBlock_def Let_def covers_def)
  show ?thesis
    unfolding found by (metis covered in_set_conv_nth nth_mem)
qed

text \<open>The overlap query returns the blocks that \<open>FindBlock\<close> finds at some offset of the range.\<close>

lemma FindBlocks_iff:
  assumes wf: "blockmap_wf bm" and "0 \<le> x" "0 \<le> n" "x + n < 2 ^ 63"
  shows "FindBlocks bm x n = filter (\<lambda>e. FileOffset e < x + n \<and> x < entry_stop e) (Entries bm)"
proof -
  have "wrap64 (x + n) = x + n" using assms by (simp add: in_int64_def)
  moreover have "\<forall>e \<in> set (Entries bm). entryEnd e = entry_stop e"
    using wf by (auto simp: blockmap_wf_def entries_wf_def list_all_iff intro: entryEnd_stop)
  ultimately show ?thesis by (auto simp: FindBlocks_def Let_def intro: filter_cong)
qed

lemma overlap_covers:
  "0 < n \<Longrightarrow> (FileOffset e < x + n \<and> x < entry_stop e) \<longleftrightarrow> (\<exists>y. x \<le> y \<and> y < x + n \<and> covers e y)"
  using FileOffset_less_stop [of e]
  by (auto simp: covers_def intro!: exI [where x = "max x (FileOffset e)"])

section \<open>The binary format\<close>

definition read_entry :: "BlockmapEntry decoder_fun" where
  "read_entry r =
     bindE (wrapE ''read entry'' (ReadFull EntrySize r)) (\<lambda>(entryBuf, r').
       Inr (\<lparr>BlockHash = slice 0 32 entryBuf, FileOffset = sint (Uint64 (slice 32 8 entryBuf)),
             BlockDataSize = Uint32 (slice 40 4 entryBuf)\<rparr>, r'))"

fun entries_sorted :: "BlockmapEntry list \<Rightarrow> bool" where
  "entries_sorted (a # b # es) = (FileOffset a \<le> FileOffset b \<and> entries_sorted (b # es))"
| "entries_sorted es = True"

text \<open>\<open>Read\<close> leaves \<open>Filename\<close> empty and what follows the entries unread.\<close>

definition Read :: "Blockmap decoder_fun" where
  "Read r =
     bindE (wrapE ''read header'' (ReadFull HeaderSize r)) (\<lambda>(header, r1).
     guardE (Uint32 (slice 0 4 header) = BlockmapMagic) (ErrNew ''invalid blockmap magic'')
     (guardE (Uint16 (slice 4 2 header) = BlockmapVersion) (ErrNew ''unsupported blockmap version'')
     (let entryCount = Uint32 (slice 6 4 header) in
      guardE (\<not> entryCount \<ge> 1000000) (ErrNew ''entry count too large'')
      (bindE (read_loop (unat entryCount) read_entry r1) (\<lambda>(entries, r2).
       guardE (entries_sorted entries) (ErrNew ''blockmap entries not sorted by file offset'')
         (Inr (\<lparr>Filename = [], Entries = entries\<rparr>, r2)))))))"

definition ReadFile :: "io_env \<Rightarrow> disk \<Rightarrow> string \<Rightarrow> Blockmap result" where
  "ReadFile env d path =
     bindE (wrapE ''open file'' (os_Open env d path)) (\<lambda>f.
     bindE (Read f) (\<lambda>(bm, _).
       let filename = path_Base path;
           filename' = (if length filename > length ''.blockmap'' \<and> HasSuffix filename ''.blockmap''
                        then take (length filename - length ''.blockmap'') filename else filename)
       in Inr (bm\<lparr>Filename := filename'\<rparr>)))"

text \<open>
  \<open>sort.Slice\<close> returns the entries ordered by offset. Which order it gives entries of equal
  offset is not specified; blocks of one file have distinct offsets, and then there is only
  one sorted order (\<open>sort_Slice_unique\<close>).
\<close>

definition sort_entries :: "BlockmapEntry list \<Rightarrow> BlockmapEntry list" where
  "sort_entries es = sort_key FileOffset es"

definition header_bytes :: "nat \<Rightarrow> bytes" where
  "header_bytes n = PutUint32 BlockmapMagic @ PutUint16 BlockmapVersion @ PutUint32 (of_nat n) @ replicate 6 0"

definition entry_bytes :: "BlockmapEntry \<Rightarrow> bytes" where
  "entry_bytes entry = BlockHash entry @ PutUint64 (word_of_int (FileOffset entry)) @ PutUint32 (BlockDataSize entry)"

definition Write :: "Blockmap option \<Rightarrow> write_op" where
  "Write bm =
     (case bm of
        None \<Rightarrow> w_fail (ErrNew ''blockmap is nil'')
      | Some bm \<Rightarrow>
          let entries = sort_entries (Entries bm)
          in w_seq (w_wrap ''write header'' (w_write (header_bytes (length entries))))
               (w_each (\<lambda>entry. w_wrap ''write entry'' (w_write (entry_bytes entry))) entries))"

definition path_Dir :: "string \<Rightarrow> string" where
  "path_Dir p = rev (dropWhile (\<lambda>c. c \<noteq> CHR ''/'') (rev p))"

definition WriteFile :: "io_env \<Rightarrow> string \<Rightarrow> Blockmap option \<Rightarrow> disk_op" where
  "WriteFile env path bm d =
     (case fault env (SysMkdirAll (path_Dir path)) of
        Some e \<Rightarrow> (Some (Errorf ''create directory'' e), d)
      | None \<Rightarrow>
          write_atomic env (path @ ''.tmp.'' @ tmp_suffix env) path ''create temp file'' ''write blockmap''
            ''close temp file'' ''rename to final path'' (Write bm) d)"

lemma sort_Slice_unique:
  assumes "distinct (map FileOffset es)" "mset es' = mset es" "sorted (map FileOffset es')"
  shows "es' = sort_entries es"
  unfolding sort_entries_def
proof (rule sort_key_inj_key_eq [symmetric])
  show "mset es = mset es'" using assms(2) by simp
  show "inj_on FileOffset (set es)" using assms(1) by (simp add: distinct_map)
qed (rule assms(3))

definition valid_entry :: "BlockmapEntry \<Rightarrow> bool" where
  "valid_entry e \<longleftrightarrow> length (BlockHash e) = 32 \<and> in_int64 (FileOffset e)"

definition blockmap_bytes :: "Blockmap \<Rightarrow> bytes" where
  "blockmap_bytes bm =
     header_bytes (length (Entries bm)) @ concat (map entry_bytes (sort_entries (Entries bm)))"

lemma emits_Write: "emits (Write (Some bm)) (blockmap_bytes bm)"
proof -
  have "length (sort_entries (Entries bm)) = length (Entries bm)" by (simp add: sort_entries_def)
  then show ?thesis
    unfolding Write_def blockmap_bytes_def option.case Let_def
    by (metis emits_seq emits_wrap emits_write emits_each)
qed

interpretation entry: fixed_codec read_entry entry_bytes valid_entry 44
proof
  fix x r
  assume v: "valid_entry x"
  then have l: "length (entry_bytes x) = EntrySize" by (simp add: entry_bytes_def valid_entry_def EntrySize_def)
  then show "length (entry_bytes x) = 44" by (simp add: EntrySize_def)
  have "slice 0 32 (entry_bytes x) = BlockHash x"
    "slice 32 8 (entry_bytes x) = PutUint64 (word_of_int (FileOffset x))"
    "slice 40 4 (entry_bytes x) = PutUint32 (BlockDataSize x)"
    using v by (simp_all add: entry_bytes_def slice_def valid_entry_def)
  moreover have "sint (word_of_int (FileOffset x) :: 64 word) = FileOffset x"
    using v by (simp add: valid_entry_def flip: wrap64_sint)
  ultimately show "read_entry (entry_bytes x @ r) = Inr (x, r)"
    using l by (simp add: read_entry_def)
qed (auto simp: read_entry_def result_iffs ReadFull_Inr suffix_appendI)

lemma entries_sorted_iff: "entries_sorted es \<longleftrightarrow> sorted (map FileOffset es)"
  by (induction es rule: entries_sorted.induct) (auto, fastforce)

lemma header_fields:
  "length (header_bytes n) = HeaderSize"
  "slice 0 4 (header_bytes n) = PutUint32 BlockmapMagic"
  "slice 4 2 (header_bytes n) = PutUint16 BlockmapVersion"
  "slice 6 4 (header_bytes n) = PutUint32 (of_nat n)"
  by (simp_all add: header_bytes_def slice_def HeaderSize_def)

text \<open>
  Reading back what was written. The writer takes any number of entries, the reader refuses
  a million or more.
\<close>

lemma Read_blockmap_bytes:
  assumes "list_all valid_entry (Entries bm)" "length (Entries bm) < 2 ^ 32"
  shows "Read (blockmap_bytes bm @ r) =
    (if length (Entries bm) < 1000000
     then Inr (\<lparr>Filename = [], Entries = sort_entries (Entries bm)\<rparr>, r)
     else Inl (ErrNew ''entry count too large''))"
proof -
  let ?n = "length (Entries bm)" and ?es = "sort_entries (Entries bm)"
  have un: "unat (of_nat ?n :: 32 word) = ?n"
    using assms(2) by (simp add: unsigned_of_nat take_bit_nat_eq_self)
  have ge: "(1000000 :: 32 word) \<le> of_nat ?n \<longleftrightarrow> 1000000 \<le> ?n"
    by (simp add: word_le_nat_alt un)
  have es: "list_all valid_entry ?es" "length ?es = ?n" "entries_sorted ?es"
    using assms(1) by (simp_all add: sort_entries_def list_all_iff entries_sorted_iff)
  show ?thesis
    using entry.read_loop_enc [OF es(1), of r] es
    by (simp add: Read_def blockmap_bytes_def header_fields un ge)
qed

lemma WriteFile_atomic:
  assumes "WriteFile env path (Some bm) d = (err, d')"
  shows "(err = None \<longrightarrow> d' = d(path @ ''.tmp.'' @ tmp_suffix env := None, path \<mapsto> blockmap_bytes bm))
       \<and> (err \<noteq> None \<longrightarrow> (\<forall>q. q \<noteq> path @ ''.tmp.'' @ tmp_suffix env \<longrightarrow> d' q = d q))"
  using assms write_atomic_spec [OF emits_Write, of "path @ ''.tmp.'' @ tmp_suffix env" path]
  by (auto simp: WriteFile_def split: option.splits)

section \<open>Scanning a blk file\<close>

text \<open>
  One iteration of the scanner's loop at \<open>offset\<close>, which returns the entry found there. File
  sizes and offsets within them are natural numbers: a file is far below \<open>2 ^ 63\<close> bytes.
\<close>

definition scan_one :: "io_env \<Rightarrow> string \<Rightarrow> bytes \<Rightarrow> 32 word \<Rightarrow> nat \<Rightarrow> BlockmapEntry result" where
  "scan_one env path f networkMagic offset =
     (let fileSize = length f in
      guardE (\<not> offset + 8 > fileSize) (ErrNew ''truncated preamble'')
      (bindE (wrapE ''read preamble'' (os_ReadAt env path f offset 8)) (\<lambda>preamble.
       guardE (Uint32 (slice 0 4 preamble) = networkMagic) (ErrNew ''invalid magic'')
       (let blockSize = Uint32 (slice 4 4 preamble) in
        guardE (\<not> offset + 8 + unat blockSize > fileSize) (ErrNew ''truncated block'')
        (guardE (\<not> blockSize < 80) (ErrNew ''block data size, need at least 80 bytes for header'')
        (bindE (wrapE ''read header'' (os_ReadAt env path f (offset + 8) 80)) (\<lambda>header.
          Inr \<lparr>BlockHash = Sum256 (Sum256 header), FileOffset = int offset, BlockDataSize = blockSize\<rparr>)))))))"

function scan_loop :: "io_env \<Rightarrow> string \<Rightarrow> bytes \<Rightarrow> 32 word \<Rightarrow> nat \<Rightarrow> BlockmapEntry list result" where
  "scan_loop env path f networkMagic offset =
     (if offset < length f then
        bindE (scan_one env path f networkMagic offset) (\<lambda>entry.
        bindE (scan_loop env path f networkMagic (offset + (8 + unat (BlockDataSize entry)))) (\<lambda>entries.
          Inr (entry # entries)))
      else Inr [])"
  by auto
termination
  by (relation "measure (\<lambda>(env, path, f, networkMagic, offset). length f - offset)") auto

declare scan_loop.simps [simp del]

definition ScanBlkFile :: "io_env \<Rightarrow> disk \<Rightarrow> string \<Rightarrow> 32 word \<Rightarrow> Blockmap result" where
  "ScanBlkFile env d path networkMagic =
     bindE (wrapE ''open'' (os_Open env d path)) (\<lambda>f.
     bindE (wrapE ''stat'' (sys env (SysStat path) (Inr ()))) (\<lambda>_.
       if length f = 0 then Inr \<lparr>Filename = path_Base path, Entries = []\<rparr>
       else bindE (scan_loop env path f networkMagic 0) (\<lambda>entries.
              Inr \<lparr>Filename = path_Base path, Entries = entries\<rparr>)))"

text \<open>
  The specification: a blk file is a sequence of frames, each a magic, a size and so many
  bytes of block data, at least the 80 bytes of a block header.
\<close>

definition frame :: "32 word \<Rightarrow> bytes \<Rightarrow> bytes" where
  "frame magic block = PutUint32 magic @ PutUint32 (of_nat (length block)) @ block"

definition valid_block :: "bytes \<Rightarrow> bool" where
  "valid_block b \<longleftrightarrow> 80 \<le> length b \<and> length b < 2 ^ 32"

definition block_hash :: "bytes \<Rightarrow> bytes" where
  "block_hash block = Sum256 (Sum256 (take 80 block))"

fun entries_of :: "nat \<Rightarrow> bytes list \<Rightarrow> BlockmapEntry list" where
  "entries_of off [] = []"
| "entries_of off (b # bs) =
     \<lparr>BlockHash = block_hash b, FileOffset = int off, BlockDataSize = of_nat (length b)\<rparr>
       # entries_of (off + (8 + length b)) bs"

definition frames :: "32 word \<Rightarrow> bytes list \<Rightarrow> bytes" where
  "frames magic bs = concat (map (frame magic) bs)"

lemma length_frame [simp]: "length (frame m b) = 8 + length b"
  by (simp add: frame_def)

lemma unat_block_length: "valid_block b \<Longrightarrow> unat (of_nat (length b) :: 32 word) = length b"
  by (simp add: valid_block_def unsigned_of_nat take_bit_nat_eq_self)

lemma uint_block_length [simp]: "valid_block b \<Longrightarrow> uint (of_nat (length b) :: 32 word) = int (length b)"
  using unat_block_length [of b] by (metis uint_nat)

lemma frame_slices:
  assumes "drop off f = frame m b @ r"
  shows "slice off 8 f = PutUint32 m @ PutUint32 (of_nat (length b))" "slice (off + 8) n f = take n (b @ r)"
    "off + (8 + length b) \<le> length f \<or> length f < off"
proof -
  show "slice off 8 f = PutUint32 m @ PutUint32 (of_nat (length b))"
    using assms by (simp add: slice_def frame_def)
  have "drop 8 (drop off f) = b @ r" using assms by (simp add: frame_def)
  then show "slice (off + 8) n f = take n (b @ r)" by (simp add: slice_def add.commute)
  have "length f - off = 8 + length b + length r" using arg_cong [OF assms, of length] by simp
  then show "off + (8 + length b) \<le> length f \<or> length f < off" by linarith
qed

lemma scan_one_iff:
  assumes "off < length f"
  shows "scan_one env path f m off = Inr e \<longleftrightarrow>
    fault env (SysReadAt path off) = None \<and> fault env (SysReadAt path (off + 8)) = None \<and>
    (\<exists>b r. valid_block b \<and> drop off f = frame m b @ r \<and>
       e = \<lparr>BlockHash = block_hash b, FileOffset = int off, BlockDataSize = of_nat (length b)\<rparr>)"
  (is "?scan \<longleftrightarrow> ?io \<and> ?io8 \<and> ?fr")
proof
  assume ?scan
  then obtain sz where io: ?io ?io8 and len: "off + 8 \<le> length f" "off + 8 + unat sz \<le> length f"
    and m: "Uint32 (slice 0 4 (slice off 8 f)) = m" and s: "sz = Uint32 (slice 4 4 (slice off 8 f))"
    and big: "\<not> sz < 80"
    and e: "e = \<lparr>BlockHash = Sum256 (Sum256 (slice (off + 8) 80 f)), FileOffset = int off, BlockDataSize = sz\<rparr>"
    by (auto simp: scan_one_def Let_def result_iffs not_less)
  let ?b = "slice (off + 8) (unat sz) f"
  have b: "length ?b = unat sz" using len by simp
  have "slice off 4 f = PutUint32 m" "slice (off + 4) 4 f = PutUint32 sz"
    using m s len by (auto simp: slice_slice Put_Uint)
  then have "drop off f = PutUint32 m @ PutUint32 sz @ ?b @ drop (off + 8 + unat sz) f"
    using drop_slice [of off "off + 4" f] drop_slice [of "off + 4" "off + 8" f]
      drop_slice [of "off + 8" "off + 8 + unat sz" f] by simp
  moreover have "80 \<le> unat sz" using big by (simp add: word_less_nat_alt not_less)
  moreover have "unat sz < 2 ^ 32" using unsigned_less [of sz] by simp
  ultimately have "valid_block ?b \<and> drop off f = frame m ?b @ drop (off + 8 + unat sz) f \<and> of_nat (length ?b) = sz
      \<and> take 80 ?b = slice (off + 8) 80 f"
    using b by (simp add: valid_block_def frame_def) (simp add: slice_def min_def)
  with io e show "?io \<and> ?io8 \<and> ?fr" unfolding block_hash_def by metis
next
  assume h: "?io \<and> ?io8 \<and> ?fr"
  then obtain b r where b: "valid_block b" "drop off f = frame m b @ r"
    and e: "e = \<lparr>BlockHash = block_hash b, FileOffset = int off, BlockDataSize = of_nat (length b)\<rparr>"
    by blast
  have len: "off + (8 + length b) \<le> length f" using frame_slices(3) [OF b(2)] assms by linarith
  have "80 \<le> length b" using b(1) by (simp add: valid_block_def)
  moreover have "slice 0 4 (slice off 8 f) = PutUint32 m" "slice 4 4 (slice off 8 f) = PutUint32 (of_nat (length b))"
    unfolding frame_slices(1) [OF b(2)] by (simp_all add: slice_def)
  ultimately show ?scan
    using h len frame_slices(2) [OF b(2), of 80] unat_block_length [OF b(1)]
    by (simp add: scan_one_def os_ReadAt_def word_less_nat_alt e block_hash_def)
qed

text \<open>The loop succeeds exactly on frames, when no read fails, and returns their entries.\<close>

lemma scan_loop_sound:
  assumes "scan_loop env path f m off = Inr es" "off \<le> length f"
  shows "\<exists>bs. list_all valid_block bs \<and> drop off f = frames m bs \<and> es = entries_of off bs"
  using assms
proof (induction env path f m off arbitrary: es rule: scan_loop.induct)
  case (1 env path f m off)
  show ?case
  proof (cases "off < length f")
    case False
    then show ?thesis
      using 1(2,3) by (subst (asm) scan_loop.simps) (auto simp: frames_def intro!: exI [where x = "[]"])
  next
    case True
    obtain e es' where e: "scan_one env path f m off = Inr e" and es: "es = e # es'"
      and rec: "scan_loop env path f m (off + (8 + unat (BlockDataSize e))) = Inr es'"
      using 1(2) True by (subst (asm) scan_loop.simps) (auto simp: result_iffs)
    obtain b r where b: "valid_block b" "drop off f = frame m b @ r"
      and eb: "e = \<lparr>BlockHash = block_hash b, FileOffset = int off, BlockDataSize = of_nat (length b)\<rparr>"
      using e unfolding scan_one_iff [OF True] by blast
    have off': "off + (8 + unat (BlockDataSize e)) = off + (8 + length b)"
      using unat_block_length [OF b(1)] by (simp add: eb)
    have "off + (8 + length b) \<le> length f" using frame_slices(3) [OF b(2)] True by linarith
    then obtain bs where bs: "list_all valid_block bs" "drop (off + (8 + length b)) f = frames m bs"
      "es' = entries_of (off + (8 + length b)) bs"
      using 1(1) [OF True e rec] unfolding off' by blast
    have "drop (8 + length b) (drop off f) = r" using b(2) by simp
    then have "r = frames m bs" using bs(2) by (simp add: ac_simps)
    then have "drop off f = frames m (b # bs)" using b(2) by (simp add: frames_def)
    then show ?thesis
      using bs b(1) es eb by (intro exI [where x = "b # bs"]) simp
  qed
qed

lemma scan_loop_complete:
  assumes "list_all valid_block bs" "drop off f = frames m bs" "off \<le> length f"
    "\<forall>k. fault env (SysReadAt path k) = None"
  shows "scan_loop env path f m off = Inr (entries_of off bs)"
  using assms
proof (induction bs arbitrary: off)
  case Nil
  then show ?case by (subst scan_loop.simps) (simp add: frames_def)
next
  case (Cons b bs)
  have b: "valid_block b" "drop off f = frame m b @ frames m bs"
    using Cons.prems by (simp_all add: frames_def)
  have off: "off < length f" using arg_cong [OF b(2), of length] by simp
  have len: "off + (8 + length b) \<le> length f" using frame_slices(3) [OF b(2)] off by linarith
  have "drop (8 + length b) (drop off f) = frames m bs" using b(2) by simp
  then have "drop (off + (8 + length b)) f = frames m bs" by (simp add: add.commute)
  then have "scan_loop env path f m (off + (8 + length b)) = Inr (entries_of (off + (8 + length b)) bs)"
    using Cons len by simp
  moreover have "scan_one env path f m off =
      Inr \<lparr>BlockHash = block_hash b, FileOffset = int off, BlockDataSize = of_nat (length b)\<rparr>"
    unfolding scan_one_iff [OF off] using b Cons.prems by blast
  ultimately show ?case
    using off by (subst scan_loop.simps) (simp add: unat_block_length [OF b(1)])
qed

text \<open>The entries of frames satisfy the invariant and cover the file without a gap.\<close>

lemma entries_of_stop:
  assumes "list_all valid_block bs" "e \<in> set (entries_of off bs)"
  shows "int off \<le> FileOffset e \<and> entry_stop e \<le> int (off + length (frames m bs))"
  using assms
proof (induction bs arbitrary: off)
  case (Cons b bs)
  then show ?case
    by (auto simp: frames_def entry_stop_def dest!: Cons.IH)
qed simp

lemma entries_of_wf:
  assumes "list_all valid_block bs" "int (off + length (frames m bs)) < 2 ^ 63"
  shows "entries_wf (entries_of off bs)"
  using assms
proof (induction bs arbitrary: off)
  case Nil
  then show ?case by (simp add: entries_wf_def)
next
  case (Cons b bs)
  have "entries_wf (entries_of (off + (8 + length b)) bs)"
    using Cons by (simp add: frames_def)
  moreover have "entry_stop \<lparr>BlockHash = block_hash b, FileOffset = int off, BlockDataSize = of_nat (length b)\<rparr>
      = int (off + (8 + length b))"
    using Cons.prems by (simp add: entry_stop_def)
  ultimately show ?case
    using Cons.prems entries_of_stop [of bs _ "off + (8 + length b)" m]
    by (auto simp: entries_wf_def frames_def)
qed

lemma entries_of_covers:
  assumes "list_all valid_block bs" "off \<le> x" "x < off + length (frames m bs)"
  shows "\<exists>e \<in> set (entries_of off bs). covers e (int x)"
  using assms
proof (induction bs arbitrary: off)
  case Nil
  then show ?case by (simp add: frames_def)
next
  case (Cons b bs)
  show ?case
  proof (cases "x < off + (8 + length b)")
    case True
    then show ?thesis
      using Cons.prems by (simp add: covers_def entry_stop_def)
  next
    case False
    then show ?thesis using Cons by (simp add: frames_def)
  qed
qed

text \<open>The hash in an entry is that of the header it points to.\<close>

lemma entries_of_hash:
  assumes "list_all valid_block bs" "drop off f = frames m bs" "e \<in> set (entries_of off bs)"
  shows "BlockHash e = Sum256 (Sum256 (slice (nat (FileOffset e) + 8) 80 f))"
  using assms
proof (induction bs arbitrary: off)
  case (Cons b bs)
  have b: "drop off f = frame m b @ frames m bs" "80 \<le> length b"
    using Cons.prems by (simp_all add: frames_def valid_block_def)
  have "slice (off + 8) 80 f = take 80 b" using frame_slices(2) [OF b(1), of 80] b(2) by simp
  moreover have "drop (off + (8 + length b)) f = frames m bs"
  proof -
    have "drop (8 + length b) (drop off f) = frames m bs" using b(1) by simp
    then show ?thesis by (simp add: ac_simps)
  qed
  ultimately show ?case using Cons by (auto simp: block_hash_def)
qed simp

section \<open>Properties\<close>

text \<open>
  The binary search finds the block that covers an offset when there is one, that one
  only, and nothing otherwise.
\<close>

theorem FindBlock_correct:
  assumes "blockmap_wf bm"
  shows "FindBlock bm x = Some e \<longleftrightarrow> e \<in> set (Entries bm) \<and> FileOffset e \<le> x \<and> x < entry_stop e"
  using FindBlock_iff [OF assms] by (simp add: covers_def)

definition example_map :: Blockmap where
  "example_map = \<lparr>Filename = ''blk00000.dat'', Entries =
     [\<lparr>BlockHash = replicate 32 1, FileOffset = 0, BlockDataSize = 100\<rparr>,
      \<lparr>BlockHash = replicate 32 2, FileOffset = 108, BlockDataSize = 200\<rparr>]\<rparr>"

lemma example_map_wf: "blockmap_wf example_map"
  by (simp add: blockmap_wf_def entries_wf_def example_map_def entry_stop_def)

theorem FindBlock_correct_witness:
  "FindBlock example_map 150 = Some \<lparr>BlockHash = replicate 32 2, FileOffset = 108, BlockDataSize = 200\<rparr>"
  using FindBlock_correct [OF example_map_wf, of 150] by (simp add: example_map_def entry_stop_def)

text \<open>
  The overlap query returns, in file order, exactly the blocks that the binary search finds
  at the offsets of the range.
\<close>

theorem FindBlocks_correct:
  assumes "blockmap_wf bm" "0 \<le> x" "0 < n" "x + n < 2 ^ 63"
  shows "set (FindBlocks bm x n) = {e. \<exists>y. x \<le> y \<and> y < x + n \<and> FindBlock bm y = Some e}
     \<and> subseq (FindBlocks bm x n) (Entries bm)"
proof -
  have f: "FindBlocks bm x n = filter (\<lambda>e. FileOffset e < x + n \<and> x < entry_stop e) (Entries bm)"
    using FindBlocks_iff [OF assms(1)] assms by simp
  show ?thesis
    unfolding f using overlap_covers [OF assms(3)] FindBlock_iff [OF assms(1)]
    by (auto simp: subseq_filter_left)
qed

theorem FindBlocks_correct_witness:
  "subseq (FindBlocks example_map 100 20) (Entries example_map)"
  using FindBlocks_correct [OF example_map_wf, of 100 20] by simp

text \<open>
  C11. Reading what \<open>Write\<close> wrote gives the entries in order of their offsets; only a blockmap of
  a million entries or more, which the writer accepts, is refused by the reader.
\<close>

theorem blockmap_roundtrip:
  assumes "list_all valid_entry (Entries bm)" "length (Entries bm) < 2 ^ 32"
  shows "bindE (run_buffer (Write (Some bm))) (\<lambda>bs. Read (bs @ r)) =
    (if length (Entries bm) < 1000000
     then Inr (\<lparr>Filename = [], Entries = sort_key FileOffset (Entries bm)\<rparr>, r)
     else Inl (ErrNew ''entry count too large''))"
  using Read_blockmap_bytes [OF assms, of r]
  by (simp add: emits_run_buffer [OF emits_Write] sort_entries_def)

theorem blockmap_roundtrip_witness:
  "bindE (run_buffer (Write (Some example_map))) (\<lambda>bs. Read (bs @ [])) =
     Inr (\<lparr>Filename = [], Entries = Entries example_map\<rparr>, [])"
  using blockmap_roundtrip [of example_map "[]"] by (simp add: example_map_def valid_entry_def in_int64_def)

text \<open>
  \<open>WriteFile\<close> is atomic under every combination of failing system calls: when it reports
  success the file reads back as the blockmap, otherwise the file is what it was; no other
  file changes but the temporary one.
\<close>

theorem blockmap_WriteFile_atomic:
  assumes "WriteFile env path (Some bm) d = (err, d')" "list_all valid_entry (Entries bm)"
    and "length (Entries bm) < 1000000"
  shows "(err = None \<longrightarrow> (\<exists>name. ReadFile io_ok d' path = Inr \<lparr>Filename = name, Entries = sort_key FileOffset (Entries bm)\<rparr>))
     \<and> (err \<noteq> None \<longrightarrow> d' path = d path)
     \<and> (\<forall>q. q \<noteq> path \<longrightarrow> q \<noteq> path @ ''.tmp.'' @ tmp_suffix env \<longrightarrow> d' q = d q)"
proof -
  have "Read (blockmap_bytes bm) = Inr (\<lparr>Filename = [], Entries = sort_key FileOffset (Entries bm)\<rparr>, [])"
    using Read_blockmap_bytes [of bm "[]"] assms(2,3) by (simp add: sort_entries_def)
  then show ?thesis
    using WriteFile_atomic [OF assms(1)] by (auto simp: ReadFile_def os_Open_def Let_def)
qed

theorem blockmap_WriteFile_atomic_witness:
  "snd (WriteFile (io_ok\<lparr>fault := (\<lambda>c. if c = SysRename ''b.tmp.0'' ''b'' then Some (ErrIO ''rename'') else None)\<rparr>)
     ''b'' (Some example_map) Map.empty) ''b'' = None"
proof -
  let ?env = "io_ok\<lparr>fault := (\<lambda>c. if c = SysRename ''b.tmp.0'' ''b'' then Some (ErrIO ''rename'') else None)\<rparr>"
  obtain err d' where w: "WriteFile ?env ''b'' (Some example_map) Map.empty = (err, d')" by fastforce
  have s: "tmp_suffix ?env = ''0''" using tmp_suffix_ok by (simp add: tmp_suffix_def)
  have "err \<noteq> None"
    using w by (auto simp: WriteFile_def write_atomic_def s os_Rename_def path_Dir_def Let_def
        split: prod.splits option.splits)
  then show ?thesis
    using blockmap_WriteFile_atomic [OF w] w by (simp add: example_map_def valid_entry_def in_int64_def)
qed

lemma ScanBlkFile_loop:
  assumes "d path = Some f" "\<forall>c. fault env c = None"
  shows "ScanBlkFile env d path magic =
    bindE (scan_loop env path f magic 0) (\<lambda>entries. Inr \<lparr>Filename = path_Base path, Entries = entries\<rparr>)"
  using assms by (simp add: ScanBlkFile_def os_Open_def) (subst scan_loop.simps, simp)

lemma ScanBlkFile_accepts:
  assumes "list_all valid_block bs" "d path = Some (frames magic bs)" "\<forall>c. fault env c = None"
  shows "ScanBlkFile env d path magic = Inr \<lparr>Filename = path_Base path, Entries = entries_of 0 bs\<rparr>"
  using scan_loop_complete [of bs 0 "frames magic bs" magic env path] assms by (simp add: ScanBlkFile_loop)

text \<open>
  C12. The scanner accepts exactly the files that are a sequence of whole frames of the network,
  each with at least a block header, and returns their hashes, positions and sizes.
\<close>

theorem ScanBlkFile_iff:
  assumes "d path = Some f" "\<forall>c. fault env c = None"
  shows "ScanBlkFile env d path magic = Inr bm \<longleftrightarrow>
    (\<exists>bs. list_all valid_block bs \<and> f = frames magic bs
       \<and> bm = \<lparr>Filename = path_Base path, Entries = entries_of 0 bs\<rparr>)"
proof -
  have "ScanBlkFile env d path magic =
      bindE (scan_loop env path f magic 0) (\<lambda>entries. Inr \<lparr>Filename = path_Base path, Entries = entries\<rparr>)"
    using assms by (rule ScanBlkFile_loop)
  moreover have "scan_loop env path f magic 0 = Inr es \<longleftrightarrow>
      (\<exists>bs. list_all valid_block bs \<and> f = frames magic bs \<and> es = entries_of 0 bs)" for es
    using scan_loop_sound [of env path f magic 0 es] scan_loop_complete [of _ 0 f magic env path] assms(2) by auto
  ultimately show ?thesis by (auto simp: result_iffs)
qed

theorem ScanBlkFile_iff_witness:
  "ScanBlkFile io_ok [''blk00000.dat'' \<mapsto> frames 0xD9B4BEF9 [replicate 80 3]] ''blk00000.dat'' 0xD9B4BEF9 =
     Inr \<lparr>Filename = path_Base ''blk00000.dat'', Entries = entries_of 0 [replicate 80 3]\<rparr>"
  using ScanBlkFile_iff [of "[''blk00000.dat'' \<mapsto> frames 0xD9B4BEF9 [replicate 80 3]]" "''blk00000.dat''" _ io_ok]
  by (auto simp: valid_block_def intro!: exI [where x = "[replicate 80 3]"])

text \<open>
  A scanned blockmap indexes the whole file: the invariant of the lookups holds, every offset
  is found in exactly one block, and the hash of the block is that of the header in the file.
\<close>

theorem scan_indexes_file:
  assumes "ScanBlkFile env d path magic = Inr bm" "d path = Some f" "length f < 2 ^ 62" "x < length f"
  shows "blockmap_wf bm \<and> (\<exists>e \<in> set (Entries bm). FindBlock bm (int x) = Some e
     \<and> FileOffset e \<le> int x \<and> int x < FileOffset e + uint (BlockDataSize e) + 8
     \<and> BlockHash e = Sum256 (Sum256 (slice (nat (FileOffset e) + 8) 80 f)))"
proof -
  obtain es where es: "scan_loop env path f magic 0 = Inr es" "Entries bm = es"
    using assms(1,2,4) by (auto simp: ScanBlkFile_def result_iffs split: if_splits)
  obtain bs where bs: "list_all valid_block bs" "f = frames magic bs" "es = entries_of 0 bs"
    using scan_loop_sound [OF es(1)] by auto
  have wf: "blockmap_wf bm"
    using entries_of_wf [OF bs(1), of 0 magic] bs(2,3) es(2) assms(3) by (simp add: blockmap_wf_def)
  moreover obtain e where e: "e \<in> set (Entries bm)" "covers e (int x)"
    using entries_of_covers [OF bs(1), of 0 x magic] bs(2,3) es(2) assms(4) by auto
  moreover have "FindBlock bm (int x) = Some e" using FindBlock_iff [OF wf] e by simp
  moreover have "BlockHash e = Sum256 (Sum256 (slice (nat (FileOffset e) + 8) 80 f))"
    using entries_of_hash [OF bs(1), of 0 f magic e] bs(2,3) es(2) e(1) by simp
  ultimately show ?thesis by (auto simp: covers_def entry_stop_def intro!: bexI [where x = e])
qed

theorem scan_indexes_file_witness:
  "\<exists>e. FindBlock \<lparr>Filename = path_Base ''b'', Entries = entries_of 0 [replicate 80 3]\<rparr> (int 5) = Some e"
proof -
  have "ScanBlkFile io_ok [''b'' \<mapsto> frames 1 [replicate 80 3]] ''b'' 1 =
      Inr \<lparr>Filename = path_Base ''b'', Entries = entries_of 0 [replicate 80 3]\<rparr>"
    using ScanBlkFile_accepts [of "[replicate 80 3]" "[''b'' \<mapsto> frames 1 [replicate 80 3]]" "''b''" 1 io_ok]
    by (simp add: valid_block_def)
  from scan_indexes_file [OF this, of "frames 1 [replicate 80 3]" 5] show ?thesis
    by (auto simp: frames_def)
qed

end
