(* ===== verification/Store.thy ===== *)
theory Store
  imports Prelude "HOL-Library.Option_ord" "HOL-Library.Multiset"
begin

text \<open>
  \<open>internal/store\<close>: the metadata of the managed files. The table \<open>file_states\<close> is the list
  of its rows in rowid order; each operation is its SQL statement on that list. What SQL
  leaves open is in the environment of the engine: the order in which rows that a statement
  does not order are delivered, and which step fails. Times are nanoseconds since the Unix
  epoch. Shown: the table keeps its constraints, an operation that fails changes nothing,
  and the operations satisfy the laws that the rest of the program relies on (locale
  \<open>file_store\<close>).
\<close>

section \<open>Types\<close>

datatype FileState =
    FileStateActive
  | FileStateLocalFinalized
  | FileStateCached
  | FileStateRemote
  | FileStateOther string

datatype FileSource = FileSourceServer | FileSourceLocal | FileSourceOther string

type_synonym time = int

definition zero_time :: time where
  "zero_time = - 62135596800 * 10 ^ 9"

record FileEntry =
  fe_Filename :: string
  fe_State :: FileState
  fe_Source :: FileSource
  fe_Size :: int
  fe_SHA256 :: string
  fe_CreatedAt :: time
  fe_LastAccess :: time
  fe_HeightFirst :: int
  fe_HeightLast :: int

definition MaxBlockFileSize :: int where
  "MaxBlockFileSize = 128 * 1024 * 1024"

definition FinalizedFileThreshold :: int where
  "FinalizedFileThreshold = MaxBlockFileSize - 4 * 1024 * 1024"

section \<open>Rows\<close>

record Row =
  c_filename :: string
  c_state :: FileState
  c_source :: FileSource
  c_size :: int
  c_sha256 :: "string option"
  c_created_at :: int
  c_last_access :: "int option"
  c_height_first :: "int option"
  c_height_last :: "int option"

definition toUnix :: "time \<Rightarrow> int" where
  "toUnix t = (if t = zero_time then 0 else t div 10 ^ 9)"

definition fromUnix :: "int \<Rightarrow> time" where
  "fromUnix unix = (if unix = 0 then zero_time else unix * 10 ^ 9)"

definition nullStr :: "string \<Rightarrow> string option" where
  "nullStr s = (if s = [] then None else Some s)"

definition nullI64 :: "int \<Rightarrow> int option" where
  "nullI64 v = (if v = 0 then None else Some v)"

definition scanEntry :: "Row \<Rightarrow> FileEntry" where
  "scanEntry row =
     \<lparr>fe_Filename = c_filename row, fe_State = c_state row, fe_Source = c_source row,
      fe_Size = c_size row,
      fe_SHA256 = (case c_sha256 row of None \<Rightarrow> [] | Some s \<Rightarrow> s),
      fe_CreatedAt = fromUnix (c_created_at row),
      fe_LastAccess = (case c_last_access row of None \<Rightarrow> zero_time | Some u \<Rightarrow> fromUnix u),
      fe_HeightFirst = (case c_height_first row of None \<Rightarrow> 0 | Some h \<Rightarrow> h),
      fe_HeightLast = (case c_height_last row of None \<Rightarrow> 0 | Some h \<Rightarrow> h)\<rparr>"

definition row_of :: "FileEntry \<Rightarrow> Row" where
  "row_of entry =
     \<lparr>c_filename = fe_Filename entry, c_state = fe_State entry, c_source = fe_Source entry,
      c_size = fe_Size entry, c_sha256 = nullStr (fe_SHA256 entry),
      c_created_at = toUnix (fe_CreatedAt entry),
      c_last_access = nullI64 (toUnix (fe_LastAccess entry)),
      c_height_first = nullI64 (fe_HeightFirst entry), c_height_last = nullI64 (fe_HeightLast entry)\<rparr>"

text \<open>The \<open>CHECK\<close> constraints of the schema.\<close>

fun state_check :: "FileState \<Rightarrow> bool" where
  "state_check (FileStateOther s) = False"
| "state_check _ = True"

fun source_check :: "FileSource \<Rightarrow> bool" where
  "source_check (FileSourceOther s) = False"
| "source_check _ = True"

definition row_check :: "Row \<Rightarrow> bool" where
  "row_check r \<longleftrightarrow> state_check (c_state r) \<and> source_check (c_source r)"

definition db_inv :: "Row list \<Rightarrow> bool" where
  "db_inv db \<longleftrightarrow> distinct (map c_filename db) \<and> list_all row_check db"

section \<open>Statements\<close>

record db_env =
  db_fault :: "string \<Rightarrow> go_error option"
  row_order :: "Row list \<Rightarrow> Row list"

text \<open>The engine delivers each row of a result once.\<close>

definition engine_ok :: "db_env \<Rightarrow> bool" where
  "engine_ok env \<longleftrightarrow> (\<forall>rs. mset (row_order env rs) = mset rs)"

definition db_ok :: db_env where
  "db_ok = \<lparr>db_fault = (\<lambda>_. None), row_order = (\<lambda>rs. rs)\<rparr>"

type_synonym db_op = "Row list \<Rightarrow> go_error option \<times> Row list"

text \<open>
  \<open>execImmediate\<close>: one statement in a transaction of its own. The statement itself fails
  when a constraint does not hold of the rows it would leave.
\<close>

definition execImmediate :: "db_env \<Rightarrow> (Row list \<Rightarrow> Row list) \<Rightarrow> db_op" where
  "execImmediate env query db =
     (case db_fault env ''conn'' of
        Some e \<Rightarrow> (Some (Errorf ''store: conn'' e), db)
      | None \<Rightarrow>
     (case db_fault env ''BEGIN IMMEDIATE'' of
        Some e \<Rightarrow> (Some (Errorf ''store: BEGIN IMMEDIATE'' e), db)
      | None \<Rightarrow>
     (case (if list_all row_check (query db) then db_fault env ''exec''
            else Some (ErrNew ''CHECK constraint failed'')) of
        Some e \<Rightarrow> (Some (Errorf ''store: exec'' e), db)
      | None \<Rightarrow>
     (case db_fault env ''COMMIT'' of
        Some e \<Rightarrow> (Some (Errorf ''store: commit'' e), db)
      | None \<Rightarrow> (None, query db)))))"

definition GetFile :: "db_env \<Rightarrow> Row list \<Rightarrow> string \<Rightarrow> FileEntry result" where
  "GetFile env db filename =
     (case db_fault env ''GetFile'' of
        Some e \<Rightarrow> Inl (Errorf ''store: GetFile'' e)
      | None \<Rightarrow>
          (case find (\<lambda>r. c_filename r = filename) db of
             None \<Rightarrow> Inl (ErrNew (''store: file not found: '' @ filename))
           | Some row \<Rightarrow> Inr (scanEntry row)))"

definition ListFiles :: "db_env \<Rightarrow> Row list \<Rightarrow> FileEntry list result" where
  "ListFiles env db =
     (case db_fault env ''ListFiles'' of
        Some e \<Rightarrow> Inl (Errorf ''store: ListFiles'' e)
      | None \<Rightarrow> Inr (map scanEntry (row_order env db)))"

definition ListByState :: "db_env \<Rightarrow> Row list \<Rightarrow> FileState \<Rightarrow> FileEntry list result" where
  "ListByState env db state =
     (case db_fault env ''ListByState'' of
        Some e \<Rightarrow> Inl (Errorf ''store: ListByState'' e)
      | None \<Rightarrow> Inr (map scanEntry (row_order env (filter (\<lambda>r. c_state r = state) db))))"

text \<open>\<open>NULL\<close> sorts first; a negative \<open>LIMIT\<close> is no limit.\<close>

definition ListCachedByLRU :: "db_env \<Rightarrow> Row list \<Rightarrow> int \<Rightarrow> FileEntry list result" where
  "ListCachedByLRU env db limit =
     (case db_fault env ''ListCachedByLRU'' of
        Some e \<Rightarrow> Inl (Errorf ''store: ListCachedByLRU'' e)
      | None \<Rightarrow>
          let rows = sort_key c_last_access (row_order env (filter (\<lambda>r. c_state r = FileStateCached) db))
          in Inr (map scanEntry (if limit < 0 then rows else take (nat limit) rows)))"

text \<open>The conflict clause sets every column but the key, so the row takes the new values in place.\<close>

definition upsert_rows :: "Row \<Rightarrow> Row list \<Rightarrow> Row list" where
  "upsert_rows row db =
     (if c_filename row \<in> c_filename ` set db
      then map (\<lambda>r. if c_filename r = c_filename row then row else r) db
      else db @ [row])"

definition UpsertFile :: "db_env \<Rightarrow> FileEntry \<Rightarrow> db_op" where
  "UpsertFile env entry = execImmediate env (upsert_rows (row_of entry))"

definition UpdateState :: "db_env \<Rightarrow> string \<Rightarrow> FileState \<Rightarrow> db_op" where
  "UpdateState env filename state =
     execImmediate env (map (\<lambda>r. if c_filename r = filename then r\<lparr>c_state := state\<rparr> else r))"

definition UpdateLastAccess :: "db_env \<Rightarrow> string \<Rightarrow> time \<Rightarrow> db_op" where
  "UpdateLastAccess env filename t =
     execImmediate env (map (\<lambda>r. if c_filename r = filename then r\<lparr>c_last_access := Some (toUnix t)\<rparr> else r))"

definition DeleteFile :: "db_env \<Rightarrow> string \<Rightarrow> db_op" where
  "DeleteFile env filename = execImmediate env (filter (\<lambda>r. c_filename r \<noteq> filename))"

section \<open>The table as a map\<close>

text \<open>What the table says of a file, whatever the engine does.\<close>

definition lookup :: "Row list \<Rightarrow> string \<Rightarrow> FileEntry option" where
  "lookup db f = map_option scanEntry (find (\<lambda>r. c_filename r = f) db)"

text \<open>An entry as it reads back: times in whole seconds, and the second 0 as the zero time.\<close>

definition stored :: "FileEntry \<Rightarrow> FileEntry" where
  "stored e = e\<lparr>fe_CreatedAt := fromUnix (toUnix (fe_CreatedAt e)),
                fe_LastAccess := fromUnix (toUnix (fe_LastAccess e))\<rparr>"

lemma scanEntry_row_of: "scanEntry (row_of e) = stored e"
  by (cases e) (auto simp: scanEntry_def row_of_def stored_def nullStr_def nullI64_def fromUnix_def)

lemma scanEntry_simps [simp]:
  "fe_Filename (scanEntry r) = c_filename r" "fe_State (scanEntry r) = c_state r"
  by (simp_all add: scanEntry_def)

lemma c_row_of [simp]: "c_filename (row_of e) = fe_Filename e" "c_state (row_of e) = fe_State e"
  "c_source (row_of e) = fe_Source e"
  by (simp_all add: row_of_def)

lemma stored_simps [simp]:
  "fe_Filename (stored e) = fe_Filename e" "fe_State (stored e) = fe_State e" "fe_Source (stored e) = fe_Source e"
  "fe_Size (stored e) = fe_Size e" "fe_SHA256 (stored e) = fe_SHA256 e"
  by (simp_all add: stored_def)

lemma stored_idem [simp]: "stored (stored e) = stored e"
proof -
  have "toUnix (fromUnix u) = u" if "u \<noteq> zero_time div 10 ^ 9" for u
    using that by (auto simp: toUnix_def fromUnix_def zero_time_def)
  moreover have "fromUnix (zero_time div 10 ^ 9) = zero_time" by (simp add: fromUnix_def zero_time_def)
  ultimately have "fromUnix (toUnix (fromUnix u)) = fromUnix u" for u
    by (cases "u = zero_time div 10 ^ 9") (auto simp: toUnix_def fromUnix_def)
  then show ?thesis by (simp add: stored_def)
qed

lemma GetFile_lookup:
  "GetFile env db f =
     (case db_fault env ''GetFile'' of
        Some e \<Rightarrow> Inl (Errorf ''store: GetFile'' e)
      | None \<Rightarrow> (case lookup db f of None \<Rightarrow> Inl (ErrNew (''store: file not found: '' @ f)) | Some e \<Rightarrow> Inr e))"
  by (auto simp: GetFile_def lookup_def split: option.splits)

lemma lookup_simps [simp]:
  "lookup [] f = None"
  "lookup (r # db) f = (if c_filename r = f then Some (scanEntry r) else lookup db f)"
  by (simp_all add: lookup_def)

lemma lookup_append [simp]: "lookup (a @ b) f = (case lookup a f of None \<Rightarrow> lookup b f | Some e \<Rightarrow> Some e)"
  by (induction a) auto

lemma lookup_None_iff: "lookup db f = None \<longleftrightarrow> f \<notin> c_filename ` set db"
  by (induction db) auto

lemma lookup_Some_iff:
  "distinct (map c_filename db) \<Longrightarrow>
     lookup db f = Some e \<longleftrightarrow> (\<exists>r \<in> set db. c_filename r = f \<and> e = scanEntry r)"
  by (induction db) (auto simp: rev_image_eqI)

lemma lookup_Filename: "lookup db f = Some e \<Longrightarrow> fe_Filename e = f"
  by (induction db) (auto split: if_splits)

lemma lookup_replace_other:
  "c_filename row = f \<Longrightarrow> g \<noteq> f \<Longrightarrow> lookup (map (\<lambda>r. if c_filename r = f then row else r) db) g = lookup db g"
  by (induction db) auto

lemma lookup_replace_same:
  "c_filename row = f \<Longrightarrow> f \<in> c_filename ` set db \<Longrightarrow>
     lookup (map (\<lambda>r. if c_filename r = f then row else r) db) f = Some (scanEntry row)"
  by (induction db) auto

lemma lookup_upsert_rows:
  "lookup (upsert_rows (row_of e) db) = (lookup db)(fe_Filename e \<mapsto> stored e)"
proof
  fix f
  have "lookup db (fe_Filename e) = None" if "fe_Filename e \<notin> c_filename ` set db"
    using that by (simp add: lookup_None_iff)
  then show "lookup (upsert_rows (row_of e) db) f = ((lookup db)(fe_Filename e \<mapsto> stored e)) f"
    using lookup_replace_other [of "row_of e" "fe_Filename e" f db]
      lookup_replace_same [of "row_of e" "fe_Filename e" db]
    by (simp add: upsert_rows_def scanEntry_row_of split: option.split)
qed

lemma lookup_update:
  assumes "\<And>r. c_filename (g r) = c_filename r" "\<And>r. scanEntry (g r) = u (scanEntry r)"
  shows "lookup (map (\<lambda>r. if c_filename r = f then g r else r) db) = (lookup db)(f := map_option u (lookup db f))"
  by (induction db) (auto simp: fun_eq_iff assms)

lemma lookup_filter: "lookup (filter (\<lambda>r. c_filename r \<noteq> f) db) = (lookup db)(f := None)"
  by (induction db) (auto simp: fun_eq_iff)

section \<open>Transactions\<close>

text \<open>A transaction that fails changes nothing, one that succeeds has run its statement.\<close>

lemma execImmediate_cases:
  "execImmediate env q db = (err, db') \<Longrightarrow>
     (err = None \<and> db' = q db \<and> list_all row_check (q db)) \<or> (\<exists>e. err = Some e \<and> db' = db)"
  by (auto simp: execImmediate_def split: option.splits if_splits)

lemma execImmediate_ok:
  "execImmediate db_ok q db =
     (if list_all row_check (q db) then (None, q db)
      else (Some (Errorf ''store: exec'' (ErrNew ''CHECK constraint failed'')), db))"
  by (simp add: execImmediate_def db_ok_def)

lemma execImmediate_inv:
  assumes "execImmediate env q db = (err, db')" "db_inv db"
    and "distinct (map c_filename (q db))"
  shows "db_inv db'"
  using execImmediate_cases [OF assms(1)] assms by (auto simp: db_inv_def)

lemma distinct_map_filename:
  "(\<And>r. c_filename (g r) = c_filename r) \<Longrightarrow> distinct (map c_filename db) \<Longrightarrow> distinct (map c_filename (map g db))"
  by (simp add: comp_def)

lemma distinct_upsert_rows: "db_inv db \<Longrightarrow> distinct (map c_filename (upsert_rows row db))"
  using distinct_map_filename [of "\<lambda>r. if c_filename r = c_filename row then row else r" db]
  by (simp add: upsert_rows_def db_inv_def)

lemma store_ops_inv:
  assumes "db_inv db"
  shows "UpsertFile env e db = (err, db') \<Longrightarrow> db_inv db'"
    "UpdateState env f s db = (err, db') \<Longrightarrow> db_inv db'"
    "UpdateLastAccess env f t db = (err, db') \<Longrightarrow> db_inv db'"
    "DeleteFile env f db = (err, db') \<Longrightarrow> db_inv db'"
proof -
  have d: "distinct (map c_filename db)" using assms by (simp add: db_inv_def)
  show "UpsertFile env e db = (err, db') \<Longrightarrow> db_inv db'"
    unfolding UpsertFile_def by (erule execImmediate_inv [OF _ assms]) (rule distinct_upsert_rows [OF assms])
  show "UpdateState env f s db = (err, db') \<Longrightarrow> db_inv db'"
    unfolding UpdateState_def by (erule execImmediate_inv [OF _ assms]) (rule distinct_map_filename [OF _ d], simp)
  show "UpdateLastAccess env f t db = (err, db') \<Longrightarrow> db_inv db'"
    unfolding UpdateLastAccess_def by (erule execImmediate_inv [OF _ assms]) (rule distinct_map_filename [OF _ d], simp)
  show "DeleteFile env f db = (err, db') \<Longrightarrow> db_inv db'"
    unfolding DeleteFile_def by (erule execImmediate_inv [OF _ assms]) (simp add: distinct_map_filter d)
qed

text \<open>Without database failures an entry with valid state and source is taken, and a name can be deleted.\<close>

lemma UpsertFile_ok:
  assumes "db_inv db" "state_check (fe_State e)" "source_check (fe_Source e)"
  shows "UpsertFile db_ok e db = (None, upsert_rows (row_of e) db)"
proof -
  have "list_all row_check (upsert_rows (row_of e) db)"
    using assms by (auto simp: upsert_rows_def db_inv_def list_all_iff row_check_def)
  then show ?thesis by (simp add: UpsertFile_def execImmediate_ok)
qed

lemma DeleteFile_ok: "db_inv db \<Longrightarrow> DeleteFile db_ok f db = (None, filter (\<lambda>r. c_filename r \<noteq> f) db)"
  by (auto simp: DeleteFile_def execImmediate_ok db_inv_def list_all_iff)

section \<open>The interface\<close>

text \<open>
  What the file system and the daemon rely on in a \<open>store.Store\<close>: each operation either
  fails and changes nothing, or has its effect on the map from names to entries.
\<close>

locale file_store =
  fixes get :: "'s \<Rightarrow> string \<Rightarrow> FileEntry option"
    and upsert :: "FileEntry \<Rightarrow> 's \<Rightarrow> go_error option \<times> 's"
    and set_state :: "string \<Rightarrow> FileState \<Rightarrow> 's \<Rightarrow> go_error option \<times> 's"
    and touch :: "string \<Rightarrow> time \<Rightarrow> 's \<Rightarrow> go_error option \<times> 's"
    and delete :: "string \<Rightarrow> 's \<Rightarrow> go_error option \<times> 's"
  assumes upsert_cases: "upsert e s = (err, s') \<Longrightarrow>
      (err = None \<and> get s' = (get s)(fe_Filename e \<mapsto> stored e)) \<or> (err \<noteq> None \<and> s' = s)"
    and set_state_cases: "set_state f st s = (err, s') \<Longrightarrow>
      (err = None \<and> get s' = (get s)(f := map_option (\<lambda>e. e\<lparr>fe_State := st\<rparr>) (get s f))) \<or> (err \<noteq> None \<and> s' = s)"
    and touch_cases: "touch f t s = (err, s') \<Longrightarrow>
      (err = None \<and> get s' = (get s)(f := map_option (\<lambda>e. e\<lparr>fe_LastAccess := fromUnix (toUnix t)\<rparr>) (get s f)))
      \<or> (err \<noteq> None \<and> s' = s)"
    and delete_cases: "delete f s = (err, s') \<Longrightarrow>
      (err = None \<and> get s' = (get s)(f := None)) \<or> (err \<noteq> None \<and> s' = s)"
begin

text \<open>The state that a file is in.\<close>

lemma state_after:
  "upsert e s = (err, s') \<Longrightarrow> g \<noteq> fe_Filename e \<Longrightarrow> get s' g = get s g"
  "set_state f st s = (err, s') \<Longrightarrow> g \<noteq> f \<Longrightarrow> get s' g = get s g"
  "touch f t s = (err, s') \<Longrightarrow> g \<noteq> f \<Longrightarrow> get s' g = get s g"
  "delete f s = (err, s') \<Longrightarrow> g \<noteq> f \<Longrightarrow> get s' g = get s g"
  by (auto dest!: upsert_cases set_state_cases touch_cases delete_cases)

lemma touch_state: "touch f t s = (err, s') \<Longrightarrow> map_option fe_State (get s' g) = map_option fe_State (get s g)"
  by (auto dest!: touch_cases simp: option.map_comp comp_def)

lemma touch_None_iff: "touch f t s = (err, s') \<Longrightarrow> get s' g = None \<longleftrightarrow> get s g = None"
  by (auto dest!: touch_cases split: if_splits)

lemma upsert_delete:
  "upsert e s = (None, s1) \<Longrightarrow> delete (fe_Filename e) s1 = (None, s2) \<Longrightarrow> get s (fe_Filename e) = None
     \<Longrightarrow> get s2 = get s"
  by (auto dest!: upsert_cases delete_cases simp: fun_eq_iff)

end

interpretation sqlite: file_store lookup "UpsertFile env" "UpdateState env" "UpdateLastAccess env" "DeleteFile env"
proof
  show "UpsertFile env e s = (err, s') \<Longrightarrow>
      (err = None \<and> lookup s' = (lookup s)(fe_Filename e \<mapsto> stored e)) \<or> (err \<noteq> None \<and> s' = s)" for e s err s'
    by (auto simp: UpsertFile_def lookup_upsert_rows dest!: execImmediate_cases)
  show "UpdateState env f st s = (err, s') \<Longrightarrow>
      (err = None \<and> lookup s' = (lookup s)(f := map_option (\<lambda>e. e\<lparr>fe_State := st\<rparr>) (lookup s f)))
      \<or> (err \<noteq> None \<and> s' = s)" for f st s err s'
    using lookup_update [of "\<lambda>r. r\<lparr>c_state := st\<rparr>" "\<lambda>e. e\<lparr>fe_State := st\<rparr>" f s]
    by (auto simp: UpdateState_def scanEntry_def dest!: execImmediate_cases)
  show "UpdateLastAccess env f t s = (err, s') \<Longrightarrow>
      (err = None \<and> lookup s' = (lookup s)(f := map_option (\<lambda>e. e\<lparr>fe_LastAccess := fromUnix (toUnix t)\<rparr>) (lookup s f)))
      \<or> (err \<noteq> None \<and> s' = s)" for f t s err s'
    using lookup_update [of "\<lambda>r. r\<lparr>c_last_access := Some (toUnix t)\<rparr>" "\<lambda>e. e\<lparr>fe_LastAccess := fromUnix (toUnix t)\<rparr>" f s]
    by (auto simp: UpdateLastAccess_def scanEntry_def dest!: execImmediate_cases)
  show "DeleteFile env f s = (err, s') \<Longrightarrow>
      (err = None \<and> lookup s' = (lookup s)(f := None)) \<or> (err \<noteq> None \<and> s' = s)" for f s err s'
    by (auto simp: DeleteFile_def lookup_filter dest!: execImmediate_cases)
qed

text \<open>The listings: the entries of the table, each once.\<close>

lemma set_row_order: "engine_ok env \<Longrightarrow> set (row_order env rs) = set rs"
  by (metis engine_ok_def set_mset_mset)

lemma mset_ListFiles:
  "engine_ok env \<Longrightarrow> ListFiles env db = Inr es \<Longrightarrow> mset es = mset (map scanEntry db)"
  by (auto simp: ListFiles_def engine_ok_def split: option.splits)

lemma ListByState_iff:
  "engine_ok env \<Longrightarrow> db_inv db \<Longrightarrow> ListByState env db st = Inr es \<Longrightarrow>
     e \<in> set es \<longleftrightarrow> lookup db (fe_Filename e) = Some e \<and> fe_State e = st"
  by (auto simp: ListByState_def lookup_Some_iff db_inv_def set_row_order split: option.splits) blast

text \<open>
  The LRU listing is sorted by last access, holds cached files only, and a file left out was
  used no earlier than those in the list.
\<close>

lemma ListCachedByLRU_rows:
  assumes "engine_ok env" "ListCachedByLRU env db limit = Inr es"
  shows "\<exists>rows rest. es = map scanEntry rows \<and> mset (rows @ rest) = mset (filter (\<lambda>r. c_state r = FileStateCached) db)
     \<and> sorted (map c_last_access (rows @ rest)) \<and> (limit < 0 \<longrightarrow> rest = []) \<and> (0 \<le> limit \<longrightarrow> int (length rows) \<le> limit)"
proof -
  let ?rows = "sort_key c_last_access (row_order env (filter (\<lambda>r. c_state r = FileStateCached) db))"
  let ?n = "if limit < 0 then length ?rows else nat limit"
  have "es = map scanEntry (take ?n ?rows)"
    using assms(2) by (auto simp: ListCachedByLRU_def Let_def split: option.splits)
  moreover have "mset ?rows = mset (filter (\<lambda>r. c_state r = FileStateCached) db)"
    using assms(1) by (simp add: engine_ok_def)
  ultimately show ?thesis
    by (intro exI [where x = "take ?n ?rows"] exI [where x = "drop ?n ?rows"]) auto
qed

section \<open>Sequences of operations\<close>

text \<open>
  The operations that change the table, as commands, with their effect on the map from names
  to entries; a sequence of them runs each in an environment of its own.
\<close>

datatype db_cmd = CUpsert FileEntry | CState string FileState | CTouch string time | CDelete string

fun exec_cmd :: "db_env \<Rightarrow> db_cmd \<Rightarrow> db_op" where
  "exec_cmd env (CUpsert e) = UpsertFile env e"
| "exec_cmd env (CState f st) = UpdateState env f st"
| "exec_cmd env (CTouch f t) = UpdateLastAccess env f t"
| "exec_cmd env (CDelete f) = DeleteFile env f"

fun map_cmd :: "db_cmd \<Rightarrow> (string \<rightharpoonup> FileEntry) \<Rightarrow> (string \<rightharpoonup> FileEntry)" where
  "map_cmd (CUpsert e) m = m(fe_Filename e \<mapsto> stored e)"
| "map_cmd (CState f st) m = m(f := map_option (\<lambda>e. e\<lparr>fe_State := st\<rparr>) (m f))"
| "map_cmd (CTouch f t) m = m(f := map_option (\<lambda>e. e\<lparr>fe_LastAccess := fromUnix (toUnix t)\<rparr>) (m f))"
| "map_cmd (CDelete f) m = m(f := None)"

text \<open>The commands that were committed, and the table after them.\<close>

fun exec_all :: "(db_env \<times> db_cmd) list \<Rightarrow> Row list \<Rightarrow> db_cmd list \<times> Row list" where
  "exec_all [] db = ([], db)"
| "exec_all ((env, c) # cs) db =
     (case exec_cmd env c db of (err, db1) \<Rightarrow>
      case exec_all cs db1 of (done, db2) \<Rightarrow> (if err = None then c # done else done, db2))"

lemma exec_cmd_cases:
  "exec_cmd env c db = (err, db') \<Longrightarrow>
     (err = None \<and> lookup db' = map_cmd c (lookup db)) \<or> (err \<noteq> None \<and> db' = db)"
  by (cases c) (auto dest: sqlite.upsert_cases sqlite.set_state_cases sqlite.touch_cases sqlite.delete_cases)

lemma exec_cmd_inv: "exec_cmd env c db = (err, db') \<Longrightarrow> db_inv db \<Longrightarrow> db_inv db'"
  by (cases c) (auto dest: store_ops_inv)

section \<open>Properties\<close>

text \<open>
  C9. The table refines a map from names to entries: over any sequence of upserts, state
  changes, touches and deletes, each under its own database faults, the table keeps one row
  per name and the schema's checks, and reads like the map to which exactly the committed
  operations were applied in order. An operation that reports an error has no effect.
\<close>

theorem store_refines_map:
  assumes "db_inv db" "exec_all cs db = (committed, db')"
  shows "db_inv db' \<and> lookup db' = foldl (\<lambda>m c. map_cmd c m) (lookup db) committed"
  using assms
proof (induction cs db arbitrary: committed rule: exec_all.induct)
  case (2 env c cs db)
  obtain err db1 where 1: "exec_cmd env c db = (err, db1)" by fastforce
  obtain rest db2 where r: "exec_all cs db1 = (rest, db2)" by fastforce
  have "db_inv db2 \<and> lookup db2 = foldl (\<lambda>m c. map_cmd c m) (lookup db1) rest"
    using "2.IH" [OF 1 [symmetric] exec_cmd_inv [OF 1 "2.prems"(1)]] r "2.prems"(2) 1 by auto
  then show ?case using "2.prems"(2) exec_cmd_cases [OF 1] 1 r by (auto split: if_splits)
qed simp

definition example_entry :: "string \<Rightarrow> FileState \<Rightarrow> FileEntry" where
  "example_entry f st = \<lparr>fe_Filename = f, fe_State = st, fe_Source = FileSourceServer, fe_Size = 5, fe_SHA256 = ''ab'',
     fe_CreatedAt = 10 ^ 9, fe_LastAccess = 2 * 10 ^ 9, fe_HeightFirst = 0, fe_HeightLast = 0\<rparr>"

theorem store_refines_map_witness:
  "map_option fe_State (lookup (snd (exec_all
     [(db_ok, CUpsert (example_entry ''a'' FileStateRemote)),
      (db_ok\<lparr>db_fault := (\<lambda>s. if s = ''COMMIT'' then Some (ErrNew ''full'') else None)\<rparr>, CState ''a'' FileStateCached),
      (db_ok, CUpsert (example_entry ''b'' (FileStateOther ''bad'')))] [])) ''a'') = Some FileStateRemote"
proof -
  let ?cs = "[(db_ok, CUpsert (example_entry ''a'' FileStateRemote)),
      (db_ok\<lparr>db_fault := (\<lambda>s. if s = ''COMMIT'' then Some (ErrNew ''full'') else None)\<rparr>, CState ''a'' FileStateCached),
      (db_ok, CUpsert (example_entry ''b'' (FileStateOther ''bad'')))]"
  obtain c db where e: "exec_all ?cs [] = (c, db)" by fastforce
  then have "c = [CUpsert (example_entry ''a'' FileStateRemote)]"
    by (auto simp: UpsertFile_def UpdateState_def execImmediate_def db_ok_def upsert_rows_def row_check_def
        example_entry_def split: prod.splits)
  with store_refines_map [OF _ e] e show ?thesis by (simp add: db_inv_def example_entry_def)
qed

text \<open>
  What was upserted is what a later query finds, up to whole seconds in the times; an
  entry whose times are whole seconds other than the epoch comes back as it was.
\<close>

theorem upsert_get_roundtrip:
  assumes "UpsertFile env e db = (None, db')" "db_fault env' ''GetFile'' = None"
  shows "GetFile env' db' (fe_Filename e) = Inr (stored e)
    \<and> (\<forall>u v. fe_CreatedAt e = u * 10 ^ 9 \<and> fe_LastAccess e = v * 10 ^ 9 \<and> u \<noteq> 0 \<and> v \<noteq> 0 \<longrightarrow> stored e = e)"
proof -
  have "lookup db' (fe_Filename e) = Some (stored e)" using sqlite.upsert_cases [OF assms(1)] by simp
  moreover have "fromUnix (toUnix (u * 10 ^ 9)) = u * 10 ^ 9" if "u \<noteq> 0" for u
    using that by (auto simp: fromUnix_def toUnix_def zero_time_def)
  ultimately show ?thesis using assms(2) by (auto simp: GetFile_lookup stored_def)
qed

theorem upsert_get_roundtrip_witness:
  "GetFile db_ok (snd (UpsertFile db_ok (example_entry ''a'' FileStateCached) [])) ''a'' =
     Inr (example_entry ''a'' FileStateCached)"
proof -
  have "UpsertFile db_ok (example_entry ''a'' FileStateCached) [] =
      (None, snd (UpsertFile db_ok (example_entry ''a'' FileStateCached) []))"
    by (simp add: UpsertFile_def execImmediate_ok upsert_rows_def row_check_def row_of_def example_entry_def)
  from upsert_get_roundtrip [OF this, of db_ok] show ?thesis
    by (auto simp: db_ok_def example_entry_def)
qed

text \<open>
  The listing for eviction holds entries of cached files only, at most \<open>limit\<close> of them,
  oldest access first, and every cached file that it leaves out was used no earlier than
  any in it.
\<close>

theorem LRU_listing:
  assumes "engine_ok env" "ListCachedByLRU env db limit = Inr es" "0 \<le> limit"
  shows "int (length es) \<le> limit \<and> (\<forall>e \<in> set es. fe_State e = FileStateCached)
    \<and> (\<exists>rows rest. es = map scanEntry rows \<and> sorted (map c_last_access rows)
        \<and> mset rows + mset rest = mset (filter (\<lambda>r. c_state r = FileStateCached) db)
        \<and> (\<forall>r \<in> set rows. \<forall>q \<in> set rest. c_last_access r \<le> c_last_access q))"
proof -
  obtain rows rest where r: "es = map scanEntry rows"
      "mset (rows @ rest) = mset (filter (\<lambda>r. c_state r = FileStateCached) db)"
      "sorted (map c_last_access (rows @ rest))" "int (length rows) \<le> limit"
    using ListCachedByLRU_rows [OF assms(1,2)] assms(3) by auto
  have "\<forall>x \<in> set rows. c_state x = FileStateCached"
    using mset_eq_setD [OF r(2)] by auto
  then show ?thesis using r by (intro conjI exI [where x = rows] exI [where x = rest]) (auto simp: sorted_append)
qed

theorem LRU_listing_witness:
  "length [scanEntry (row_of (example_entry ''a'' FileStateCached))] \<le> 1"
proof -
  have "ListCachedByLRU db_ok [row_of (example_entry ''a'' FileStateCached)] 1 =
      Inr [scanEntry (row_of (example_entry ''a'' FileStateCached))]"
    by (simp add: ListCachedByLRU_def db_ok_def example_entry_def)
  from LRU_listing [OF _ this] show ?thesis by (simp add: engine_ok_def db_ok_def)
qed

end
