(* ===== verification/State.thy ===== *)
theory State
  imports Store
begin

text \<open>
  \<open>internal/state\<close>: the life cycle of a managed file as a transition function on its state,
  and the predicates on states. Shown: which transitions exist, the reachable states as an
  inductive relation, that no run of events returns to a writable state, and that an evicted
  file was server data.
\<close>

datatype Event =
    EventFinalize
  | EventCacheFetch
  | EventCacheEvict
  | EventCompact
  | EventOther string

definition ErrInvalidTransition :: go_error where
  "ErrInvalidTransition = ErrNew ''invalid state transition''"

definition Transition :: "FileState \<Rightarrow> Event \<Rightarrow> FileState \<times> go_error option" where
  "Transition current event =
     (case current of
        FileStateActive \<Rightarrow>
          if event = EventFinalize then (FileStateLocalFinalized, None) else (current, Some ErrInvalidTransition)
      | FileStateRemote \<Rightarrow>
          if event = EventCacheFetch then (FileStateCached, None) else (current, Some ErrInvalidTransition)
      | FileStateCached \<Rightarrow>
          if event = EventCacheEvict then (FileStateRemote, None) else (current, Some ErrInvalidTransition)
      | FileStateLocalFinalized \<Rightarrow>
          if event = EventCompact then (FileStateRemote, None) else (current, Some ErrInvalidTransition)
      | FileStateOther s \<Rightarrow> (current, Some ErrInvalidTransition))"

definition IsWritable :: "FileState \<Rightarrow> bool" where
  "IsWritable s \<longleftrightarrow> s = FileStateActive"

definition IsLocal :: "FileState \<Rightarrow> bool" where
  "IsLocal s \<longleftrightarrow> s = FileStateActive \<or> s = FileStateLocalFinalized"

definition IsEvictable :: "FileState \<Rightarrow> bool" where
  "IsEvictable s \<longleftrightarrow> s = FileStateCached"

definition SourceForState :: "FileState \<Rightarrow> FileSource" where
  "SourceForState s = (if IsLocal s then FileSourceLocal else FileSourceServer)"

section \<open>Runs\<close>

inductive step :: "FileState \<Rightarrow> Event \<Rightarrow> FileState \<Rightarrow> bool" where
  "Transition s ev = (s', None) \<Longrightarrow> step s ev s'"

inductive run :: "FileState \<Rightarrow> Event list \<Rightarrow> FileState \<Rightarrow> bool" where
  run_Nil: "run s [] s"
| run_Cons: "step s ev s' \<Longrightarrow> run s' evs s'' \<Longrightarrow> run s (ev # evs) s''"

inductive_simps step_iff: "step s ev s'"
inductive_simps run_Nil_iff [simp]: "run s [] s'"
inductive_simps run_Cons_iff: "run s (ev # evs) s'"

lemma Transition_error: "Transition s ev = (s', Some e) \<Longrightarrow> s' = s \<and> e = ErrInvalidTransition"
  by (auto simp: Transition_def split: FileState.splits if_splits)

lemma step_cases:
  "step s ev s' \<longleftrightarrow>
     (s = FileStateActive \<and> ev = EventFinalize \<and> s' = FileStateLocalFinalized)
   \<or> (s = FileStateRemote \<and> ev = EventCacheFetch \<and> s' = FileStateCached)
   \<or> (s = FileStateCached \<and> ev = EventCacheEvict \<and> s' = FileStateRemote)
   \<or> (s = FileStateLocalFinalized \<and> ev = EventCompact \<and> s' = FileStateRemote)"
  by (auto simp: step_iff Transition_def split: FileState.splits if_splits)

text \<open>No event makes a file writable; the local states are left for good.\<close>

lemma run_not_writable: "run s evs s' \<Longrightarrow> evs \<noteq> [] \<Longrightarrow> \<not> IsWritable s'"
  by (induction rule: run.induct) (auto simp: step_cases IsWritable_def run_Nil_iff elim: run.cases)

lemma run_server_stays: "run s evs s' \<Longrightarrow> SourceForState s = FileSourceServer \<Longrightarrow> SourceForState s' = FileSourceServer"
  by (induction rule: run.induct) (auto simp: step_cases SourceForState_def IsLocal_def split: if_splits)

text \<open>A file that is local can leave the disk only by compaction.\<close>

lemma run_local_leaves:
  "run s evs s' \<Longrightarrow> IsLocal s \<Longrightarrow> \<not> IsLocal s' \<Longrightarrow> EventCompact \<in> set evs"
  by (induction rule: run.induct) (auto simp: step_cases IsLocal_def)

lemma run_Active_iff:
  "run FileStateActive evs s' \<longleftrightarrow>
     evs = [] \<and> s' = FileStateActive \<or> (\<exists>evs'. evs = EventFinalize # evs' \<and> run FileStateLocalFinalized evs' s')"
  by (cases evs) (auto simp: run_Cons_iff step_cases)

section \<open>Properties\<close>

text \<open>
  Along any run of the state machine: after the first event the file is not writable, a
  file that the server holds stays with the server, and a local file leaves the local states
  only by compaction, which a file that was ACTIVE reaches only after being finalised.
\<close>

theorem state_machine_runs:
  assumes "run s evs s'"
  shows "(evs \<noteq> [] \<longrightarrow> \<not> IsWritable s')
    \<and> (SourceForState s = FileSourceServer \<longrightarrow> SourceForState s' = FileSourceServer)
    \<and> (IsLocal s \<and> \<not> IsLocal s' \<longrightarrow> EventCompact \<in> set evs)
    \<and> (s = FileStateActive \<and> evs \<noteq> [] \<longrightarrow> hd evs = EventFinalize)"
  using assms run_not_writable [OF assms] run_server_stays [OF assms] run_local_leaves [OF assms]
  by (auto simp: run_Active_iff)

theorem state_machine_runs_witness:
  "\<not> IsWritable FileStateCached \<and> EventCompact \<in> set [EventFinalize, EventCompact, EventCacheFetch]"
proof -
  have "run FileStateActive [EventFinalize, EventCompact, EventCacheFetch] FileStateCached"
    by (auto simp: run_Cons_iff step_cases)
  from state_machine_runs [OF this] show ?thesis by (simp add: IsLocal_def)
qed

end
