(* ===== verification/Disk_Cache.thy ===== *)
theory Disk_Cache
  imports Files Sha256 State
begin

text \<open>
  \<open>internal/cache\<close>: whole server files on local disk, verified when they are stored, with
  their life cycle in the store. The world of an operation is the disk and the table.
  Shown: a stored file has the expected hash or nothing changes, every failure mode leaves
  the invariant \<open>cache_ok\<close> (an entry marked CACHED has its verified content on disk), and
  eviction takes the least recently used files and spares \<open>minKeep\<close>.
\<close>

definition ErrHashMismatch :: go_error where
  "ErrHashMismatch = ErrNew ''SHA-256 hash mismatch''"

text \<open>\<open>minKeep\<close> is a natural number: a negative setting, which the configuration does not refuse, is left out.\<close>

record DiskCache =
  dc_dir :: string
  dc_maxBytes :: int
  dc_minKeep :: nat

type_synonym world = "disk \<times> Row list"

definition New_cache :: "io_env \<Rightarrow> string \<Rightarrow> int \<Rightarrow> nat \<Rightarrow> DiskCache result" where
  "New_cache env dir maxBytes minKeep =
     (case fault env (SysMkdirAll dir) of
        Some e \<Rightarrow> Inl (Errorf ''create cache dir'' e)
      | None \<Rightarrow> Inr \<lparr>dc_dir = dir, dc_maxBytes = maxBytes, dc_minKeep = minKeep\<rparr>)"

definition Path :: "DiskCache \<Rightarrow> string \<Rightarrow> string" where
  "Path c filename = path_Join (dc_dir c) filename"

definition Has :: "io_env \<Rightarrow> DiskCache \<Rightarrow> string \<Rightarrow> disk \<Rightarrow> bool" where
  "Has env c filename d \<longleftrightarrow> fault env (SysStat (Path c filename)) = None \<and> d (Path c filename) \<noteq> None"

definition cache_tmp :: "io_env \<Rightarrow> DiskCache \<Rightarrow> string \<Rightarrow> string" where
  "cache_tmp env c filename = path_Join (dc_dir c) (filename @ ''.tmp.'' @ tmp_suffix env)"

definition cached_entry :: "string \<Rightarrow> bytes \<Rightarrow> string \<Rightarrow> time \<Rightarrow> time \<Rightarrow> FileEntry" where
  "cached_entry filename r expectedSHA256 created accessed =
     \<lparr>fe_Filename = filename, fe_State = FileStateCached, fe_Source = FileSourceServer,
      fe_Size = int (length r), fe_SHA256 = expectedSHA256, fe_CreatedAt = created,
      fe_LastAccess = accessed, fe_HeightFirst = 0, fe_HeightLast = 0\<rparr>"

text \<open>\<open>created\<close> and \<open>accessed\<close> are the two readings of the clock.\<close>

definition Store_file ::
  "io_env \<Rightarrow> db_env \<Rightarrow> DiskCache \<Rightarrow> string \<Rightarrow> bytes \<Rightarrow> string \<Rightarrow> time \<Rightarrow> time \<Rightarrow> world \<Rightarrow> go_error option \<times> world" where
  "Store_file env denv c filename r expectedSHA256 created accessed = (\<lambda>(d, db).
     let tmpName = cache_tmp env c filename in
     case fault env (SysCreate tmpName) of
       Some e \<Rightarrow> (Some (Errorf ''create temp file'' e), (d, db))
     | None \<Rightarrow>
         (case w_write r (fresh_writer env tmpName) of (err, w) \<Rightarrow>
           let d1 = d(tmpName \<mapsto> written w) in
           case err of
             Some e \<Rightarrow> (Some (Errorf ''write cache file'' e), (snd (os_Remove env tmpName d1), db))
           | None \<Rightarrow>
               if EncodeToString (Sum256 r) \<noteq> expectedSHA256
               then (Some ErrHashMismatch, (snd (os_Remove env tmpName d1), db))
               else
                 (case os_Rename env tmpName (Path c filename) d1 of
                    (Some e, d2) \<Rightarrow> (Some (Errorf ''rename to final path'' e), (snd (os_Remove env tmpName d2), db))
                  | (None, d2) \<Rightarrow>
                      (case UpsertFile denv (cached_entry filename r expectedSHA256 created accessed) db of
                         (upsertErr, db') \<Rightarrow> (upsertErr, (d2, db'))))))"

definition Remove_file :: "io_env \<Rightarrow> db_env \<Rightarrow> DiskCache \<Rightarrow> string \<Rightarrow> world \<Rightarrow> go_error option \<times> world" where
  "Remove_file env denv c filename = (\<lambda>(d, db).
     case os_Remove env (Path c filename) d of
       (Some e, d1) \<Rightarrow>
         if e \<noteq> ErrNotExist then (Some (Errorf ''remove cache file'' e), (d1, db))
         else (case UpdateState denv filename FileStateRemote db of (err, db') \<Rightarrow> (err, (d1, db')))
     | (None, d1) \<Rightarrow> (case UpdateState denv filename FileStateRemote db of (err, db') \<Rightarrow> (err, (d1, db'))))"

definition Usage :: "io_env \<Rightarrow> DiskCache \<Rightarrow> disk \<Rightarrow> int \<times> int" where
  "Usage env c d =
     (case os_ReadDir env d (dc_dir c) of
        Inl e \<Rightarrow> (0, dc_maxBytes c)
      | Inr entries \<Rightarrow>
          (sum_list (map (\<lambda>n. if fault env (SysStat (path_Join (dc_dir c) n)) = None
                              then file_size d (path_Join (dc_dir c) n) else 0) entries),
           dc_maxBytes c))"

fun evict_loop :: "io_env \<Rightarrow> db_env \<Rightarrow> DiskCache \<Rightarrow> FileEntry list \<Rightarrow> world \<Rightarrow> string list \<times> world" where
  "evict_loop env denv c [] w = ([], w)"
| "evict_loop env denv c (e # es) w =
     (case Remove_file env denv c (fe_Filename e) w of
        (None, w') \<Rightarrow> (case evict_loop env denv c es w' of (evicted, w'') \<Rightarrow> (fe_Filename e # evicted, w''))
      | (Some _, w') \<Rightarrow> evict_loop env denv c es w')"

text \<open>
  \<open>Evict\<close>. Its loop body is the body of \<open>Remove\<close>, best-effort: \<open>os.Remove\<close>, then
  \<open>UpdateState\<close>, and the next file when either fails. A negative cnt slices below zero and
  panics when there is something to evict.
\<close>

definition Evict ::
  "io_env \<Rightarrow> db_env \<Rightarrow> DiskCache \<Rightarrow> int \<Rightarrow> world \<Rightarrow> (string list result) \<times> world" where
  "Evict env denv c cnt = (\<lambda>(d, db).
     case ListCachedByLRU denv db (wrap64 (cnt + int (dc_minKeep c))) of
       Inl e \<Rightarrow> (Inl (Errorf ''list cached files'' e), (d, db))
     | Inr entries \<Rightarrow>
         if length entries \<le> dc_minKeep c then (Inr [], (d, db))
         else
           let toEvict = take (length entries - dc_minKeep c) entries in
           if int (length toEvict) > cnt \<and> cnt < 0
           then (Inl (Panic ''slice bounds out of range''), (d, db))
           else
             let toEvict' = (if int (length toEvict) > cnt then take (nat cnt) toEvict else toEvict)
             in (case evict_loop env denv c toEvict' (d, db) of (evicted, w) \<Rightarrow> (Inr evicted, w)))"

section \<open>Storing\<close>

definition sha_hex :: "bytes \<Rightarrow> string" where
  "sha_hex b = EncodeToString (Sum256 b)"

definition cache_ok :: "DiskCache \<Rightarrow> world \<Rightarrow> bool" where
  "cache_ok c = (\<lambda>(d, db). \<forall>f e. lookup db f = Some e \<longrightarrow> fe_State e = FileStateCached \<longrightarrow>
     (\<exists>b. d (Path c f) = Some b \<and> sha_hex b = fe_SHA256 e \<and> fe_Size e = int (length b)))"

lemma cached_entry_simps [simp]:
  "fe_Filename (cached_entry f r s t u) = f" "fe_State (cached_entry f r s t u) = FileStateCached"
  "fe_SHA256 (cached_entry f r s t u) = s" "fe_Size (cached_entry f r s t u) = int (length r)"
  by (simp_all add: cached_entry_def)

lemma Path_inj [simp]: "Path c f = Path c g \<longleftrightarrow> f = g"
  by (simp add: Path_def)

lemma cache_tmp_neq [simp]: "cache_tmp env c f \<noteq> Path c f"
  by (simp add: cache_tmp_def Path_def)

text \<open>The three ways the operation can end.\<close>

lemma Store_file_cases:
  assumes "Store_file env denv c f r s t u (d, db) = (err, (d', db'))"
  shows "(err = None \<and> sha_hex r = s \<and> d' = d(cache_tmp env c f := None, Path c f \<mapsto> r)
            \<and> lookup db' = (lookup db)(f \<mapsto> stored (cached_entry f r s t u)))
       \<or> (err \<noteq> None \<and> db' = db \<and> (\<forall>q. q \<noteq> cache_tmp env c f \<longrightarrow> d' q = d q))
       \<or> (err \<noteq> None \<and> sha_hex r = s \<and> db' = db \<and> d' = d(cache_tmp env c f := None, Path c f \<mapsto> r))"
proof -
  let ?t = "cache_tmp env c f"
  obtain e0 w where w: "w_write r (fresh_writer env ?t) = (e0, w)" by fastforce
  have full: "e0 = None \<Longrightarrow> written w = r"
    using w by (auto simp: w_write_def fresh_writer_def split: option.splits if_splits)
  have rm: "snd (os_Remove env ?t (d(?t \<mapsto> x))) q = d q" if "q \<noteq> ?t" for x q
    using that by (simp add: os_Remove_other)
  show ?thesis
    using assms full rm
    by (auto simp: Store_file_def w Let_def os_Rename_def sha_hex_def fun_upd_twist
        split: option.splits prod.splits if_splits dest!: sqlite.upsert_cases)
qed

text \<open>
  The invariant survives, given that \<open>os.CreateTemp\<close> creates a new file and that the file is
  not cached under another hash.
\<close>

lemma Store_file_cache_ok:
  assumes "Store_file env denv c f r s t u (d, db) = (err, w')" "cache_ok c (d, db)"
    and new: "d (cache_tmp env c f) = None"
    and same: "\<And>e. lookup db f = Some e \<Longrightarrow> fe_State e = FileStateCached \<Longrightarrow> fe_SHA256 e = s \<and> fe_Size e = int (length r)"
  shows "cache_ok c w'"
proof -
  obtain d' db' where w': "w' = (d', db')" by fastforce
  have away: "Path c g \<noteq> cache_tmp env c f" if "lookup db g = Some e" "fe_State e = FileStateCached" for g e
    using assms(2) that new by (fastforce simp: cache_ok_def)
  from Store_file_cases [OF assms(1) [unfolded w']] show ?thesis
  proof (elim disjE conjE)
    assume "sha_hex r = s" "d' = d(cache_tmp env c f := None, Path c f \<mapsto> r)"
      "lookup db' = (lookup db)(f \<mapsto> stored (cached_entry f r s t u))"
    then show ?thesis
      using assms(2) away by (auto simp: cache_ok_def w')
  next
    assume "db' = db" "\<forall>q. q \<noteq> cache_tmp env c f \<longrightarrow> d' q = d q"
    then show ?thesis using assms(2) away by (auto simp: cache_ok_def w')
  next
    assume "sha_hex r = s" "db' = db" "d' = d(cache_tmp env c f := None, Path c f \<mapsto> r)"
    then show ?thesis
      using assms(2) away same by (auto simp: cache_ok_def w')
  qed
qed

section \<open>Removing and evicting\<close>

lemma Remove_file_cases:
  assumes "Remove_file env denv c f (d, db) = (err, (d', db'))" "honest_io env"
  shows "(err = None \<and> d' = d(Path c f := None)
            \<and> lookup db' = (lookup db)(f := map_option (\<lambda>e. e\<lparr>fe_State := FileStateRemote\<rparr>) (lookup db f)))
       \<or> (err \<noteq> None \<and> db' = db \<and> (d' = d \<or> d' = d(Path c f := None)))"
  using assms
  by (auto simp: Remove_file_def os_Remove_def honest_io_def fun_upd_idem split: option.splits prod.splits if_splits
      dest!: sqlite.set_state_cases)

text \<open>
  Removal keeps the invariant when the table can be written; a table that refuses the update
  after the file is gone leaves an entry without content.
\<close>

lemma Remove_file_cache_ok:
  assumes "Remove_file env denv c f (d, db) = (err, w')" "honest_io env" "cache_ok c (d, db)"
    and ok: "fst (UpdateState denv f FileStateRemote db) = None"
  shows "cache_ok c w'"
proof -
  obtain d' db' where w': "w' = (d', db')" by fastforce
  have fail: "err \<noteq> None \<Longrightarrow> d' = d \<and> db' = db"
    using assms(1) ok unfolding w'
    by (auto simp: Remove_file_def os_Remove_def split: option.splits prod.splits if_splits)
  from Remove_file_cases [OF assms(1) [unfolded w'] assms(2)] fail show ?thesis
    using assms(3) by (auto simp: cache_ok_def w' split: if_splits)
qed

text \<open>
  What the loop does to the files of its list and to all others, whatever fails on the way.
\<close>

definition gone :: "DiskCache \<Rightarrow> string \<Rightarrow> world \<Rightarrow> bool" where
  "gone c f = (\<lambda>(d, db). d (Path c f) = None \<and> (\<forall>e. lookup db f = Some e \<longrightarrow> fe_State e = FileStateRemote))"

definition same_file :: "DiskCache \<Rightarrow> string \<Rightarrow> world \<Rightarrow> world \<Rightarrow> bool" where
  "same_file c g = (\<lambda>(d, db) (d', db'). lookup db' g = lookup db g \<and> d' (Path c g) = d (Path c g))"

lemma same_file_trans: "same_file c g w w1 \<Longrightarrow> same_file c g w1 w2 \<Longrightarrow> same_file c g w w2"
  by (auto simp: same_file_def)

lemma Remove_file_effect:
  assumes "Remove_file env denv c f w = (err, w')" "honest_io env"
  shows "g \<noteq> f \<Longrightarrow> same_file c g w w'" "err = None \<Longrightarrow> gone c f w'" "gone c g w \<Longrightarrow> gone c g w'"
  using Remove_file_cases [of env denv c f "fst w" "snd w" err "fst w'" "snd w'"] assms
  by (cases w; cases w'; auto simp: gone_def same_file_def split: if_splits)+

lemma evict_loop_effect:
  assumes "evict_loop env denv c es w = (ev, w')" "honest_io env"
  shows "set ev \<subseteq> fe_Filename ` set es \<and> (\<forall>f \<in> set ev. gone c f w')
     \<and> (\<forall>g. g \<notin> fe_Filename ` set es \<longrightarrow> same_file c g w w') \<and> (\<forall>f. gone c f w \<longrightarrow> gone c f w')"
  using assms(1)
proof (induction es arbitrary: w ev)
  case Nil
  then show ?case by (auto simp: same_file_def)
next
  case (Cons e es)
  obtain err w1 where rm: "Remove_file env denv c (fe_Filename e) w = (err, w1)" by (metis prod.exhaust)
  obtain ev1 where lp: "evict_loop env denv c es w1 = (ev1, w')"
    and ev: "ev = (if err = None then fe_Filename e # ev1 else ev1)"
    using Cons.prems rm by (auto split: option.splits prod.splits)
  note IH = Cons.IH [OF lp] and eff = Remove_file_effect [OF rm assms(2)]
  have "same_file c g w w'" if "g \<noteq> fe_Filename e" "g \<notin> fe_Filename ` set es" for g
    using IH eff(1) [OF that(1)] that(2) same_file_trans by blast
  with IH eff ev show ?case by (auto split: if_splits)
qed

definition cached_names :: "Row list \<Rightarrow> string set" where
  "cached_names db = c_filename ` set (filter (\<lambda>r. c_state r = FileStateCached) db)"

definition last_used :: "Row list \<Rightarrow> string \<Rightarrow> int option" where
  "last_used db f = (case find (\<lambda>r. c_filename r = f) db of None \<Rightarrow> None | Some r \<Rightarrow> c_last_access r)"

lemma last_used_row: "distinct (map c_filename db) \<Longrightarrow> r \<in> set db \<Longrightarrow> last_used db (c_filename r) = c_last_access r"
  unfolding last_used_def by (induction db) (auto simp: rev_image_eqI)

lemma card_image_take:
  assumes "distinct (map g xs)" "k \<le> length xs"
  shows "card (g ` set (take k xs)) = k"
proof -
  have "distinct (map g (take k xs))" using assms(1) by (simp add: take_map [symmetric] distinct_take)
  from distinct_card [OF this] assms(2) show ?thesis by simp
qed

text \<open>The files that \<open>Evict\<close> goes for.\<close>

lemma lru_prefix_oldest:
  assumes "distinct (map c_filename db)" "set rows \<subseteq> set db" "sorted (map c_last_access rows)"
    and f: "f \<in> c_filename ` set (take k rows)" and g: "g \<in> c_filename ` set rows - c_filename ` set (take k rows)"
  shows "last_used db f \<le> last_used db g"
proof -
  obtain r where r: "r \<in> set (take k rows)" "f = c_filename r" using f by blast
  obtain q where q: "q \<in> set rows" "g = c_filename q" using g by blast
  have q': "q \<in> set (drop k rows)"
    using q g by (metis (no_types, lifting) Diff_iff Un_iff append_take_drop_id image_eqI set_append)
  have "sorted (map c_last_access (take k rows @ drop k rows))" using assms(3) by simp
  then have "c_last_access r \<le> c_last_access q"
    using r q' by (simp only: map_append sorted_append) auto
  moreover have "r \<in> set db" "q \<in> set db" using in_set_takeD [OF r(1)] q(1) assms(2) by blast+
  ultimately show ?thesis by (simp add: r(2) q(2) last_used_row [OF assms(1)])
qed

lemma Evict_victims:
  assumes "Evict env denv c cnt (d, db) = (Inr ev, w')" "db_inv db" "engine_ok denv"
    and "0 \<le> cnt" "cnt + int (dc_minKeep c) < 2 ^ 63"
  shows "\<exists>es. evict_loop env denv c es (d, db) = (ev, w')
     \<and> card (fe_Filename ` set es) = min (nat cnt) (card (cached_names db) - dc_minKeep c)
     \<and> fe_Filename ` set es \<subseteq> cached_names db
     \<and> (\<forall>f \<in> fe_Filename ` set es. \<forall>g \<in> cached_names db - fe_Filename ` set es. last_used db f \<le> last_used db g)"
proof -
  let ?m = "dc_minKeep c" and ?lim = "cnt + int (dc_minKeep c)"
  have lim: "wrap64 ?lim = ?lim" using assms(4,5) by (simp add: in_int64_def)
  have d: "distinct (map c_filename db)" using assms(2) by (simp add: db_inv_def)
  obtain es where es: "ListCachedByLRU denv db ?lim = Inr es"
    using assms(1) by (auto simp: Evict_def lim split: sum.splits)
  let ?rows = "sort_key c_last_access (row_order denv (filter (\<lambda>r. c_state r = FileStateCached) db))"
  let ?n = "length ?rows"
  have es_eq: "es = map scanEntry (take (nat ?lim) ?rows)"
    using es assms(4) by (auto simp: ListCachedByLRU_def Let_def split: option.splits)
  have mrows: "mset ?rows = mset (filter (\<lambda>r. c_state r = FileStateCached) db)"
    using assms(3) by (simp add: engine_ok_def)
  then have "mset (map c_filename ?rows) = mset (map c_filename (filter (\<lambda>r. c_state r = FileStateCached) db))"
    by (metis mset_map)
  then have drows: "distinct (map c_filename ?rows)"
    using d by (metis distinct_map_filter mset_eq_imp_distinct_iff)
  have names: "c_filename ` set ?rows = cached_names db" and sub: "set ?rows \<subseteq> set db"
    using mset_eq_setD [OF mrows] by (auto simp: cached_names_def)
  have n: "card (cached_names db) = ?n"
    by (metis distinct_card drows length_map list.set_map names)
  define k where "k = min (nat cnt) (?n - ?m)"
  have loop: "evict_loop env denv c (map scanEntry (take k ?rows)) (d, db) = (ev, w')"
  proof (cases "length es \<le> ?m")
    case True
    then have "k = 0" using assms(4) by (auto simp: k_def es_eq)
    then show ?thesis using assms(1) True by (simp add: Evict_def lim es)
  next
    case False
    have l: "length es = min (nat cnt + ?m) ?n" using assms(4) by (simp add: es_eq min.commute nat_add_distrib)
    then have len: "length es - ?m = k" and k: "k \<le> length es" "k \<le> nat ?lim" "int k \<le> cnt"
      using assms(4) unfolding k_def by linarith+
    have te: "take k es = map scanEntry (take k ?rows)"
      using k(2) by (simp add: es_eq take_map min_absorb1)
    have "\<not> int (length (take k es)) > cnt" using k by simp
    then show ?thesis
      using assms(1) False unfolding te [symmetric]
      by (simp add: Evict_def lim es Let_def len split: prod.splits if_splits)
  qed
  have img: "fe_Filename ` set (map scanEntry (take k ?rows)) = c_filename ` set (take k ?rows)"
    by (simp add: image_image)
  have card: "card (c_filename ` set (take k ?rows)) = k"
    by (rule card_image_take [OF drows]) (simp add: k_def)
  have order: "last_used db f \<le> last_used db g"
    if f: "f \<in> c_filename ` set (take k ?rows)" and g: "g \<in> cached_names db - c_filename ` set (take k ?rows)" for f g
    by (rule lru_prefix_oldest [OF d sub _ f g [folded names]]) simp
  show ?thesis
  proof (intro exI conjI)
    show "evict_loop env denv c (map scanEntry (take k ?rows)) (d, db) = (ev, w')" by (rule loop)
    show "card (fe_Filename ` set (map scanEntry (take k ?rows))) = min (nat cnt) (card (cached_names db) - ?m)"
      unfolding img card n by (rule k_def)
    show "fe_Filename ` set (map scanEntry (take k ?rows)) \<subseteq> cached_names db"
      unfolding img names [symmetric] by (intro image_mono set_take_subset)
    show "\<forall>f \<in> fe_Filename ` set (map scanEntry (take k ?rows)).
        \<forall>g \<in> cached_names db - fe_Filename ` set (map scanEntry (take k ?rows)). last_used db f \<le> last_used db g"
      unfolding img using order by blast
  qed
qed

section \<open>Properties\<close>

text \<open>
  C21. A store into the cache that succeeds puts content with the expected SHA-256 under the
  file's name and marks it CACHED with that hash and its length; one that fails leaves the
  table alone and the file either as it was or with verified content, never a part of it. No
  other cached file changes.
\<close>

theorem cache_store_verified:
  assumes "Store_file env denv c f r s t u (d, db) = (err, (d', db'))"
  shows "(err = None \<longrightarrow> EncodeToString (Sum256 r) = s \<and> d' (Path c f) = Some r
      \<and> lookup db' = (lookup db)(f \<mapsto> stored (cached_entry f r s t u)))
    \<and> (err \<noteq> None \<longrightarrow> db' = db \<and>
        (d' (Path c f) = d (Path c f) \<or> d' (Path c f) = Some r \<and> EncodeToString (Sum256 r) = s))
    \<and> (\<forall>q. q \<noteq> Path c f \<and> q \<noteq> cache_tmp env c f \<longrightarrow> d' q = d q)"
  using Store_file_cases [OF assms] cache_tmp_neq [of env c f] unfolding sha_hex_def
  by (elim disjE conjE) (auto simp del: cache_tmp_neq)

theorem cache_store_verified_witness:
  "fst (snd (Store_file io_ok db_ok \<lparr>dc_dir = ''c'', dc_maxBytes = 9, dc_minKeep = 0\<rparr> ''f'' [1, 2] ''00'' 0 0 ([''c/f'' \<mapsto> [7]], [])))
     ''c/f'' = Some [7]"
proof -
  let ?c = "\<lparr>dc_dir = ''c'', dc_maxBytes = 9, dc_minKeep = 0\<rparr>"
  obtain err d db where e: "Store_file io_ok db_ok ?c ''f'' [1, 2] ''00'' 0 0 ([''c/f'' \<mapsto> [7]], []) = (err, (d, db))"
    by (metis prod.exhaust)
  have h: "EncodeToString (Sum256 [1, 2]) \<noteq> ''00''"
  proof
    assume "EncodeToString (Sum256 [1, 2]) = ''00''"
    then have "length (EncodeToString (Sum256 [1, 2])) = 2" by simp
    then show False by simp
  qed
  moreover have "Path ?c ''f'' = ''c/f''" by (simp add: Path_def path_Join_def)
  ultimately have "d ''c/f'' = Some [7]" using cache_store_verified [OF e] by auto
  then show ?thesis by (simp add: e)
qed



text \<open>
  \<open>Evict\<close> goes for the least recently used cached files, at most as many as asked and
  never the last \<open>minKeep\<close> of them: there is a set of victims of exactly that size, used no
  later than every other cached file, outside of which nothing changes, and every file it
  reports is one of them, is off the disk and is marked REMOTE.
\<close>

theorem Evict_LRU:
  assumes "Evict env denv c cnt (d, db) = (Inr ev, (d', db'))" "db_inv db" "engine_ok denv" "honest_io env"
    and "0 \<le> cnt" "cnt + int (dc_minKeep c) < 2 ^ 63"
  shows "\<exists>V \<subseteq> cached_names db. card V = min (nat cnt) (card (cached_names db) - dc_minKeep c) \<and> set ev \<subseteq> V
    \<and> (\<forall>f \<in> V. \<forall>g \<in> cached_names db - V. last_used db f \<le> last_used db g)
    \<and> (\<forall>g. g \<notin> V \<longrightarrow> lookup db' g = lookup db g \<and> d' (Path c g) = d (Path c g))
    \<and> (\<forall>f \<in> set ev. d' (Path c f) = None \<and> (\<forall>e. lookup db' f = Some e \<longrightarrow> fe_State e = FileStateRemote))"
proof -
  obtain es where es: "evict_loop env denv c es (d, db) = (ev, (d', db'))"
    "card (fe_Filename ` set es) = min (nat cnt) (card (cached_names db) - dc_minKeep c)"
    "fe_Filename ` set es \<subseteq> cached_names db"
    "\<forall>f \<in> fe_Filename ` set es. \<forall>g \<in> cached_names db - fe_Filename ` set es. last_used db f \<le> last_used db g"
    using Evict_victims [OF assms(1,2,3,5,6)] by blast
  then show ?thesis
    using evict_loop_effect [OF es(1) assms(4)]
    by (intro exI [where x = "fe_Filename ` set es"]) (auto simp: gone_def same_file_def)
qed

theorem Evict_LRU_witness:
  "\<exists>V \<subseteq> {''a'', ''b''}. card V = 1 \<and> (\<forall>f \<in> V. \<forall>g \<in> {''a'', ''b''} - V.
     last_used [row_of (example_entry ''a'' FileStateCached), row_of (example_entry ''b'' FileStateCached)] f
     \<le> last_used [row_of (example_entry ''a'' FileStateCached), row_of (example_entry ''b'' FileStateCached)] g)"
proof -
  let ?db = "[row_of (example_entry ''a'' FileStateCached), row_of (example_entry ''b'' FileStateCached)]"
    and ?c = "\<lparr>dc_dir = ''c'', dc_maxBytes = 9, dc_minKeep = 1\<rparr>"
  obtain r d' db' where e: "Evict io_ok db_ok ?c 2 (Map.empty, ?db) = (r, (d', db'))" by (metis prod.exhaust)
  have "ListCachedByLRU db_ok ?db 3 = Inr (map scanEntry ?db)"
    by (simp add: ListCachedByLRU_def db_ok_def example_entry_def row_of_def)
  then obtain ev where r: "r = Inr ev"
    using e by (auto simp: Evict_def in_int64_def Let_def split: prod.splits)
  have n: "cached_names ?db = {''a'', ''b''}" by (auto simp: cached_names_def example_entry_def)
  show ?thesis
    using Evict_LRU [OF e [unfolded r]] unfolding n
    by (auto simp: db_inv_def row_check_def row_of_def example_entry_def engine_ok_def db_ok_def honest_io_def io_ok_def)
qed

end
