(* ===== verification/Block_Cache.thy ===== *)
theory Block_Cache
  imports Files
begin

text \<open>
  \<open>internal/blockcache\<close>: single blocks of remote blk files on disk, one file per block in a
  directory per blk file. The locale \<open>block_cache\<close> is the interface that the read path
  uses; the disk cache is its interpretation.
\<close>

record DiskBlockCache =
  bc_dir :: string
  bc_maxBytes :: int

definition New_blockcache :: "io_env \<Rightarrow> string \<Rightarrow> int \<Rightarrow> DiskBlockCache result" where
  "New_blockcache env dir maxBytes =
     (case fault env (SysMkdirAll dir) of
        Some e \<Rightarrow> Inl (Errorf ''blockcache: mkdir'' e)
      | None \<Rightarrow> Inr \<lparr>bc_dir = dir, bc_maxBytes = maxBytes\<rparr>)"

definition blockPath :: "DiskBlockCache \<Rightarrow> string \<Rightarrow> int \<Rightarrow> string" where
  "blockPath c blkFile fileOffset = path_Join (path_Join (bc_dir c) blkFile) (Itoa fileOffset)"

definition block_tmp :: "io_env \<Rightarrow> DiskBlockCache \<Rightarrow> string \<Rightarrow> string" where
  "block_tmp env c blkFile = path_Join (path_Join (bc_dir c) blkFile) (''.tmp-'' @ tmp_suffix env)"

definition StoreBlock :: "io_env \<Rightarrow> DiskBlockCache \<Rightarrow> string \<Rightarrow> int \<Rightarrow> bytes \<Rightarrow> disk_op" where
  "StoreBlock env c blkFile fileOffset data d =
     (case fault env (SysMkdirAll (path_Join (bc_dir c) blkFile)) of
        Some e \<Rightarrow> (Some (Errorf ''blockcache: mkdir sub-dir'' e), d)
      | None \<Rightarrow>
          write_atomic env (block_tmp env c blkFile) (blockPath c blkFile fileOffset)
            ''blockcache: create temp'' ''blockcache: write temp'' ''blockcache: close temp''
            ''blockcache: rename'' (w_write data) d)"

definition GetBlock :: "io_env \<Rightarrow> DiskBlockCache \<Rightarrow> string \<Rightarrow> int \<Rightarrow> disk \<Rightarrow> bytes result" where
  "GetBlock env c blkFile fileOffset d =
     wrapE ''blockcache: read'' (os_Open env d (blockPath c blkFile fileOffset))"

definition HasBlock :: "io_env \<Rightarrow> DiskBlockCache \<Rightarrow> string \<Rightarrow> int \<Rightarrow> disk \<Rightarrow> bool" where
  "HasBlock env c blkFile fileOffset d \<longleftrightarrow>
     fault env (SysStat (blockPath c blkFile fileOffset)) = None \<and> d (blockPath c blkFile fileOffset) \<noteq> None"

text \<open>\<open>os.RemoveAll\<close> of the directory of a blk file.\<close>

definition RemoveFile :: "io_env \<Rightarrow> DiskBlockCache \<Rightarrow> string \<Rightarrow> disk_op" where
  "RemoveFile env c blkFile d =
     (let dir = path_Join (bc_dir c) blkFile in
      case fault env (SysRemove dir) of
        Some e \<Rightarrow> (Some (Errorf ''blockcache: remove'' e), d)
      | None \<Rightarrow> (None, (\<lambda>p. if p = dir \<or> HasPrefix p (dir @ ''/'') then None else d p)))"

definition Usage_blocks :: "io_env \<Rightarrow> DiskBlockCache \<Rightarrow> disk \<Rightarrow> int \<times> int" where
  "Usage_blocks env c d =
     ((\<Sum>p \<in> {p. d p \<noteq> None \<and> HasPrefix p (bc_dir c @ ''/'') \<and> fault env (SysStat p) = None}. file_size d p),
      bc_maxBytes c)"

section \<open>Names\<close>

lemma Itoa_nat_inj: "Itoa_nat m = Itoa_nat n \<longleftrightarrow> m = n"
  using Itoa_nat_digits by metis

lemma Itoa_digit_or_minus: "c \<in> set (Itoa i) \<Longrightarrow> is_digit c \<or> c = CHR ''-''"
  using Itoa_nat_digits by (auto simp: Itoa_def list_all_iff split: if_splits)

lemma Itoa_no_slash: "CHR ''/'' \<notin> set (Itoa i)"
  using Itoa_digit_or_minus [of "CHR ''/''" i] by (auto simp: is_digit_def)

lemma Itoa_nat_no_minus: "Itoa_nat n \<noteq> CHR ''-'' # s"
proof
  assume "Itoa_nat n = CHR ''-'' # s"
  then have "is_digit CHR ''-''" using Itoa_nat_digits [of n] by simp
  then show False by (simp add: is_digit_def)
qed

lemma Itoa_inj [simp]: "Itoa i = Itoa j \<longleftrightarrow> i = j"
  using Itoa_nat_no_minus [of "nat i"] Itoa_nat_no_minus [of "nat j"]
  by (auto simp: Itoa_def Itoa_nat_inj split: if_splits) metis

text \<open>A path splits at its last slash in one way only.\<close>

lemma path_Join_split:
  assumes "path_Join a x = path_Join b y" "CHR ''/'' \<notin> set x" "CHR ''/'' \<notin> set y"
  shows "a = b \<and> x = y"
proof -
  have "rev x @ CHR ''/'' # rev a = rev y @ CHR ''/'' # rev b"
    using arg_cong [OF assms(1), of rev] by (simp add: path_Join_def)
  moreover have tw: "takeWhile (\<lambda>c. c \<noteq> CHR ''/'') (rev z @ CHR ''/'' # e) = rev z"
    if "CHR ''/'' \<notin> set z" for z e
    using that by (subst takeWhile_append2) auto
  ultimately have "rev x = rev y" using tw assms(2,3) by metis
  with assms(1) show ?thesis by (simp add: path_Join_def)
qed

lemma blockPath_inj [simp]: "blockPath c f i = blockPath c g j \<longleftrightarrow> f = g \<and> i = j"
  using path_Join_split [OF _ Itoa_no_slash Itoa_no_slash]
  by (auto simp: blockPath_def) (metis path_Join_inj Itoa_inj)+

lemma tmp_no_slash: "CHR ''/'' \<notin> set (''.tmp-'' @ tmp_suffix env)"
  using Itoa_no_slash [of "int (tmp_rnd env)"] by (simp add: tmp_suffix_def Itoa_def)

lemma block_tmp_neq [simp]: "block_tmp env c f \<noteq> blockPath c g j"
proof
  assume "block_tmp env c f = blockPath c g j"
  then have "''.tmp-'' @ tmp_suffix env = Itoa j"
    unfolding block_tmp_def blockPath_def using path_Join_split tmp_no_slash Itoa_no_slash by blast
  then have "CHR ''.'' \<in> set (Itoa j)" by (metis append_Cons list.set_intros(1))
  then show False using Itoa_digit_or_minus by (force simp: is_digit_def)
qed

lemma blockPath_neq_tmp [simp]: "blockPath c g j \<noteq> block_tmp env c f"
  using block_tmp_neq [of env c f g j] by metis

section \<open>The interface\<close>

text \<open>
  A block cache holds the content of some blocks. A store that succeeds makes the block
  available, one that fails changes no block; no other block changes.
\<close>

locale block_cache =
  fixes content :: "'s \<Rightarrow> string \<Rightarrow> int \<Rightarrow> bytes option"
    and has :: "string \<Rightarrow> int \<Rightarrow> 's \<Rightarrow> bool"
    and get :: "string \<Rightarrow> int \<Rightarrow> 's \<Rightarrow> bytes result"
    and put :: "string \<Rightarrow> int \<Rightarrow> bytes \<Rightarrow> 's \<Rightarrow> go_error option \<times> 's"
  assumes has_content: "has f i s \<Longrightarrow> content s f i \<noteq> None"
    and get_content: "get f i s = Inr b \<Longrightarrow> content s f i = Some b"
    and put_ok: "put f i b s = (None, s') \<Longrightarrow> content s' f i = Some b"
    and put_fail: "put f i b s = (Some e, s') \<Longrightarrow> content s' f i = content s f i"
    and put_other: "put f i b s = (err, s') \<Longrightarrow> (g, j) \<noteq> (f, i) \<Longrightarrow> content s' g j = content s g j"
begin

text \<open>Every cached block of a file satisfies a property of its offset and content.\<close>

definition all_blocks :: "(int \<Rightarrow> bytes \<Rightarrow> bool) \<Rightarrow> string \<Rightarrow> 's \<Rightarrow> bool" where
  "all_blocks P f s \<longleftrightarrow> (\<forall>i b. content s f i = Some b \<longrightarrow> P i b)"

lemma put_all_blocks:
  assumes "put f i b s = (err, s')" "all_blocks P f s" "P i b"
  shows "all_blocks P f s'"
  unfolding all_blocks_def
proof (intro allI impI)
  fix j c
  assume c: "content s' f j = Some c"
  show "P j c"
  proof (cases "j = i")
    case True
    then show ?thesis using assms c put_ok put_fail by (cases err) (fastforce simp: all_blocks_def)+
  next
    case False
    then show ?thesis using put_other [OF assms(1), of f j] assms(2) c by (auto simp: all_blocks_def)
  qed
qed

lemma get_all_blocks: "all_blocks P f s \<Longrightarrow> get f i s = Inr b \<Longrightarrow> P i b"
  by (auto simp: all_blocks_def dest!: get_content)

lemma put_keeps: "put f i b s = (err, s') \<Longrightarrow> content s g j \<noteq> None \<Longrightarrow> content s' g j \<noteq> None"
  using put_other [of f i b s err s' g j] put_ok [of f i b s s'] put_fail [of f i b s _ s']
  by (cases err; cases "(g, j) = (f, i)") auto

end

definition block_content :: "DiskBlockCache \<Rightarrow> disk \<Rightarrow> string \<Rightarrow> int \<Rightarrow> bytes option" where
  "block_content c d f i = d (blockPath c f i)"

lemma StoreBlock_cases:
  assumes "StoreBlock env c f i b d = (err, d')"
  shows "(err = None \<longrightarrow> d' = d(block_tmp env c f := None, blockPath c f i \<mapsto> b))
       \<and> (err \<noteq> None \<longrightarrow> (\<forall>q. q \<noteq> block_tmp env c f \<longrightarrow> d' q = d q))"
  using assms write_atomic_spec [OF emits_write, of "block_tmp env c f" "blockPath c f i"]
  by (auto simp: StoreBlock_def split: option.splits)

interpretation disk_blocks: block_cache "block_content c" "HasBlock env c" "GetBlock env c" "StoreBlock env c"
  by unfold_locales
    (auto simp: block_content_def HasBlock_def GetBlock_def result_iffs dest!: StoreBlock_cases split: if_splits)

text \<open>Removing a blk file's blocks leaves none of them and keeps the blocks of the others.\<close>

lemma RemoveFile_blocks:
  assumes "RemoveFile env c f d = (None, d')"
  shows "block_content c d' f i = None"
    and "g \<noteq> f \<Longrightarrow> CHR ''/'' \<notin> set f \<Longrightarrow> CHR ''/'' \<notin> set g \<Longrightarrow> block_content c d' g i = block_content c d g i"
proof -
  let ?dir = "path_Join (bc_dir c) f"
  have d': "d' = (\<lambda>p. if p = ?dir \<or> HasPrefix p (?dir @ ''/'') then None else d p)"
    using assms by (auto simp: RemoveFile_def Let_def split: option.splits)
  have "HasPrefix (blockPath c f i) (?dir @ ''/'')"
    by (auto simp: blockPath_def path_Join_def HasPrefix_iff)
  then show "block_content c d' f i = None" by (simp add: block_content_def d')
  assume ne: "g \<noteq> f" and s: "CHR ''/'' \<notin> set f" "CHR ''/'' \<notin> set g"
  have "blockPath c g i \<noteq> ?dir"
    using path_Join_split [of "path_Join (bc_dir c) g" "Itoa i" "bc_dir c" f] s Itoa_no_slash
    by (auto simp: blockPath_def path_Join_def)
  moreover have "\<not> HasPrefix (blockPath c g i) (?dir @ ''/'')"
  proof
    assume "HasPrefix (blockPath c g i) (?dir @ ''/'')"
    then obtain t where "g @ ''/'' @ Itoa i = f @ ''/'' @ t"
      by (auto simp: HasPrefix_iff blockPath_def path_Join_def)
    then have "takeWhile (\<lambda>c. c \<noteq> CHR ''/'') (g @ ''/'' @ Itoa i) = takeWhile (\<lambda>c. c \<noteq> CHR ''/'') (f @ ''/'' @ t)"
      by simp
    moreover have "takeWhile (\<lambda>c. c \<noteq> CHR ''/'') (z @ ''/'' @ e) = z" if "CHR ''/'' \<notin> set z" for z e
      using that by (subst takeWhile_append2) auto
    ultimately show False using ne s by metis
  qed
  ultimately show "block_content c d' g i = block_content c d g i"
    by (simp add: block_content_def d')
qed

section \<open>Properties\<close>

text \<open>
  A block that was stored is found and read back, whatever file of whatever process wrote
  the others; a store that fails changes no block at all, and a store never changes another
  block: files and offsets never share a path, nor does a temporary file hit a block.
\<close>

theorem block_store_get:
  assumes "StoreBlock env c f i b d = (err, d')" "honest_io env'" "fault env' (SysOpen (blockPath c f i)) = None"
    and "fault env' (SysStat (blockPath c f i)) = None"
  shows "(err = None \<longrightarrow> GetBlock env' c f i d' = Inr b \<and> HasBlock env' c f i d')
    \<and> (\<forall>g j. err \<noteq> None \<or> (g, j) \<noteq> (f, i) \<longrightarrow> block_content c d' g j = block_content c d g j)"
  using StoreBlock_cases [OF assms(1)] assms(3,4) unfolding block_content_def
  by (cases err) (auto simp: GetBlock_def HasBlock_def os_Open_def sys_def wrapE_def)

theorem block_store_get_witness:
  "GetBlock io_ok \<lparr>bc_dir = ''b'', bc_maxBytes = 0\<rparr> ''blk00001.dat'' 8
     (snd (StoreBlock io_ok \<lparr>bc_dir = ''b'', bc_maxBytes = 0\<rparr> ''blk00001.dat'' 8 [1, 2] Map.empty)) = Inr [1, 2]"
proof -
  let ?c = "\<lparr>bc_dir = ''b'', bc_maxBytes = 0\<rparr>"
  have "StoreBlock io_ok ?c ''blk00001.dat'' 8 [1, 2] Map.empty =
      (None, snd (StoreBlock io_ok ?c ''blk00001.dat'' 8 [1, 2] Map.empty))"
    using write_atomic_ok [OF emits_write, of io_ok "[1, 2]" "block_tmp io_ok ?c ''blk00001.dat''"]
    by (auto simp: StoreBlock_def io_ok_def prod_eq_iff)
  from block_store_get [OF this, of io_ok] show ?thesis by (simp add: honest_io_def io_ok_def)
qed

text \<open>Removing the blocks of a block file removes all of them and no block of another file.\<close>

theorem RemoveFile_exact:
  assumes "RemoveFile env c f d = (None, d')" "CHR ''/'' \<notin> set f" "CHR ''/'' \<notin> set g"
  shows "block_content c d' g i = (if g = f then None else block_content c d g i)"
  using RemoveFile_blocks [OF assms(1)] assms(2,3) by simp

theorem RemoveFile_exact_witness:
  "block_content \<lparr>bc_dir = ''b'', bc_maxBytes = 0\<rparr>
     (snd (RemoveFile io_ok \<lparr>bc_dir = ''b'', bc_maxBytes = 0\<rparr> ''blk1'' [''b/blk1/0'' \<mapsto> [1], ''b/blk10/0'' \<mapsto> [2]])) ''blk10'' 0 = Some [2]"
proof -
  let ?c = "\<lparr>bc_dir = ''b'', bc_maxBytes = 0\<rparr>" and ?d = "[''b/blk1/0'' \<mapsto> [1], ''b/blk10/0'' \<mapsto> [2 :: byte]]"
  have "RemoveFile io_ok ?c ''blk1'' ?d = (None, snd (RemoveFile io_ok ?c ''blk1'' ?d))"
    by (simp add: RemoveFile_def io_ok_def Let_def)
  from RemoveFile_exact [OF this, of "''blk10''" 0] show ?thesis
    by (simp add: block_content_def blockPath_def path_Join_def Itoa_def Itoa_nat.simps digit_char_def char_of_def bit_0)
qed

end
