(* ===== verification/Fetch_Policy.thy ===== *)
theory Fetch_Policy
  imports Store Go_Lib Complex_Main
begin

text \<open>
  \<open>internal/fusefs/fetch_policy.go\<close>: whether a remote file is read by ranges or fetched
  whole. The policy keeps hints and cooldowns per file, a tracker per open handle. Rates are
  \<open>float64\<close>: rationals, with the one division rounded as IEEE 754 does. Shown: how defaults
  fill a configuration, when a file is in file mode, that a failure suspends promotion for
  the cooldown, and the invariant of the tracker over any sequence of reads.
\<close>

definition fetchModeAuto :: string where "fetchModeAuto = ''auto''"
definition fetchModeFile :: string where "fetchModeFile = ''file''"
definition fetchModeRange :: string where "fetchModeRange = ''range''"

definition defaultAutoGapToleranceKB :: int where "defaultAutoGapToleranceKB = 64"
definition defaultAutoMinRangeRequests :: int where "defaultAutoMinRangeRequests = 256"
definition defaultAutoMinSequentialMB :: int where "defaultAutoMinSequentialMB = 4"
definition defaultAutoMinSequentialRate :: rat where "defaultAutoMinSequentialRate = 8106479329266893 / 2 ^ 53"
definition defaultAutoMaxBackwardSeeks :: int where "defaultAutoMaxBackwardSeeks = 2"
definition defaultAutoFileHintTTL :: int where "defaultAutoFileHintTTL = 600 * 10 ^ 9"
definition defaultAutoPromotionCooldown :: int where "defaultAutoPromotionCooldown = 30 * 10 ^ 9"

record FetchPolicyConfig =
  cfg_Mode :: string
  AutoGapToleranceKB :: int
  AutoMinRangeRequests :: int
  AutoMinSequentialMB :: int
  AutoMinSequentialRate :: rat
  AutoMaxBackwardSeeks :: int
  AutoFileHintTTL :: int
  AutoPromotionCooldown :: int

record FetchPolicy =
  mode :: string
  gapToleranceBytes :: int
  minRangeRequests :: int
  minSequentialBytes :: int
  minSequentialRate :: rat
  maxBackwardSeeks :: int
  fileHintTTL :: int
  promotionCooldown :: int
  fileHints :: "string \<rightharpoonup> time"
  cooldownUntil :: "string \<rightharpoonup> time"

record SequentialReadTracker =
  initialized :: bool
  lastEndOffset :: int
  rangeRequests :: int
  totalBytes :: int
  sequentialBytes :: int
  backwardSeeks :: int

text \<open>\<open>a / b\<close> rounded to 53 bits, half to even, for positive \<open>a\<close> and \<open>b\<close>.\<close>

fun bit_length :: "nat \<Rightarrow> nat" where
  "bit_length n = (if n = 0 then 0 else Suc (bit_length (n div 2)))"

declare bit_length.simps [simp del]

definition f64_div :: "int \<Rightarrow> int \<Rightarrow> rat" where
  "f64_div a b =
     (let k0 = 53 + bit_length (nat b) - bit_length (nat a);
          k = (if a * 2 ^ k0 < b * 2 ^ 53 then k0 else k0 - 1);
          n = a * 2 ^ k; m = n div b; d = 2 * (n mod b);
          m' = (if d < b then m else if d > b then m + 1 else if even m then m else m + 1)
      in of_int m' / 2 ^ k)"

text \<open>The conversion of an integer that is not negative to a floating point number, exact below \<open>2 ^ 53\<close>.\<close>

definition f64_int :: "int \<Rightarrow> int" where
  "f64_int a =
     (let e = bit_length (nat a) - 53; u = 2 ^ e; m = a div u; d = 2 * (a mod u)
      in (if d < u then m else if d > u then m + 1 else if even m then m else m + 1) * u)"

definition NewFetchPolicy :: "FetchPolicyConfig \<Rightarrow> FetchPolicy" where
  "NewFetchPolicy cfg =
     (let zeroConfig = AutoGapToleranceKB cfg = 0 \<and> AutoMinRangeRequests cfg = 0
            \<and> AutoMinSequentialMB cfg = 0 \<and> AutoMinSequentialRate cfg = 0
            \<and> AutoMaxBackwardSeeks cfg = 0 \<and> AutoFileHintTTL cfg = 0 \<and> AutoPromotionCooldown cfg = 0;
          m = (if cfg_Mode cfg = [] then fetchModeAuto else cfg_Mode cfg);
          gap = (if AutoGapToleranceKB cfg < 0 \<or> zeroConfig then defaultAutoGapToleranceKB else AutoGapToleranceKB cfg);
          reqs = (if AutoMinRangeRequests cfg < 1 \<or> zeroConfig then defaultAutoMinRangeRequests else AutoMinRangeRequests cfg);
          mb = (if AutoMinSequentialMB cfg < 1 \<or> zeroConfig then defaultAutoMinSequentialMB else AutoMinSequentialMB cfg);
          rate = (if AutoMinSequentialRate cfg \<le> 0 \<or> AutoMinSequentialRate cfg > 1 \<or> zeroConfig
                  then defaultAutoMinSequentialRate else AutoMinSequentialRate cfg);
          seeks = (if AutoMaxBackwardSeeks cfg < 0 \<or> zeroConfig then defaultAutoMaxBackwardSeeks else AutoMaxBackwardSeeks cfg);
          ttl = (if AutoFileHintTTL cfg \<le> 0 \<or> zeroConfig then defaultAutoFileHintTTL else AutoFileHintTTL cfg);
          cool = (if AutoPromotionCooldown cfg \<le> 0 \<or> zeroConfig then defaultAutoPromotionCooldown else AutoPromotionCooldown cfg)
      in \<lparr>mode = m, gapToleranceBytes = wrap64 (gap * 1024), minRangeRequests = reqs,
          minSequentialBytes = wrap64 (wrap64 (mb * 1024) * 1024), minSequentialRate = rate,
          maxBackwardSeeks = seeks, fileHintTTL = ttl, promotionCooldown = cool,
          fileHints = Map.empty, cooldownUntil = Map.empty\<rparr>)"

definition Mode :: "FetchPolicy \<Rightarrow> string" where
  "Mode p = mode p"

definition isAdaptiveTargetFile :: "string \<Rightarrow> bool" where
  "isAdaptiveTargetFile filename \<longleftrightarrow> length filename \<ge> 3 \<and> take 3 filename = ''blk''"

definition Before :: "time \<Rightarrow> time option \<Rightarrow> bool" where
  "Before now until \<longleftrightarrow> (case until of None \<Rightarrow> False | Some t \<Rightarrow> now < t)"

definition ResolveMode :: "string \<Rightarrow> time \<Rightarrow> FetchPolicy \<Rightarrow> string \<times> FetchPolicy" where
  "ResolveMode filename now p =
     (if mode p \<noteq> fetchModeAuto then (mode p, p)
      else if \<not> isAdaptiveTargetFile filename then (fetchModeRange, p)
      else if Before now (cooldownUntil p filename) then (fetchModeRange, p)
      else if Before now (fileHints p filename) then (fetchModeFile, p)
      else if fileHints p filename \<noteq> None \<and> \<not> Before now (fileHints p filename)
      then (fetchModeRange, p\<lparr>fileHints := (fileHints p)(filename := None)\<rparr>)
      else (fetchModeRange, p))"

definition MarkPromotionSuccess :: "string \<Rightarrow> time \<Rightarrow> FetchPolicy \<Rightarrow> FetchPolicy" where
  "MarkPromotionSuccess filename now p =
     p\<lparr>fileHints := (fileHints p)(filename \<mapsto> now + fileHintTTL p),
       cooldownUntil := (cooldownUntil p)(filename := None)\<rparr>"

definition MarkPromotionFailure :: "string \<Rightarrow> time \<Rightarrow> FetchPolicy \<Rightarrow> FetchPolicy" where
  "MarkPromotionFailure filename now p =
     p\<lparr>cooldownUntil := (cooldownUntil p)(filename \<mapsto> now + promotionCooldown p),
       fileHints := (fileHints p)(filename := None)\<rparr>"

definition ShouldPromoteToFile :: "string \<Rightarrow> SequentialReadTracker option \<Rightarrow> time \<Rightarrow> FetchPolicy \<Rightarrow> bool" where
  "ShouldPromoteToFile filename tracker now p =
     (if mode p \<noteq> fetchModeAuto then False
      else if \<not> isAdaptiveTargetFile filename then False
      else case tracker of
        None \<Rightarrow> False
      | Some t \<Rightarrow>
          if rangeRequests t < minRangeRequests p then False
          else if sequentialBytes t < minSequentialBytes p then False
          else if totalBytes t \<le> 0 then False
          else if backwardSeeks t > maxBackwardSeeks p then False
          else if f64_div (f64_int (sequentialBytes t)) (f64_int (totalBytes t)) < minSequentialRate p then False
          else if Before now (cooldownUntil p filename) then False
          else True)"

definition ObserveRangeRead :: "FetchPolicy \<Rightarrow> int \<Rightarrow> int \<Rightarrow> SequentialReadTracker \<Rightarrow> SequentialReadTracker" where
  "ObserveRangeRead p off n tracker =
     (if n \<le> 0 then tracker
      else
        let t = tracker\<lparr>rangeRequests := wrap64 (rangeRequests tracker + 1),
                        totalBytes := wrap64 (totalBytes tracker + n)\<rparr>
        in if \<not> initialized t
           then t\<lparr>initialized := True, lastEndOffset := wrap64 (off + n),
                  sequentialBytes := wrap64 (sequentialBytes t + n)\<rparr>
           else
             let delta = wrap64 (off - lastEndOffset t);
                 t' = (if delta \<ge> 0 \<and> delta \<le> gapToleranceBytes p
                       then t\<lparr>sequentialBytes := wrap64 (sequentialBytes t + n)\<rparr>
                       else if delta < 0 then t\<lparr>backwardSeeks := wrap64 (backwardSeeks t + 1)\<rparr>
                       else t)
             in t'\<lparr>lastEndOffset := wrap64 (off + n)\<rparr>)"

definition new_tracker :: SequentialReadTracker where
  "new_tracker = \<lparr>initialized = False, lastEndOffset = 0, rangeRequests = 0, totalBytes = 0,
                  sequentialBytes = 0, backwardSeeks = 0\<rparr>"

section \<open>Modes\<close>

text \<open>Every configuration gives a usable policy.\<close>

definition policy_ok :: "FetchPolicy \<Rightarrow> bool" where
  "policy_ok p \<longleftrightarrow> mode p \<noteq> [] \<and> 0 \<le> gapToleranceBytes p \<and> 1 \<le> minRangeRequests p
     \<and> 0 < minSequentialBytes p \<and> 0 < minSequentialRate p \<and> minSequentialRate p \<le> 1
     \<and> 0 \<le> maxBackwardSeeks p \<and> 0 < fileHintTTL p \<and> 0 < promotionCooldown p"

lemma NewFetchPolicy_ok:
  assumes "AutoGapToleranceKB cfg < 2 ^ 53" "AutoMinSequentialMB cfg < 2 ^ 43"
  shows "policy_ok (NewFetchPolicy cfg)"
proof -
  have w: "wrap64 (x * 1024) = x * 1024" if "0 \<le> x" "x < 2 ^ 53" for x :: int
    using that by (simp add: in_int64_def)
  have w2: "wrap64 (wrap64 (x * 1024) * 1024) = x * 1048576" if "0 < x" "x < 2 ^ 43" for x :: int
    using that by (simp add: in_int64_def)
  show ?thesis
    using assms
    by (simp add: policy_ok_def NewFetchPolicy_def Let_def w w2 fetchModeAuto_def defaultAutoGapToleranceKB_def
        defaultAutoMinRangeRequests_def defaultAutoMinSequentialMB_def defaultAutoMinSequentialRate_def
        defaultAutoMaxBackwardSeeks_def defaultAutoFileHintTTL_def defaultAutoPromotionCooldown_def not_less not_le
        in_int64_def)
qed

lemma ResolveMode_file_iff:
  "fst (ResolveMode f now p) = fetchModeFile \<longleftrightarrow>
     mode p = fetchModeFile \<or>
     mode p = fetchModeAuto \<and> isAdaptiveTargetFile f \<and> \<not> Before now (cooldownUntil p f) \<and> Before now (fileHints p f)"
  by (auto simp: ResolveMode_def fetchModeAuto_def fetchModeFile_def fetchModeRange_def)

text \<open>Resolving changes nothing but to drop the expired hint of the file.\<close>

lemma ResolveMode_policy:
  "snd (ResolveMode f now p) = p \<or>
     \<not> Before now (fileHints p f) \<and> snd (ResolveMode f now p) = p\<lparr>fileHints := (fileHints p)(f := None)\<rparr>"
  by (auto simp: ResolveMode_def)

text \<open>A hint and a cooldown of the same file never stand together.\<close>

definition hints_exclusive :: "FetchPolicy \<Rightarrow> bool" where
  "hints_exclusive p \<longleftrightarrow> dom (fileHints p) \<inter> dom (cooldownUntil p) = {}"

lemma hints_exclusive_preserved:
  "hints_exclusive (NewFetchPolicy cfg)"
  "hints_exclusive p \<Longrightarrow> hints_exclusive (MarkPromotionSuccess f now p)"
  "hints_exclusive p \<Longrightarrow> hints_exclusive (MarkPromotionFailure f now p)"
  "hints_exclusive p \<Longrightarrow> hints_exclusive (snd (ResolveMode f now p))"
  by (auto simp: hints_exclusive_def NewFetchPolicy_def Let_def MarkPromotionSuccess_def
      MarkPromotionFailure_def ResolveMode_def)

section \<open>The tracker\<close>

definition tracker_inv :: "SequentialReadTracker \<Rightarrow> bool" where
  "tracker_inv t \<longleftrightarrow> 0 \<le> sequentialBytes t \<and> sequentialBytes t \<le> totalBytes t \<and> 0 \<le> backwardSeeks t
     \<and> backwardSeeks t \<le> rangeRequests t \<and> (\<not> initialized t \<longrightarrow> rangeRequests t = 0 \<and> totalBytes t = 0)"

text \<open>A run of reads: offset and length of each.\<close>

definition observe_all :: "FetchPolicy \<Rightarrow> (int \<times> int) list \<Rightarrow> SequentialReadTracker" where
  "observe_all p reads = foldl (\<lambda>t (off, n). ObserveRangeRead p off n t) new_tracker reads"

lemma ObserveRangeRead_inv:
  assumes "tracker_inv t" "0 \<le> rangeRequests t" "rangeRequests t < 2 ^ 62" "totalBytes t + n < 2 ^ 63"
  shows "tracker_inv (ObserveRangeRead p off n t)"
    and "rangeRequests (ObserveRangeRead p off n t) = rangeRequests t + (if n \<le> 0 then 0 else 1)"
    and "totalBytes (ObserveRangeRead p off n t) = totalBytes t + max 0 n"
proof -
  have w: "0 < n \<Longrightarrow> wrap64 (totalBytes t + n) = totalBytes t + n"
    "wrap64 (rangeRequests t + 1) = rangeRequests t + 1"
    "0 < n \<Longrightarrow> wrap64 (sequentialBytes t + n) = sequentialBytes t + n"
    "wrap64 (backwardSeeks t + 1) = backwardSeeks t + 1"
    using assms by (simp_all add: in_int64_def tracker_inv_def)
  show "tracker_inv (ObserveRangeRead p off n t)"
    "rangeRequests (ObserveRangeRead p off n t) = rangeRequests t + (if n \<le> 0 then 0 else 1)"
    "totalBytes (ObserveRangeRead p off n t) = totalBytes t + max 0 n"
    using assms(1,2) by (auto simp: ObserveRangeRead_def Let_def w tracker_inv_def not_le)
qed

lemma f64_div_self: "0 < x \<Longrightarrow> f64_div x x = 1"
  by (simp add: f64_div_def Let_def)

lemma bit_length_upper: "n < 2 ^ bit_length n"
  by (induction n rule: bit_length.induct) (subst bit_length.simps, auto simp: div_less_iff_less_mult mult.commute)

lemma bit_length_lower: "0 < n \<Longrightarrow> 2 ^ (bit_length n - 1) \<le> n"
proof (induction n rule: bit_length.induct)
  case (1 n)
  show ?case
  proof (cases "n div 2 = 0")
    case True
    then have "n = 1" using 1 by linarith
    then show ?thesis by (simp add: bit_length.simps)
  next
    case False
    then have "2 * 2 ^ (bit_length (n div 2) - 1) \<le> 2 * (n div 2)" using 1 by simp
    moreover have "0 < bit_length (n div 2)" using False by (simp add: bit_length.simps [of "n div 2"])
    ultimately show ?thesis using 1(2) by (subst bit_length.simps) (simp flip: power_Suc)
  qed
qed

lemma f64_int_pos: "0 < a \<Longrightarrow> 0 < f64_int a"
proof -
  assume a: "0 < a"
  let ?e = "bit_length (nat a) - 53"
  have "(2::nat) ^ ?e \<le> 2 ^ (bit_length (nat a) - 1)" by (rule power_increasing) auto
  also have "\<dots> \<le> nat a" using a by (intro bit_length_lower) simp
  finally have "int (2 ^ ?e) \<le> a" using a by (simp add: nat_le_iff le_nat_iff)
  then have "0 < a div 2 ^ ?e" by (simp add: pos_imp_zdiv_pos_iff)
  then show ?thesis by (auto simp: f64_int_def Let_def)
qed

section \<open>Sequential readers\<close>

text \<open>Reads that follow one another from \<open>e\<close> on, with gaps of at most \<open>g\<close> bytes.\<close>

fun follows :: "int \<Rightarrow> int \<Rightarrow> (int \<times> int) list \<Rightarrow> bool" where
  "follows g e [] = True"
| "follows g e ((off, n) # reads) \<longleftrightarrow>
     0 < n \<and> e \<le> off \<and> off \<le> e + g \<and> off + n < 2 ^ 63 \<and> follows g (off + n) reads"

definition total_read :: "(int \<times> int) list \<Rightarrow> int" where
  "total_read reads = (\<Sum>(off, n) \<leftarrow> reads. n)"

lemma total_read_simps [simp]: "total_read [] = 0" "total_read ((off, n) # rs) = n + total_read rs"
  by (simp_all add: total_read_def)

lemma total_read_nonneg: "follows g e reads \<Longrightarrow> 0 \<le> total_read reads"
  by (induction g e reads rule: follows.induct) auto

lemma observe_follows:
  assumes "follows (gapToleranceBytes p) (lastEndOffset t) reads" "initialized t" "0 \<le> lastEndOffset t"
    and "sequentialBytes t = totalBytes t" "0 \<le> totalBytes t" "0 \<le> rangeRequests t"
    and "totalBytes t + total_read reads < 2 ^ 63" "rangeRequests t + int (length reads) < 2 ^ 63"
  defines "t' \<equiv> foldl (\<lambda>t (off, n). ObserveRangeRead p off n t) t reads"
  shows "sequentialBytes t' = totalBytes t + total_read reads \<and> totalBytes t' = totalBytes t + total_read reads
    \<and> rangeRequests t' = rangeRequests t + int (length reads) \<and> backwardSeeks t' = backwardSeeks t"
  using assms(1-8) unfolding t'_def
proof (induction reads arbitrary: t)
  case Nil
  then show ?case by simp
next
  case (Cons r reads)
  obtain off n where r: "r = (off, n)" by fastforce
  let ?t = "ObserveRangeRead p off n t"
  have prem: "0 < n" "lastEndOffset t \<le> off" "off - lastEndOffset t \<le> gapToleranceBytes p" "off + n < 2 ^ 63"
    "follows (gapToleranceBytes p) (off + n) reads"
    using Cons.prems(1) r by auto
  have nn: "0 \<le> total_read reads" by (rule total_read_nonneg [OF prem(5)])
  have "in_int64 (rangeRequests t + 1)" "in_int64 (totalBytes t + n)" "in_int64 (off + n)"
    "in_int64 (off - lastEndOffset t)"
    using Cons.prems prem nn r by (auto simp: in_int64_def)
  then have t: "sequentialBytes ?t = totalBytes t + n" "totalBytes ?t = totalBytes t + n" "initialized ?t"
    "rangeRequests ?t = rangeRequests t + 1" "lastEndOffset ?t = off + n" "backwardSeeks ?t = backwardSeeks t"
    using Cons.prems prem by (simp_all add: ObserveRangeRead_def Let_def)
  show ?case
    using Cons.IH [of ?t] Cons.prems prem(1-5) unfolding r by (simp add: t)
qed

lemma observe_all_follows:
  assumes "follows (gapToleranceBytes p) e reads" "reads \<noteq> []" "0 \<le> e"
    and "total_read reads < 2 ^ 63" "length reads < 2 ^ 62"
  shows "sequentialBytes (observe_all p reads) = total_read reads \<and> totalBytes (observe_all p reads) = total_read reads
    \<and> rangeRequests (observe_all p reads) = int (length reads) \<and> backwardSeeks (observe_all p reads) = 0"
proof -
  obtain off n rs where r: "reads = (off, n) # rs" using assms(2) by (metis neq_Nil_conv surj_pair)
  have prem: "0 < n" "e \<le> off" "off + n < 2 ^ 63" "follows (gapToleranceBytes p) (off + n) rs"
    using assms(1) r by auto
  have nn: "0 \<le> total_read rs" by (rule total_read_nonneg [OF prem(4)])
  have "in_int64 n" "in_int64 (off + n)" using prem nn assms(3,4) r by (auto simp: in_int64_def)
  then have t: "ObserveRangeRead p off n new_tracker = \<lparr>initialized = True, lastEndOffset = off + n,
      rangeRequests = 1, totalBytes = n, sequentialBytes = n, backwardSeeks = 0\<rparr>"
    using prem(1) by (simp add: ObserveRangeRead_def new_tracker_def in_int64_def)
  show ?thesis
    using observe_follows [of p "ObserveRangeRead p off n new_tracker" rs] prem assms(3,4,5)
    unfolding r observe_all_def by (simp add: t)
qed

section \<open>Properties\<close>

text \<open>
  A reader that goes through a block file in order, with gaps within the tolerance, is
  promoted to whole-file fetching as soon as it has made the configured number of requests for
  the configured number of bytes and no cooldown is running: the rate and seek limits of a
  well-formed policy never hold it back.
\<close>

theorem sequential_reader_promoted:
  assumes "policy_ok p" "mode p = fetchModeAuto" "isAdaptiveTargetFile f"
    and "follows (gapToleranceBytes p) e reads" "0 \<le> e" "total_read reads < 2 ^ 63" "length reads < 2 ^ 62"
    and "minRangeRequests p \<le> int (length reads)" "minSequentialBytes p \<le> total_read reads"
  shows "ShouldPromoteToFile f (Some (observe_all p reads)) now p \<longleftrightarrow> \<not> Before now (cooldownUntil p f)"
proof -
  have ne: "reads \<noteq> []" using assms(1,8) by (auto simp: policy_ok_def)
  note t = observe_all_follows [OF assms(4) ne assms(5,6,7)]
  have pos: "0 < total_read reads" using assms(1,9) by (simp add: policy_ok_def)
  then show ?thesis
    using t assms f64_div_self [OF f64_int_pos [OF pos]]
    by (simp add: ShouldPromoteToFile_def policy_ok_def)
qed

definition example_policy :: FetchPolicy where
  "example_policy = \<lparr>mode = fetchModeAuto, gapToleranceBytes = 2, minRangeRequests = 2, minSequentialBytes = 8,
     minSequentialRate = 1, maxBackwardSeeks = 0, fileHintTTL = 60, promotionCooldown = 30,
     fileHints = Map.empty, cooldownUntil = Map.empty\<rparr>"

theorem sequential_reader_promoted_witness:
  "ShouldPromoteToFile ''blk00000.dat'' (Some (observe_all example_policy [(0, 4), (5, 4)])) 7 example_policy"
  using sequential_reader_promoted [of example_policy "''blk00000.dat''" 0 "[(0, 4), (5, 4)]" 7]
  by (simp add: example_policy_def policy_ok_def isAdaptiveTargetFile_def Before_def fetchModeAuto_def)

text \<open>
  In automatic mode, a successful promotion makes exactly the reads of that file within the
  time to live of the hint use whole-file fetching; after a failed one no read of the file
  does, and no promotion is proposed before the cooldown is over. The other files are treated
  as before.
\<close>

theorem promotion_windows:
  assumes "mode p = fetchModeAuto" "isAdaptiveTargetFile f"
  shows "(fst (ResolveMode f t (MarkPromotionSuccess f now p)) = fetchModeFile \<longleftrightarrow> t < now + fileHintTTL p)
    \<and> fst (ResolveMode f t (MarkPromotionFailure f now p)) = fetchModeRange
    \<and> (ShouldPromoteToFile f tr t (MarkPromotionFailure f now p) \<longrightarrow> now + promotionCooldown p \<le> t)
    \<and> (g \<noteq> f \<longrightarrow> fst (ResolveMode g t (MarkPromotionSuccess f now p)) = fst (ResolveMode g t p)
          \<and> fst (ResolveMode g t (MarkPromotionFailure f now p)) = fst (ResolveMode g t p))"
  using assms
  by (auto simp: ResolveMode_def MarkPromotionSuccess_def MarkPromotionFailure_def ShouldPromoteToFile_def Before_def
      fetchModeAuto_def fetchModeFile_def fetchModeRange_def split: option.splits if_splits)

theorem promotion_windows_witness:
  "fst (ResolveMode ''blk00001.dat'' 69 (MarkPromotionSuccess ''blk00001.dat'' 10 example_policy)) = fetchModeFile
   \<and> fst (ResolveMode ''blk00001.dat'' 70 (MarkPromotionSuccess ''blk00001.dat'' 10 example_policy)) \<noteq> fetchModeFile"
  using promotion_windows [of example_policy "''blk00001.dat''" 69 10] promotion_windows [of example_policy "''blk00001.dat''" 70 10]
  by (simp add: example_policy_def isAdaptiveTargetFile_def)

text \<open>
  Every configuration, also one with values out of range, gives a usable policy: a mode,
  positive thresholds and durations and a rate between 0 and 1, as long as the sizes do not
  overflow 64 bits.
\<close>

theorem NewFetchPolicy_usable:
  assumes "AutoGapToleranceKB cfg < 2 ^ 53" "AutoMinSequentialMB cfg < 2 ^ 43"
  shows "mode (NewFetchPolicy cfg) \<noteq> [] \<and> 0 \<le> gapToleranceBytes (NewFetchPolicy cfg)
    \<and> 1 \<le> minRangeRequests (NewFetchPolicy cfg) \<and> 0 < minSequentialBytes (NewFetchPolicy cfg)
    \<and> 0 < minSequentialRate (NewFetchPolicy cfg) \<and> minSequentialRate (NewFetchPolicy cfg) \<le> 1
    \<and> 0 \<le> maxBackwardSeeks (NewFetchPolicy cfg) \<and> 0 < fileHintTTL (NewFetchPolicy cfg)
    \<and> 0 < promotionCooldown (NewFetchPolicy cfg)"
  using NewFetchPolicy_ok [OF assms] by (simp add: policy_ok_def)

theorem NewFetchPolicy_usable_witness:
  "0 < minSequentialBytes (NewFetchPolicy \<lparr>cfg_Mode = [], AutoGapToleranceKB = -5, AutoMinRangeRequests = 0,
     AutoMinSequentialMB = -7, AutoMinSequentialRate = 3, AutoMaxBackwardSeeks = -1, AutoFileHintTTL = -1,
     AutoPromotionCooldown = 0\<rparr>)"
  using NewFetchPolicy_usable [of "\<lparr>cfg_Mode = [], AutoGapToleranceKB = -5, AutoMinRangeRequests = 0,
     AutoMinSequentialMB = -7, AutoMinSequentialRate = 3, AutoMaxBackwardSeeks = -1, AutoFileHintTTL = -1,
     AutoPromotionCooldown = 0\<rparr>"]
  by simp

end
