(* ===== verification/Fusefs_State.thy ===== *)
theory Fusefs_State
  imports Blockmap Disk_Cache Block_Cache Manifest Fetch_Policy
begin

text \<open>
  The state of the file system (\<open>internal/fusefs/fs.go\<close>), its environment, the names of its
  files (\<open>inode.go\<close>, \<open>local.go\<close>) and the scan of the local directory. The handlers run one
  after the other: each is a function from the state before to the state after. The
  environment of a handler holds the outcomes of its system calls, of the database engine
  and of the remote client, and the readings of the clock. Shown: inode numbers of block
  files do not collide, and what the scan of the local directory returns.
\<close>

datatype errno = EIO | ENOENT | ENODATA | EACCES | PANIC string

text \<open>A handler's answer: an error number or a value. \<open>PANIC\<close> is a run-time panic in it.\<close>

type_synonym 'a reply = "errno + 'a"

text \<open>The interface \<open>RemoteClient\<close>: what each request returns at the moment of the call.\<close>

record remote =
  FetchFile :: "string \<Rightarrow> bytes result"
  FetchBlockmap :: "string \<Rightarrow> bytes result"
  FetchBlock :: "string \<Rightarrow> int \<Rightarrow> int \<Rightarrow> bytes result"

definition remote_ErrFileNotFound :: go_error where
  "remote_ErrFileNotFound = ErrNew ''file not found''"

record fs_env =
  env_io :: io_env
  env_db :: db_env
  env_rc :: remote
  env_now :: time
  env_later :: time

record FS =
  fs_disk :: disk
  fs_st :: "Row list"
  fs_policy :: FetchPolicy
  fs_manifest :: "Manifest option"
  fs_localDir :: string
  fs_ca :: DiskCache
  fs_bc :: "DiskBlockCache option"
  fs_blockmaps :: "string \<rightharpoonup> Blockmap"
  fs_noBlockmap :: "string \<Rightarrow> bool"
  fs_writeHandles :: "string \<rightharpoonup> int"
  fs_finCh :: "string list"
  fs_indexDir :: string

definition New_fs ::
  "disk \<Rightarrow> string \<Rightarrow> string \<Rightarrow> Row list \<Rightarrow> DiskCache \<Rightarrow> Manifest option \<Rightarrow> DiskBlockCache option
     \<Rightarrow> (string \<rightharpoonup> Blockmap) \<Rightarrow> FetchPolicy option \<Rightarrow> FS" where
  "New_fs d ldir idir db c m b bms policy =
     \<lparr>fs_disk = d, fs_st = db,
      fs_policy = (case policy of
          Some p \<Rightarrow> p
        | None \<Rightarrow> NewFetchPolicy \<lparr>cfg_Mode = [], AutoGapToleranceKB = 0, AutoMinRangeRequests = 0,
            AutoMinSequentialMB = 0, AutoMinSequentialRate = 0, AutoMaxBackwardSeeks = 0,
            AutoFileHintTTL = 0, AutoPromotionCooldown = 0\<rparr>),
      fs_manifest = m, fs_localDir = ldir, fs_ca = c, fs_bc = b, fs_blockmaps = bms,
      fs_noBlockmap = (\<lambda>_. False), fs_writeHandles = Map.empty, fs_finCh = [], fs_indexDir = idir\<rparr>"

definition UpdateManifest :: "Manifest option \<Rightarrow> FS \<Rightarrow> FS" where
  "UpdateManifest m f = f\<lparr>fs_manifest := m\<rparr>"

section \<open>Inode numbers\<close>

text \<open>The 64-bit FNV-1a hash of the standard library.\<close>

definition fnv64a :: "string \<Rightarrow> 64 word" where
  "fnv64a s = foldl (\<lambda>h c. (h XOR of_char c) * 1099511628211) 14695981039346656037 s"

definition file_number :: "string \<Rightarrow> string \<Rightarrow> nat option" where
  "file_number pre name =
     (if HasPrefix name pre \<and> HasSuffix name ''.dat''
      then ParseUint (TrimSuffix (TrimPrefix name pre) ''.dat'') else None)"

definition InodeForFile :: "string \<Rightarrow> 64 word" where
  "InodeForFile name =
     (if name = ''xor.dat'' then 3
      else if name = ''.lock'' then 4
      else case file_number ''blk'' name of
        Some n \<Rightarrow> 1000000 + of_nat n
      | None \<Rightarrow>
          (case file_number ''rev'' name of
             Some n \<Rightarrow> 2000000 + of_nat n
           | None \<Rightarrow> 3000000 + fnv64a name mod 1000000))"

section \<open>Local files\<close>

definition LocalFilePath :: "string \<Rightarrow> string \<Rightarrow> string" where
  "LocalFilePath dir filename = path_Join dir filename"

definition parseBlockFileNumber :: "string \<Rightarrow> string \<Rightarrow> int option" where
  "parseBlockFileNumber name pre =
     (if \<not> HasPrefix name pre \<or> \<not> HasSuffix name ''.dat'' then None
      else let mid = slice (length pre) (length name - 4 - length pre) name
           in if length mid = 0 then None else Atoi mid)"

text \<open>One directory entry: the file record it gives, if any, and the disk after it.\<close>

definition scan_local_entry ::
  "io_env \<Rightarrow> (string \<Rightarrow> time) \<Rightarrow> time \<Rightarrow> string \<Rightarrow> string \<Rightarrow> disk \<Rightarrow> FileEntry list \<times> disk" where
  "scan_local_entry env modtime now dir name d =
     (if fault env (SysStat (path_Join dir name)) \<noteq> None then ([], d)
      else
        let size = file_size d (path_Join dir name);
            isBlk = parseBlockFileNumber name ''blk'' \<noteq> None;
            isRev = parseBlockFileNumber name ''rev'' \<noteq> None
        in if \<not> isBlk \<and> \<not> isRev
           then ([], if size = 0 then snd (os_Remove env (path_Join dir name) d) else d)
           else ([\<lparr>fe_Filename = name, fe_State = FileStateActive, fe_Source = FileSourceLocal,
                   fe_Size = size, fe_SHA256 = [], fe_CreatedAt = modtime name, fe_LastAccess = now,
                   fe_HeightFirst = 0, fe_HeightLast = 0\<rparr>], d))"

fun scan_local_loop ::
  "io_env \<Rightarrow> (string \<Rightarrow> time) \<Rightarrow> time \<Rightarrow> string \<Rightarrow> string list \<Rightarrow> disk \<Rightarrow> FileEntry list \<times> disk" where
  "scan_local_loop env modtime now dir [] d = ([], d)"
| "scan_local_loop env modtime now dir (n # ns) d =
     (case scan_local_entry env modtime now dir n d of (es, d1) \<Rightarrow>
      case scan_local_loop env modtime now dir ns d1 of (es', d2) \<Rightarrow> (es @ es', d2))"

definition ScanLocalFiles ::
  "io_env \<Rightarrow> (string \<Rightarrow> time) \<Rightarrow> time \<Rightarrow> string \<Rightarrow> disk \<Rightarrow> FileEntry list result \<times> disk" where
  "ScanLocalFiles env modtime now dir d =
     (case os_ReadDir env d dir of
        Inl e \<Rightarrow> if e = ErrNotExist then (Inr [], d) else (Inl e, d)
      | Inr names \<Rightarrow> (case scan_local_loop env modtime now dir names d of (es, d') \<Rightarrow> (Inr es, d')))"

section \<open>Names and numbers\<close>

lemma file_number_name:
  assumes "n < 2 ^ 64"
  shows "file_number pre (pre @ replicate k CHR ''0'' @ Itoa_nat n @ ''.dat'') = Some n"
proof -
  have s: "HasSuffix (pre @ replicate k CHR ''0'' @ Itoa_nat n @ ''.dat'') ''.dat''"
    unfolding HasSuffix_iff by (metis append.assoc)
  have t: "TrimSuffix ((replicate k CHR ''0'' @ Itoa_nat n) @ ''.dat'') ''.dat'' = replicate k CHR ''0'' @ Itoa_nat n"
    unfolding TrimSuffix_def by (simp add: HasSuffix_append del: append_assoc)
  show ?thesis
    using t s ParseUint_Itoa [OF assms, of k] by (simp add: file_number_def TrimPrefix_def)
qed

text \<open>The name Bitcoin Core gives its block files: a prefix and five digits.\<close>

definition block_file_name :: "string \<Rightarrow> nat \<Rightarrow> string" where
  "block_file_name pre n = pre @ Sprintf_0d 5 (int n) @ ''.dat''"

lemma block_file_name_eq:
  "block_file_name pre n = pre @ replicate (5 - length (Itoa_nat n)) CHR ''0'' @ Itoa_nat n @ ''.dat''"
  by (simp add: block_file_name_def Sprintf_0d_def)

lemma InodeForFile_blk: "n < 2 ^ 64 \<Longrightarrow> InodeForFile (block_file_name ''blk'' n) = 1000000 + of_nat n"
  using file_number_name [of n "''blk''"] by (simp add: InodeForFile_def block_file_name_eq)

lemma InodeForFile_rev: "n < 2 ^ 64 \<Longrightarrow> InodeForFile (block_file_name ''rev'' n) = 2000000 + of_nat n"
  using file_number_name [of n "''rev''"]
  by (simp add: InodeForFile_def block_file_name_eq file_number_def [of "''blk''"] HasPrefix_def)

lemma parseBlockFileNumber_name:
  assumes "int n < 2 ^ 63"
  shows "parseBlockFileNumber (block_file_name pre n) pre = Some (int n)"
proof -
  have "HasSuffix (block_file_name pre n) ''.dat''" "HasPrefix (block_file_name pre n) pre"
    unfolding block_file_name_def by (simp_all add: HasSuffix_iff)
  moreover have "slice (length pre) (length (block_file_name pre n) - 4 - length pre) (block_file_name pre n)
      = Sprintf_0d 5 (int n)"
    by (simp add: block_file_name_def slice_def)
  moreover have "Sprintf_0d 5 (int n) \<noteq> []"
    using Itoa_nat_digits [of n] by (simp add: Sprintf_0d_def)
  ultimately show ?thesis
    using Atoi_Sprintf [of "int n" 5] assms by (simp add: parseBlockFileNumber_def in_int64_def)
qed

section \<open>The scan\<close>

definition is_block_name :: "string \<Rightarrow> bool" where
  "is_block_name n \<longleftrightarrow> parseBlockFileNumber n ''blk'' \<noteq> None \<or> parseBlockFileNumber n ''rev'' \<noteq> None"

text \<open>Block files are never touched; the records are theirs, in order, all ACTIVE with the size on disk.\<close>

lemma scan_local_loop_spec:
  assumes "scan_local_loop env modtime now dir ns d = (es, d')" "\<forall>n. fault env (SysStat (path_Join dir n)) = None"
    "distinct ns"
  shows "map fe_Filename es = filter is_block_name ns
    \<and> (\<forall>e \<in> set es. fe_State e = FileStateActive \<and> fe_Size e = file_size d (path_Join dir (fe_Filename e)))
    \<and> (\<forall>p. d' p \<noteq> d p \<longrightarrow> (\<exists>n \<in> set ns. p = path_Join dir n \<and> \<not> is_block_name n \<and> file_size d p = 0))"
  using assms
proof (induction ns arbitrary: d es)
  case Nil
  then show ?case by simp
next
  case (Cons n ns)
  obtain es1 d1 es2 where e1: "scan_local_entry env modtime now dir n d = (es1, d1)"
    and e2: "scan_local_loop env modtime now dir ns d1 = (es2, d')" and es: "es = es1 @ es2"
    using Cons.prems(1) by (auto split: prod.splits)
  have d1: "d1 p = d p" if "p \<noteq> path_Join dir n \<or> is_block_name n \<or> file_size d p \<noteq> 0" for p
    using e1 Cons.prems(2) that
    by (auto simp: scan_local_entry_def Let_def is_block_name_def os_Remove_other split: if_splits)
  have sz: "file_size d1 (path_Join dir m) = file_size d (path_Join dir m)" if "m \<in> set ns" for m
  proof -
    have "m \<noteq> n" using Cons.prems(3) that by auto
    then have "d1 (path_Join dir m) = d (path_Join dir m)" by (intro d1) simp
    then show ?thesis by (simp add: file_size_def)
  qed
  have one: "map fe_Filename es1 = filter is_block_name [n]
      \<and> (\<forall>e \<in> set es1. fe_State e = FileStateActive \<and> fe_Size e = file_size d (path_Join dir (fe_Filename e)))"
    using e1 Cons.prems(2) by (auto simp: scan_local_entry_def Let_def is_block_name_def split: if_splits)
  note IH = Cons.IH [OF e2 Cons.prems(2)]
  have names: "fe_Filename e \<in> set ns" if "e \<in> set es2" for e
    using IH Cons.prems(3) that by (metis distinct.simps(2) filter_is_subset image_eqI list.set_map subsetD)
  have change: "\<exists>m \<in> set (n # ns). p = path_Join dir m \<and> \<not> is_block_name m \<and> file_size d p = 0" if "d' p \<noteq> d p" for p
  proof (cases "d1 p = d p")
    case True
    then have "d' p \<noteq> d1 p" using \<open>d' p \<noteq> d p\<close> by simp
    then obtain m where "m \<in> set ns" "p = path_Join dir m" "\<not> is_block_name m" "file_size d1 p = 0"
      using IH Cons.prems(3) by (meson distinct.simps(2))
    then show ?thesis using sz by auto
  next
    case False
    then show ?thesis using d1 [of p] by auto
  qed
  show ?case
    using IH Cons.prems(3) one sz names change by (auto simp: es)
qed

section \<open>Properties\<close>

text \<open>
  Inode numbers of the block and undo files that a node can have never collide, with each
  other or with those of \<open>xor.dat\<close> and \<open>.lock\<close>.
\<close>

theorem inodes_distinct:
  assumes "m < 1000000" "n < 1000000"
  shows "(InodeForFile (block_file_name ''blk'' m) = InodeForFile (block_file_name ''blk'' n) \<longleftrightarrow> m = n)
    \<and> (InodeForFile (block_file_name ''rev'' m) = InodeForFile (block_file_name ''rev'' n) \<longleftrightarrow> m = n)
    \<and> InodeForFile (block_file_name ''blk'' m) \<noteq> InodeForFile (block_file_name ''rev'' n)
    \<and> {InodeForFile (block_file_name ''blk'' m), InodeForFile (block_file_name ''rev'' m)}
        \<inter> {InodeForFile ''xor.dat'', InodeForFile ''.lock''} = {}"
proof -
  have w: "(1000000 + of_nat k :: 64 word) = of_nat (1000000 + k)" "(2000000 + of_nat k :: 64 word) = of_nat (2000000 + k)"
      "(3 :: 64 word) = of_nat 3" "(4 :: 64 word) = of_nat 4" for k
    by simp_all
  have eq: "(of_nat a :: 64 word) = of_nat b \<longleftrightarrow> a = b" if "a < 4000000" "b < 4000000" for a b
    using that by (simp add: word_of_nat_eq_iff take_bit_nat_eq_self)
  have i: "InodeForFile (block_file_name ''blk'' k) = of_nat (1000000 + k)"
    "InodeForFile (block_file_name ''rev'' k) = of_nat (2000000 + k)" if "k < 1000000" for k
    using that by (simp_all add: InodeForFile_blk InodeForFile_rev)
  have s: "InodeForFile ''xor.dat'' = of_nat 3" "InodeForFile ''.lock'' = of_nat 4"
    by (simp_all add: InodeForFile_def)
  show ?thesis unfolding s i [OF assms(1)] i [OF assms(2)] using assms by (simp add: eq del: of_nat_add of_nat_numeral)
qed

theorem inodes_distinct_witness:
  "InodeForFile (block_file_name ''blk'' 7) \<noteq> InodeForFile (block_file_name ''rev'' 7)"
  using inodes_distinct [of 7 7] by simp

text \<open>
  The scan at start-up records exactly the block and undo files of the local directory,
  in the directory's order, all ACTIVE and with their size on disk; the only files it
  removes are empty files of other names in that directory.
\<close>

theorem ScanLocalFiles_exact:
  assumes "ScanLocalFiles env modtime now dir d = (Inr es, d')" "\<forall>c. fault env c = None" "finite (dom d)"
  shows "fe_Filename ` set es = {n \<in> dir_names d dir. is_block_name n}
    \<and> sorted (map fe_Filename es) \<and> distinct (map fe_Filename es)
    \<and> (\<forall>e \<in> set es. fe_State e = FileStateActive \<and> fe_Size e = file_size d (path_Join dir (fe_Filename e)))
    \<and> (\<forall>p. d' p \<noteq> d p \<longrightarrow> (\<exists>n \<in> dir_names d dir. p = path_Join dir n \<and> \<not> is_block_name n \<and> file_size d p = 0))"
proof -
  let ?ns = "sorted_list_of_set (dir_names d dir)"
  have "scan_local_loop env modtime now dir ?ns d = (es, d')"
    using assms(1,2) by (auto simp: ScanLocalFiles_def os_ReadDir_def split: prod.splits)
  from scan_local_loop_spec [OF this] assms(2)
  have s: "map fe_Filename es = filter is_block_name ?ns"
    "\<forall>e \<in> set es. fe_State e = FileStateActive \<and> fe_Size e = file_size d (path_Join dir (fe_Filename e))"
    "\<forall>p. d' p \<noteq> d p \<longrightarrow> (\<exists>n \<in> set ?ns. p = path_Join dir n \<and> \<not> is_block_name n \<and> file_size d p = 0)"
    by auto
  have ns: "set ?ns = dir_names d dir" using finite_dir_names [OF assms(3)] by simp
  have "fe_Filename ` set es = {n \<in> dir_names d dir. is_block_name n}"
    using arg_cong [OF s(1), of set] ns by auto
  moreover have "sorted (map fe_Filename es)" "distinct (map fe_Filename es)"
    unfolding s(1) by (simp_all add: sorted_filter [of "\<lambda>x. x", simplified])
  ultimately show ?thesis using s(2,3) ns by simp
qed

theorem ScanLocalFiles_exact_witness:
  "\<exists>es d'. ScanLocalFiles io_ok (\<lambda>_. 0) 0 ''d'' [''d/blk00003.dat'' \<mapsto> [1], ''d/x'' \<mapsto> []] = (Inr es, d')
     \<and> fe_Filename ` set es = {''blk00003.dat''}"
proof -
  let ?d = "[''d/blk00003.dat'' \<mapsto> [1], ''d/x'' \<mapsto> []] :: disk"
  obtain r d' where s: "ScanLocalFiles io_ok (\<lambda>_. 0) 0 ''d'' ?d = (r, d')" by fastforce
  then obtain es where r: "r = Inr es" by (auto simp: ScanLocalFiles_def os_ReadDir_def split: prod.splits)
  have "parseBlockFileNumber ''blk00003.dat'' ''blk'' \<noteq> None" "parseBlockFileNumber ''x'' ''blk'' = None"
    "parseBlockFileNumber ''x'' ''rev'' = None"
    by code_simp+
  then have b: "is_block_name ''blk00003.dat''" "\<not> is_block_name ''x''" by (simp_all add: is_block_name_def)
  have "dir_names ?d ''d'' = {''blk00003.dat'', ''x''}" by (auto simp: dir_names_def path_Join_def)
  with ScanLocalFiles_exact [OF s [unfolded r]] b have "fe_Filename ` set es = {''blk00003.dat''}" by auto
  then show ?thesis using s r by blast
qed

end
