(* ===== verification/Fusefs_Read.thy ===== *)
theory Fusefs_Read
  imports Fusefs_State
begin

text \<open>
  \<open>internal/fusefs/handle.go\<close>: reads through a file handle. A file on local disk or in the
  cache is read there; a REMOTE file is read by blocks (with a blockmap), by ranges or
  fetched whole, as the policy says, with the other ways as fallbacks. The buffer \<open>dest\<close>
  that the kernel passes is an argument with its content, since \<open>assembleRead\<close> copies into
  it. Shown: the bytes assembled from cached blocks are the bytes of the file, and every
  read of a REMOTE file that succeeds returns what the server's file holds there.
\<close>

record FileHandle =
  h_filename :: string
  h_state :: FileState
  h_special :: bool
  h_auto :: SequentialReadTracker

definition preadLocal :: "io_env \<Rightarrow> disk \<Rightarrow> string \<Rightarrow> nat \<Rightarrow> int \<Rightarrow> bytes reply" where
  "preadLocal env d path n off =
     (case os_Open env d path of
        Inl e \<Rightarrow> if errors_Is e ErrNotExist then Inl ENOENT else Inl EIO
      | Inr f \<Rightarrow>
          if off < 0 then Inl EIO
          else if n = 0 then Inr []
          else (case fault env (SysReadAt path (nat off)) of
                  Some e \<Rightarrow> if e = EOF then Inr [] else Inl EIO
                | None \<Rightarrow> Inr (slice (nat off) n f)))"

definition touch :: "fs_env \<Rightarrow> string \<Rightarrow> FS \<Rightarrow> FS" where
  "touch env f fs = fs\<lparr>fs_st := snd (UpdateLastAccess (env_db env) f (env_later env) (fs_st fs))\<rparr>"

definition manifest_file :: "string \<Rightarrow> FS \<Rightarrow> ManifestFile option" where
  "manifest_file f fs = FindFile (fs_manifest fs) f"

definition fetchAndCache :: "fs_env \<Rightarrow> string \<Rightarrow> FS \<Rightarrow> go_error option \<times> FS" where
  "fetchAndCache env f fs =
     (case GetFile (env_db env) (fs_st fs) f of
        Inl e \<Rightarrow> (Some e, fs)
      | Inr entry \<Rightarrow>
          if fe_State entry = FileStateCached \<or> fe_State entry = FileStateLocalFinalized then (None, fs)
          else
            (case FetchFile (env_rc env) f of
               Inl e \<Rightarrow> (Some e, fs)
             | Inr buf \<Rightarrow>
                 let expectedSHA256 =
                       (if fe_SHA256 entry = []
                        then (case manifest_file f fs of None \<Rightarrow> [] | Some mf \<Rightarrow> mf_SHA256 mf)
                        else fe_SHA256 entry)
                 in case Store_file (env_io env) (env_db env) (fs_ca fs) f buf expectedSHA256
                           (env_now env) (env_now env) (fs_disk fs, fs_st fs) of
                      (Some e, (d, db)) \<Rightarrow> (Some e, fs\<lparr>fs_disk := d, fs_st := db\<rparr>)
                    | (None, (d, db)) \<Rightarrow>
                        (case UpdateState (env_db env) f FileStateCached db of
                           (err, db') \<Rightarrow> (err, fs\<lparr>fs_disk := d, fs_st := db'\<rparr>))))"

section \<open>Block reads\<close>

definition getOrLoadBlockmap :: "fs_env \<Rightarrow> string \<Rightarrow> FS \<Rightarrow> Blockmap option result \<times> FS" where
  "getOrLoadBlockmap env f fs =
     (case fs_blockmaps fs f of
        Some bm \<Rightarrow> (Inr (Some bm), fs)
      | None \<Rightarrow>
          if fs_noBlockmap fs f then (Inr None, fs)
          else
            let none = (Inr None, fs\<lparr>fs_noBlockmap := (fs_noBlockmap fs)(f := True)\<rparr>) in
            case manifest_file f fs of
              None \<Rightarrow> none
            | Some mf \<Rightarrow>
                if \<not> HasBlockmap mf then none
                else
                  (case FetchBlockmap (env_rc env) f of
                     Inl e \<Rightarrow> if errors_Is e remote_ErrFileNotFound then none
                              else (Inl (Errorf ''fetch blockmap'' e), fs)
                   | Inr raw \<Rightarrow>
                       if EncodeToString (Sum256 raw) \<noteq> mf_BlockmapSHA256 mf then none
                       else
                         (case Read raw of
                            Inl e \<Rightarrow> none
                          | Inr (bm, _) \<Rightarrow>
                              let bm' = bm\<lparr>Filename := f\<rparr>
                              in (Inr (Some bm'), fs\<lparr>fs_blockmaps := (fs_blockmaps fs)(f \<mapsto> bm')\<rparr>))))"

text \<open>
  \<open>fetchBlock\<close>; the duplicate suppression of \<open>singleflight\<close> is invisible when handlers run
  one after the other.
\<close>

definition fetchBlock ::
  "fs_env \<Rightarrow> DiskBlockCache \<Rightarrow> string \<Rightarrow> BlockmapEntry \<Rightarrow> disk \<Rightarrow> go_error option \<times> disk" where
  "fetchBlock env b f entry d =
     (if HasBlock (env_io env) b f (FileOffset entry) d then (None, d)
      else
        let fetchLen = 8 + uint (BlockDataSize entry) in
        case FetchBlock (env_rc env) f (FileOffset entry) fetchLen of
          Inl e \<Rightarrow> (Some (Errorf ''fetch block'' e), d)
        | Inr data \<Rightarrow>
            if int (length data) < fetchLen then (Some (ErrNew ''short block''), d)
            else if length data < 88 then (Some (ErrNew ''block too small for header verification''), d)
            else if Sum256 (Sum256 (slice 8 80 data)) \<noteq> BlockHash entry
            then (Some (ErrNew ''block hash mismatch''), d)
            else
              (case StoreBlock (env_io env) b f (FileOffset entry) data d of
                 (Some e, d') \<Rightarrow> (Some (Errorf ''cache block'' e), d')
               | (None, d') \<Rightarrow> (None, d')))"

fun fetch_blocks ::
  "fs_env \<Rightarrow> DiskBlockCache \<Rightarrow> string \<Rightarrow> BlockmapEntry list \<Rightarrow> disk \<Rightarrow> go_error option \<times> disk" where
  "fetch_blocks env b f [] d = (None, d)"
| "fetch_blocks env b f (e # es) d =
     (if HasBlock (env_io env) b f (FileOffset e) d then fetch_blocks env b f es d
      else case fetchBlock env b f e d of
             (Some err, d') \<Rightarrow> (Some err, d')
           | (None, d') \<Rightarrow> fetch_blocks env b f es d')"

text \<open>\<open>copy(dest[k:], src)\<close>: the number of bytes copied and the buffer after it.\<close>

definition copy_at :: "bytes \<Rightarrow> nat \<Rightarrow> bytes \<Rightarrow> nat \<times> bytes" where
  "copy_at dest k src =
     (let n = min (length dest - k) (length src)
      in (n, take k dest @ take n src @ drop (k + n) dest))"

fun assemble_loop ::
  "io_env \<Rightarrow> DiskBlockCache \<Rightarrow> string \<Rightarrow> disk \<Rightarrow> int \<Rightarrow> int \<Rightarrow> BlockmapEntry list \<Rightarrow> nat \<Rightarrow> bytes
     \<Rightarrow> (nat \<times> bytes) result" where
  "assemble_loop env b f d off readEnd [] cnt dest = Inr (cnt, dest)"
| "assemble_loop env b f d off readEnd (entry # es) cnt dest =
     (case GetBlock env b f (FileOffset entry) d of
        Inl e \<Rightarrow> Inl (Errorf ''get cached block'' e)
      | Inr blockData \<Rightarrow>
          let blockStart = FileOffset entry;
              blockEnd = wrap64 (blockStart + int (length blockData));
              copyStart = (if off < blockStart then blockStart else off);
              copyEnd = (if readEnd > blockEnd then blockEnd else readEnd)
          in if copyStart \<ge> copyEnd then assemble_loop env b f d off readEnd es cnt dest
             else
               (case copy_at dest (nat (copyStart - off))
                       (slice (nat (copyStart - blockStart)) (nat (copyEnd - copyStart)) blockData) of
                  (n, dest') \<Rightarrow> assemble_loop env b f d off readEnd es (cnt + n) dest'))"

definition assembleRead ::
  "io_env \<Rightarrow> DiskBlockCache \<Rightarrow> string \<Rightarrow> disk \<Rightarrow> bytes \<Rightarrow> int \<Rightarrow> BlockmapEntry list \<Rightarrow> (nat \<times> bytes) result" where
  "assembleRead env b f d dest off blocks =
     assemble_loop env b f d off (wrap64 (off + int (length dest))) blocks 0 dest"

definition readViaBlockmap ::
  "fs_env \<Rightarrow> DiskBlockCache \<Rightarrow> string \<Rightarrow> bytes \<Rightarrow> int \<Rightarrow> FS \<Rightarrow> bytes reply \<times> FS" where
  "readViaBlockmap env b f dest off fs =
     (case getOrLoadBlockmap env f fs of
        (Inr (Some bm), fs1) \<Rightarrow>
          (case FindBlocks bm off (int (length dest)) of
             [] \<Rightarrow> (Inl ENODATA, fs1)
           | blocks \<Rightarrow>
               (case fetch_blocks env b f blocks (fs_disk fs1) of
                  (Some e, d) \<Rightarrow> (Inl EIO, fs1\<lparr>fs_disk := d\<rparr>)
                | (None, d) \<Rightarrow>
                    (case assembleRead (env_io env) b f d dest off blocks of
                       Inl e \<Rightarrow> (Inl EIO, fs1\<lparr>fs_disk := d\<rparr>)
                     | Inr (n, dest') \<Rightarrow> (Inr (take n dest'), fs1\<lparr>fs_disk := d\<rparr>))))
      | (_, fs1) \<Rightarrow> (Inl ENODATA, fs1))"

section \<open>The read handler\<close>

definition set_policy :: "(FetchPolicy \<Rightarrow> FetchPolicy) \<Rightarrow> FS \<Rightarrow> FS" where
  "set_policy g fs = fs\<lparr>fs_policy := g (fs_policy fs)\<rparr>"

definition observe :: "FS \<Rightarrow> int \<Rightarrow> int \<Rightarrow> FileHandle \<Rightarrow> FileHandle" where
  "observe fs off n h = h\<lparr>h_auto := ObserveRangeRead (fs_policy fs) off n (h_auto h)\<rparr>"

definition readRemoteFileMode ::
  "fs_env \<Rightarrow> bytes \<Rightarrow> int \<Rightarrow> FileHandle \<times> FS \<Rightarrow> bytes reply \<times> FileHandle \<times> FS" where
  "readRemoteFileMode env dest off = (\<lambda>(h, fs).
     let f = h_filename h in
     case fetchAndCache env f fs of
       (Some err, fs1) \<Rightarrow>
         let fs2 = set_policy (MarkPromotionFailure f (env_now env)) fs1 in
         if length dest > 0 then
           (case FetchBlock (env_rc env) f off (int (length dest)) of
              Inr data \<Rightarrow> (Inr data, observe fs2 off (int (length data)) h, touch env f fs2)
            | Inl rangeErr \<Rightarrow> (Inl EIO, h, fs2))
         else (Inl EIO, h, fs2)
     | (None, fs1) \<Rightarrow>
         let h' = h\<lparr>h_state := FileStateCached\<rparr>;
             fs2 = set_policy (MarkPromotionSuccess f (env_now env)) fs1
         in case preadLocal (env_io env) (fs_disk fs2) (Path (fs_ca fs2) f) (length dest) off of
              Inr data \<Rightarrow> (Inr data, h', touch env f fs2)
            | Inl errno \<Rightarrow> (Inl errno, h', fs2))"

text \<open>What follows a successful range read: the tracker, the access time and perhaps a promotion.\<close>

definition after_range_read :: "fs_env \<Rightarrow> bool \<Rightarrow> int \<Rightarrow> int \<Rightarrow> FileHandle \<times> FS \<Rightarrow> FileHandle \<times> FS" where
  "after_range_read env autoEnabled off n = (\<lambda>(h, fs).
     let f = h_filename h; h' = observe fs off n h; fs' = touch env f fs
     in if autoEnabled \<and> ShouldPromoteToFile f (Some (h_auto h')) (env_now env) (fs_policy fs')
        then (h', set_policy (MarkPromotionSuccess f (env_now env)) fs')
        else (h', fs'))"

definition read_remote :: "fs_env \<Rightarrow> bytes \<Rightarrow> int \<Rightarrow> FileHandle \<times> FS \<Rightarrow> bytes reply \<times> FileHandle \<times> FS" where
  "read_remote env dest off = (\<lambda>(h, fs).
     let f = h_filename h;
         autoEnabled = (Mode (fs_policy fs) = fetchModeAuto);
         (m, p) = ResolveMode f (env_now env) (fs_policy fs);
         fs0 = fs\<lparr>fs_policy := p\<rparr>;
         range_read = (\<lambda>fs.
           if length dest > 0 then
             (case FetchBlock (env_rc env) f off (int (length dest)) of
                Inr data \<Rightarrow> (Inr data, after_range_read env autoEnabled off (int (length data)) (h, fs))
              | Inl e \<Rightarrow> readRemoteFileMode env dest off (h, fs))
           else readRemoteFileMode env dest off (h, fs))
     in if m = fetchModeFile then readRemoteFileMode env dest off (h, fs0)
        else case fs_bc fs0 of
          None \<Rightarrow> range_read fs0
        | Some b \<Rightarrow>
            if \<not> HasPrefix f ''blk'' then range_read fs0
            else
              (case readViaBlockmap env b f dest off fs0 of
                 (Inl errno, fs1) \<Rightarrow> if errno = ENODATA then range_read fs1 else (Inl errno, h, fs1)
               | (Inr data, fs1) \<Rightarrow>
                   (Inr data, after_range_read env autoEnabled off (int (length dest)) (h, fs1))))"

definition FileHandle_Read :: "fs_env \<Rightarrow> bytes \<Rightarrow> int \<Rightarrow> FileHandle \<times> FS \<Rightarrow> bytes reply \<times> FileHandle \<times> FS" where
  "FileHandle_Read env dest off = (\<lambda>(h, fs).
     if h_special h then
       (if off \<ge> 8 then (Inr [], h, fs)
        else if off < 0 then (Inl (PANIC ''slice bounds out of range''), h, fs)
        else (Inr (drop (nat off) (replicate 8 0)), h, fs))
     else case h_state h of
       FileStateActive \<Rightarrow>
         (preadLocal (env_io env) (fs_disk fs) (path_Join (fs_localDir fs) (h_filename h)) (length dest) off, h, fs)
     | FileStateLocalFinalized \<Rightarrow>
         (preadLocal (env_io env) (fs_disk fs) (path_Join (fs_localDir fs) (h_filename h)) (length dest) off, h, fs)
     | FileStateCached \<Rightarrow>
         (case preadLocal (env_io env) (fs_disk fs) (Path (fs_ca fs) (h_filename h)) (length dest) off of
            Inr data \<Rightarrow> (Inr data, h, touch env (h_filename h) fs)
          | Inl errno \<Rightarrow> (Inl errno, h, fs))
     | FileStateRemote \<Rightarrow> read_remote env dest off (h, fs)
     | FileStateOther s \<Rightarrow> (Inl EIO, h, fs))"

section \<open>Assembling blocks\<close>

text \<open>Entries that follow each other without a gap, from \<open>a\<close> to \<open>z\<close>.\<close>

fun chain :: "int \<Rightarrow> BlockmapEntry list \<Rightarrow> int \<Rightarrow> bool" where
  "chain a [] z = (a = z)"
| "chain a (e # es) z = (FileOffset e = a \<and> chain (entry_stop e) es z)"

lemma chain_le: "chain a es z \<Longrightarrow> a \<le> z"
proof (induction es arbitrary: a)
  case (Cons e es)
  then show ?case using FileOffset_less_stop [of e] by fastforce
qed simp

lemma entries_of_chain:
  "list_all valid_block bs \<Longrightarrow> chain (int off) (entries_of off bs) (int (off + length (frames m bs)))"
proof (induction bs arbitrary: off)
  case (Cons b bs)
  then show ?case
    using Cons.IH [of "off + (8 + length b)"] by (simp add: frames_def entry_stop_def ac_simps)
qed (simp add: frames_def)

text \<open>The blocks that overlap a range form a chain that contains what the file has of it.\<close>

lemma filter_chain_before:
  "chain a es z \<Longrightarrow> z \<le> x \<Longrightarrow> filter (\<lambda>e. FileOffset e < y \<and> x < entry_stop e) es = []"
  by (induction es arbitrary: a) (auto dest: chain_le)

lemma filter_chain_after:
  "chain a es z \<Longrightarrow> y \<le> a \<Longrightarrow> filter (\<lambda>e. FileOffset e < y \<and> x < entry_stop e) es = []"
proof (induction es arbitrary: a)
  case (Cons e es)
  then have "y \<le> entry_stop e" using FileOffset_less_stop [of e] by auto
  with Cons show ?case by auto
qed simp

lemma filter_chain:
  assumes "chain a es z" "a \<le> x" "x < z" "x < y"
  shows "\<exists>a' z'. chain a' (filter (\<lambda>e. FileOffset e < y \<and> x < entry_stop e) es) z' \<and> a' \<le> x
    \<and> min y z' = min y z \<and> x < z'"
  using assms
proof (induction es arbitrary: a)
  case Nil
  then show ?case by simp
next
  case (Cons e es)
  let ?P = "\<lambda>e. FileOffset e < y \<and> x < entry_stop e"
  have c: "FileOffset e = a" "chain (entry_stop e) es z" using Cons.prems(1) by auto
  show ?case
  proof (cases "x < entry_stop e")
    case False
    then have "\<exists>a' z'. chain a' (filter ?P es) z' \<and> a' \<le> x \<and> min y z' = min y z \<and> x < z'"
      using Cons.IH [OF c(2)] Cons.prems by simp
    then show ?thesis using False by simp
  next
    case True
    have "\<exists>z'. chain (entry_stop e) (filter ?P es) z' \<and> min y z' = min y z \<and> x < z'"
      using c(2) True
    proof (induction es arbitrary: e)
      case Nil
      then show ?case by auto
    next
      case (Cons e' es)
      show ?case
      proof (cases "entry_stop e < y")
        case True
        have s: "entry_stop e < entry_stop e'" using Cons.prems(1) FileOffset_less_stop [of e'] by simp
        then obtain z' where "chain (entry_stop e') (filter ?P es) z' \<and> min y z' = min y z \<and> x < z'"
          using Cons.IH [of e'] Cons.prems by auto
        with True s Cons.prems show ?thesis by auto
      next
        case False
        then have "filter ?P (e' # es) = []"
          using filter_chain_after [OF Cons.prems(1)] by simp
        moreover have "entry_stop e \<le> z" using chain_le [OF Cons.prems(1)] .
        ultimately show ?thesis using False Cons.prems by (intro exI [where x = "entry_stop e"]) auto
      qed
    qed
    then show ?thesis using True c(1) Cons.prems by auto
  qed
qed

lemma chain_member: "chain a es z \<Longrightarrow> e \<in> set es \<Longrightarrow> entry_stop e \<le> z"
  by (induction es arbitrary: a) (auto dest: chain_le)

lemma chain_last_le:
  assumes "chain a es z" "es \<noteq> []" "chain a0 es0 z0" "set es \<subseteq> set es0"
  shows "z \<le> z0"
proof -
  have "entry_stop (last es) = z" using assms(1,2) by (induction es arbitrary: a) auto
  then show ?thesis using chain_member [OF assms(3), of "last es"] assms(2,4) by (metis last_in_set subsetD)
qed

lemma copy_at_slice:
  assumes "take k dest = slice x k file" "k + m \<le> length dest" "x + k + m \<le> length file"
  shows "\<exists>dest'. copy_at dest k (slice (x + k) m file) = (m, dest')
    \<and> take (k + m) dest' = slice x (k + m) file \<and> length dest' = length dest"
proof -
  have l: "length (slice (x + k) m file) = m" using assms(3) by simp
  then have "copy_at dest k (slice (x + k) m file) = (m, take k dest @ slice (x + k) m file @ drop (k + m) dest)"
    using assms(2) by (simp add: copy_at_def)
  moreover have "slice x (k + m) file = slice x k file @ slice (x + k) m file"
    using slice_split [of k "k + m" x "file"] by simp
  moreover have "length (slice x k file) = k" using assms(3) by simp
  ultimately show ?thesis using assms(1,2) l by auto
qed

text \<open>A cached block holds the bytes of the file that its entry says.\<close>

definition block_of :: "bytes \<Rightarrow> BlockmapEntry \<Rightarrow> bytes" where
  "block_of file e = slice (nat (FileOffset e)) (nat (entry_stop e - FileOffset e)) file"

lemma assemble_chain:
  assumes "assemble_loop env b f d (int x) (int y) es (min y (max x a) - x) dest = Inr (cnt, dest')"
    and "chain (int a) es (int z)" "z \<le> length file" "length file < 2 ^ 63"
    and "y = x + length dest"
    and "take (min y (max x a) - x) dest = slice x (min y (max x a) - x) file"
    and "\<forall>e \<in> set es. \<forall>data. GetBlock env b f (FileOffset e) d = Inr data \<longrightarrow> data = block_of file e"
  shows "cnt = min y (max x z) - x \<and> take cnt dest' = slice x cnt file"
  using assms
proof (induction es arbitrary: a dest)
  case Nil
  from Nil.prems(1) have "cnt = min y (max x a) - x" "dest' = dest" by simp_all
  moreover from Nil.prems(2) have "a = z" by simp
  ultimately show ?case using Nil.prems(6) by simp
next
  case (Cons e es)
  define s where "s = nat (entry_stop e)"
  have a: "FileOffset e = int a" and es: "chain (entry_stop e) es (int z)" using Cons.prems(2) by auto
  have s: "entry_stop e = int s" "a < s" "s \<le> z"
    using FileOffset_less_stop [of e] a chain_le [OF es] by (auto simp: s_def)
  obtain data where got: "GetBlock env b f (FileOffset e) d = Inr data"
  proof (cases "GetBlock env b f (FileOffset e) d")
    case (Inl er)
    then show ?thesis using Cons.prems(1) by simp
  qed (rule that)
  then have "data = block_of file e" using Cons.prems(7) by simp
  moreover have "nat (int s - int a) = s - a" by linarith
  ultimately have data: "GetBlock env b f (int a) d = Inr data" "data = slice a (s - a) file"
    using got by (simp_all add: block_of_def a s(1))
  have len: "length data = s - a" using data(2) s Cons.prems(3) by simp
  have be: "wrap64 (int a + int (length data)) = int s"
    using s Cons.prems(3,4) by (simp add: len in_int64_def)
  have dest: "length dest = y - x" using Cons.prems(5) by simp
  show ?case
  proof (cases "max x a \<ge> min y s")
    case True
    then have c: "(if int x < int a then int a else int x) \<ge> (if int y > int s then int s else int y)"
      by (auto split: if_splits)
    have k: "min y (max x s) - x = min y (max x a) - x" using True s(2) Cons.prems(5) by linarith
    have "assemble_loop env b f d (int x) (int y) es (min y (max x s) - x) dest = Inr (cnt, dest')"
      using Cons.prems(1) c unfolding k assemble_loop.simps data(1) sum.case Let_def a be by simp
    from Cons.IH [OF this] show ?thesis
      using Cons.prems(3-7) es s(1) unfolding k by auto
  next
    case False
    let ?k = "max x a - x" and ?m = "min y s - max x a"
    have k: "min y (max x a) - x = ?k" using False by linarith
    have cs: "(if int x < int a then int a else int x) = int (max x a)"
      "(if int y > int s then int s else int y) = int (min y s)" by auto
    have src: "slice (nat (int (max x a) - int a)) (nat (int (min y s) - int (max x a))) data
        = slice (x + ?k) ?m file"
    proof -
      have n: "nat (int (max x a) - int a) = max x a - a" "nat (int (min y s) - int (max x a)) = ?m"
        by linarith+
      have "slice (max x a - a) ?m (slice a (s - a) file) = slice (a + (max x a - a)) ?m file"
        using False by (intro slice_slice) linarith
      then show ?thesis unfolding n data(2) by simp
    qed
    have "take ?k dest = slice x ?k file" using Cons.prems(6) unfolding k .
    moreover have "?k + ?m \<le> length dest" using False unfolding dest by linarith
    moreover have "x + ?k + ?m \<le> length file" using False s(3) Cons.prems(3) by linarith
    ultimately obtain dest1 where d1: "copy_at dest ?k (slice (x + ?k) ?m file) = (?m, dest1)"
      "take (?k + ?m) dest1 = slice x (?k + ?m) file" "length dest1 = length dest"
      using copy_at_slice by blast
    have at: "nat (int (max x a) - int x) = ?k" by linarith
    have km: "?k + ?m = min y (max x s) - x" using False s(2) by linarith
    have "\<not> int (max x a) \<ge> int (min y s)" using False by linarith
    then have "assemble_loop env b f d (int x) (int y) es (min y (max x s) - x) dest1 = Inr (cnt, dest')"
      using Cons.prems(1) unfolding k assemble_loop.simps data(1) sum.case Let_def a be cs at src d1(1) prod.case km
      by simp
    from Cons.IH [OF this] show ?thesis
      using Cons.prems(3-5,7) es s(1) d1(2,3) unfolding km by auto
  qed
qed

text \<open>
  The read through a blockmap: when the index covers the file and the cache holds its
  blocks, the answer is the requested range, cut at the end of the file.
\<close>

lemma assembleRead_exact:
  assumes "chain 0 (Entries bm) (int (length file))" "blockmap_wf bm"
    and "x < length file" "0 < length dest" "x + length dest < 2 ^ 63" "length file < 2 ^ 63"
    and "\<forall>e \<in> set (Entries bm). \<forall>data. GetBlock env b f (FileOffset e) d = Inr data \<longrightarrow> data = block_of file e"
    and "assembleRead env b f d dest (int x) (FindBlocks bm (int x) (int (length dest))) = Inr (n, dest')"
  shows "take n dest' = slice x (length dest) file"
proof -
  let ?y = "x + length dest"
  let ?blocks = "filter (\<lambda>e. FileOffset e < int ?y \<and> int x < entry_stop e) (Entries bm)"
  have fb: "FindBlocks bm (int x) (int (length dest)) = ?blocks"
    using FindBlocks_iff [OF assms(2), of "int x" "int (length dest)"] assms(5) by simp
  obtain a' z' where c: "chain a' ?blocks z'" "a' \<le> int x" "min (int ?y) z' = min (int ?y) (int (length file))" "int x < z'"
    using filter_chain [OF assms(1), of "int x" "int ?y"] assms(3,4) by auto
  have ne: "?blocks \<noteq> []"
  proof
    assume "?blocks = []"
    with c(1) have "chain a' [] z'" by simp
    with c(2,4) show False by simp
  qed
  then obtain e es where e: "?blocks = e # es" by (meson list.exhaust)
  with c(1) have "FileOffset e = a'" by simp
  moreover have "e \<in> set ?blocks" unfolding e by simp
  ultimately have "e \<in> set (Entries bm)" "FileOffset e = a'" by simp_all
  then have "0 \<le> a'" using assms(2) by (auto simp: blockmap_wf_def entries_wf_def list_all_iff)
  moreover have "0 \<le> z'" using c(4) by linarith
  ultimately obtain a z where az: "a' = int a" "z' = int z" using nonneg_int_cases by metis
  have w: "wrap64 (int x + int (length dest)) = int ?y" using assms(5) by (simp add: in_int64_def)
  have loop: "assemble_loop env b f d (int x) (int ?y) ?blocks (min ?y (max x a) - x) dest = Inr (n, dest')"
    using assms(8) c(2) unfolding assembleRead_def fb w az(1) by simp
  have zl: "z \<le> length file"
    using chain_last_le [OF c(1) ne assms(1)] az by simp
  have "n = min ?y (max x z) - x \<and> take n dest' = slice x n file"
    by (rule assemble_chain [OF loop c(1) [unfolded az] zl assms(6)]) (use c(2) az assms(7) in auto)
  moreover have "min ?y (max x z) - x = min ?y (length file) - x" using c(3,4) az by linarith
  moreover have "slice x (min ?y (length file) - x) file = slice x (length dest) file"
    using assms(3) by (simp add: slice_def min_def)
  ultimately show ?thesis by metis
qed

section \<open>Reads of remote files\<close>

text \<open>
  The server has the file: whatever it answers to a request is the file or the requested
  part of it. It may fail any request.
\<close>

definition serves :: "remote \<Rightarrow> string \<Rightarrow> bytes \<Rightarrow> bool" where
  "serves r f file \<longleftrightarrow>
     (\<forall>data. FetchFile r f = Inr data \<longrightarrow> data = file)
     \<and> (\<forall>x n data. 0 \<le> x \<longrightarrow> 0 < n \<longrightarrow> x + n < 2 ^ 63 \<longrightarrow> FetchBlock r f x n = Inr data \<longrightarrow> data = slice (nat x) (nat n) file)"

lemma serves_range:
  "serves r f file \<Longrightarrow> 0 < n \<Longrightarrow> x + n < 2 ^ 63 \<Longrightarrow> FetchBlock r f (int x) (int n) = Inr data \<Longrightarrow> data = slice x n file"
  unfolding serves_def by (drule conjunct2, drule spec [of _ "int x"], drule spec [of _ "int n"]) simp

text \<open>
  The index of the file: entries in order that cover it, the ones that a blockmap in memory
  or from the server holds.
\<close>

definition index_of :: "bytes \<Rightarrow> BlockmapEntry list \<Rightarrow> bool" where
  "index_of file es \<longleftrightarrow> entries_wf es \<and> chain 0 es (int (length file))"

definition blockmaps_ok :: "fs_env \<Rightarrow> string \<Rightarrow> BlockmapEntry list \<Rightarrow> FS \<Rightarrow> bool" where
  "blockmaps_ok env f es fs \<longleftrightarrow>
     (\<forall>bm. fs_blockmaps fs f = Some bm \<longrightarrow> Entries bm = es)
     \<and> (\<forall>raw bm r. FetchBlockmap (env_rc env) f = Inr raw \<longrightarrow> Read raw = Inr (bm, r) \<longrightarrow> Entries bm = es)"

text \<open>The blocks in the cache are the file's.\<close>

definition block_at :: "bytes \<Rightarrow> BlockmapEntry list \<Rightarrow> int \<Rightarrow> bytes \<Rightarrow> bool" where
  "block_at file es i data \<longleftrightarrow> (\<forall>e \<in> set es. FileOffset e = i \<longrightarrow> data = block_of file e)"

definition blocks_ok :: "DiskBlockCache \<Rightarrow> string \<Rightarrow> bytes \<Rightarrow> BlockmapEntry list \<Rightarrow> disk \<Rightarrow> bool" where
  "blocks_ok b f file es d \<longleftrightarrow> (\<forall>i data. block_content b d f i = Some data \<longrightarrow> block_at file es i data)"

lemma blocks_ok_all: "blocks_ok b f file es = disk_blocks.all_blocks b (block_at file es) f"
  by (auto simp: blocks_ok_def disk_blocks.all_blocks_def fun_eq_iff)

lemma same_offset:
  assumes "entries_wf es" "e \<in> set es" "e' \<in> set es" "FileOffset e = FileOffset e'"
  shows "e = e'"
proof -
  obtain i j where ij: "i < length es" "e = es ! i" "j < length es" "e' = es ! j"
    using assms(2,3) by (metis in_set_conv_nth)
  have "covers e (FileOffset e)" "covers e' (FileOffset e)"
    using FileOffset_less_stop [of e] FileOffset_less_stop [of e'] assms(4) by (simp_all add: covers_def)
  then show ?thesis using covers_unique [OF assms(1) ij(1,3)] ij by auto
qed

lemma fetchBlock_blocks_ok:
  assumes "serves (env_rc env) f file" "entries_wf es" "e \<in> set es" "blocks_ok b f file es d"
    and "fetchBlock env b f e d = (err, d')"
  shows "blocks_ok b f file es d'"
proof -
  have o: "0 \<le> FileOffset e" and st: "entry_stop e < 2 ^ 63"
    using assms(2,3) by (auto simp: entries_wf_def list_all_iff)
  have "0 < 8 + uint (BlockDataSize e)" using uint_nonneg [of "BlockDataSize e"] by linarith
  then have data: "data = block_of file e"
    if "FetchBlock (env_rc env) f (FileOffset e) (8 + uint (BlockDataSize e)) = Inr data" for data
    using assms(1) o st that by (simp add: serves_def block_of_def entry_stop_def add.commute add.left_commute)
  then have at: "block_at file es (FileOffset e) data"
    if "FetchBlock (env_rc env) f (FileOffset e) (8 + uint (BlockDataSize e)) = Inr data" for data
    using that same_offset [OF assms(2) _ assms(3)] by (auto simp: block_at_def)
  show ?thesis
    using assms(4,5) disk_blocks.put_all_blocks [of "env_io env" b f "FileOffset e"] at
    unfolding blocks_ok_all fetchBlock_def Let_def
    by (auto split: if_splits sum.splits option.splits prod.splits)
qed

lemma fetch_blocks_ok:
  assumes "serves (env_rc env) f file" "entries_wf es" "set bs \<subseteq> set es" "blocks_ok b f file es d"
    and "fetch_blocks env b f bs d = (err, d')"
  shows "blocks_ok b f file es d'"
  using assms(3-5)
proof (induction bs arbitrary: d)
  case (Cons e bs)
  then show ?case
    using fetchBlock_blocks_ok [OF assms(1,2), of e b d] by (fastforce split: if_splits option.splits prod.splits)
qed simp

lemma getOrLoadBlockmap_ok:
  assumes "blockmaps_ok env f es fs" "getOrLoadBlockmap env f fs = (res, fs')"
  shows "(\<forall>bm. res = Inr (Some bm) \<longrightarrow> Entries bm = es) \<and> fs_disk fs' = fs_disk fs \<and> fs_st fs' = fs_st fs
     \<and> fs_ca fs' = fs_ca fs \<and> fs_policy fs' = fs_policy fs \<and> fs_manifest fs' = fs_manifest fs"
  using assms
  by (auto simp: getOrLoadBlockmap_def blockmaps_ok_def Let_def split: option.splits sum.splits if_splits prod.splits)

lemma readViaBlockmap_exact:
  assumes "serves (env_rc env) f file" "index_of file es" "blockmaps_ok env f es fs"
    and "blocks_ok b f file es (fs_disk fs)" "0 < length dest" "x + length dest < 2 ^ 63" "length file < 2 ^ 63"
    and "readViaBlockmap env b f dest (int x) fs = (Inr data, fs')"
  shows "data = slice x (length dest) file"
proof -
  obtain bm fs1 where bm: "getOrLoadBlockmap env f fs = (Inr (Some bm), fs1)"
    using assms(8) by (auto simp: readViaBlockmap_def split: prod.splits sum.splits option.splits)
  have es: "Entries bm = es" and d1: "fs_disk fs1 = fs_disk fs"
    using getOrLoadBlockmap_ok [OF assms(3) bm] by auto
  let ?bs = "FindBlocks bm (int x) (int (length dest))"
  have wf: "blockmap_wf bm" "chain 0 (Entries bm) (int (length file))" "entries_wf es"
    using assms(2) es by (auto simp: index_of_def blockmap_wf_def)
  obtain d n dest' where d: "fetch_blocks env b f ?bs (fs_disk fs1) = (None, d)"
    and as: "assembleRead (env_io env) b f d dest (int x) ?bs = Inr (n, dest')" and ne: "?bs \<noteq> []"
    and data: "data = take n dest'"
    using assms(8) bm by (auto simp: readViaBlockmap_def split: list.splits option.splits sum.splits prod.splits)
  have fb: "?bs = filter (\<lambda>e. FileOffset e < int x + int (length dest) \<and> int x < entry_stop e) (Entries bm)"
    using FindBlocks_iff [OF wf(1), of "int x" "int (length dest)"] assms(6) by simp
  then have "set ?bs \<subseteq> set es" using es by auto
  then have ok: "blocks_ok b f file es d"
    using fetch_blocks_ok [OF assms(1) wf(3) _ _ d] assms(4) d1 by simp
  have "x < length file"
    using filter_chain_before [OF wf(2)] ne unfolding fb by (meson not_le of_nat_le_iff)
  moreover have "\<forall>e \<in> set (Entries bm). \<forall>data.
      GetBlock (env_io env) b f (FileOffset e) d = Inr data \<longrightarrow> data = block_of file e"
    using ok disk_blocks.get_content es by (fastforce simp: blocks_ok_def block_at_def)
  ultimately show ?thesis
    using assembleRead_exact [OF wf(2,1) _ assms(5-7)] as data by blast
qed

lemma preadLocal_slice:
  assumes "preadLocal env d p n off = Inr data" "honest_io env"
  shows "0 \<le> off \<and> (\<exists>c. d p = Some c \<and> data = slice (nat off) n c)"
  using assms
  by (auto simp: preadLocal_def honest_io_def os_Open_Inr split: sum.splits if_splits option.splits)

text \<open>If a file is already marked as cached or finalised, its copy in the cache is the server's file.\<close>

definition copy_ok :: "string \<Rightarrow> bytes \<Rightarrow> FS \<Rightarrow> bool" where
  "copy_ok f file fs \<longleftrightarrow>
     (\<forall>e c. lookup (fs_st fs) f = Some e \<longrightarrow> fe_State e \<in> {FileStateCached, FileStateLocalFinalized} \<longrightarrow>
        fs_disk fs (Path (fs_ca fs) f) = Some c \<longrightarrow> c = file)"

lemma fetchAndCache_content:
  assumes "fetchAndCache env f fs = (None, fs')" "serves (env_rc env) f file" "copy_ok f file fs"
  shows "fs_ca fs' = fs_ca fs \<and> (\<forall>c. fs_disk fs' (Path (fs_ca fs) f) = Some c \<longrightarrow> c = file)"
proof -
  obtain entry where e: "lookup (fs_st fs) f = Some entry"
    using assms(1) by (auto simp: fetchAndCache_def GetFile_lookup split: sum.splits option.splits)
  show ?thesis
  proof (cases "fe_State entry \<in> {FileStateCached, FileStateLocalFinalized}")
    case True
    then have "fs' = fs"
      using assms(1) e by (auto simp: fetchAndCache_def GetFile_lookup split: option.splits)
    then show ?thesis using assms(3) e True by (auto simp: copy_ok_def)
  next
    case False
    then obtain buf sha d db where buf: "FetchFile (env_rc env) f = Inr buf"
      and stf: "Store_file (env_io env) (env_db env) (fs_ca fs) f buf sha (env_now env) (env_now env)
             (fs_disk fs, fs_st fs) = (None, (d, db))"
      and fs': "fs_disk fs' = d" "fs_ca fs' = fs_ca fs"
      using assms(1) e
      by (auto simp: fetchAndCache_def GetFile_lookup Let_def split: option.splits sum.splits prod.splits if_splits)
    have "d = (fs_disk fs)(cache_tmp (env_io env) (fs_ca fs) f := None, Path (fs_ca fs) f \<mapsto> buf)"
      using Store_file_cases [OF stf] by auto
    then show ?thesis using buf assms(2) fs' by (simp add: serves_def)
  qed
qed

lemma readRemoteFileMode_exact:
  assumes "serves (env_rc env) (h_filename h) file" "copy_ok (h_filename h) file fs" "honest_io (env_io env)"
    and "0 < length dest"
    and "readRemoteFileMode env dest (int x) (h, fs) = (Inr data, h', fs')" "x + length dest < 2 ^ 63"
  shows "data = slice x (length dest) file"
proof -
  let ?f = "h_filename h"
  obtain err fs1 where fc: "fetchAndCache env ?f fs = (err, fs1)" by fastforce
  show ?thesis
  proof (cases err)
    case (Some e)
    then have "FetchBlock (env_rc env) ?f (int x) (int (length dest)) = Inr data"
      using assms(4,5) fc by (auto simp: readRemoteFileMode_def Let_def split: sum.splits)
    then show ?thesis by (rule serves_range [OF assms(1,4,6)])
  next
    case None
    have "preadLocal (env_io env) (fs_disk fs1) (Path (fs_ca fs1) ?f) (length dest) (int x) = Inr data"
      using assms(5) fc None by (auto simp: readRemoteFileMode_def Let_def set_policy_def split: sum.splits)
    then show ?thesis
      using preadLocal_slice [OF _ assms(3)] fetchAndCache_content [OF _ assms(1,2)] fc None by fastforce
  qed
qed

text \<open>The block path answers \<open>ENODATA\<close> before it touches the disk, the table or the policy.\<close>

lemma readViaBlockmap_ENODATA:
  assumes "readViaBlockmap env b f dest off fs = (Inl ENODATA, fs')"
  shows "fs_disk fs' = fs_disk fs \<and> fs_st fs' = fs_st fs \<and> fs_ca fs' = fs_ca fs \<and> fs_policy fs' = fs_policy fs"
proof -
  obtain res fs1 where g: "getOrLoadBlockmap env f fs = (res, fs1)" by fastforce
  have "fs_disk fs1 = fs_disk fs \<and> fs_st fs1 = fs_st fs \<and> fs_ca fs1 = fs_ca fs \<and> fs_policy fs1 = fs_policy fs"
    using g by (auto simp: getOrLoadBlockmap_def Let_def split: option.splits sum.splits if_splits prod.splits)
  moreover have "fs' = fs1"
    using assms g by (auto simp: readViaBlockmap_def split: option.splits sum.splits list.splits prod.splits)
  ultimately show ?thesis by simp
qed

lemma read_remote_exact:
  assumes srv: "serves (env_rc env) (h_filename h) file" and idx: "index_of file es"
    and bms: "blockmaps_ok env (h_filename h) es fs"
    and blk: "\<forall>b. fs_bc fs = Some b \<longrightarrow> blocks_ok b (h_filename h) file es (fs_disk fs)"
    and cpy: "copy_ok (h_filename h) file fs" and hio: "honest_io (env_io env)"
    and len: "0 < length dest" "x + length dest < 2 ^ 63" "length file < 2 ^ 63"
    and rd: "read_remote env dest (int x) (h, fs) = (Inr data, h', fs')"
  shows "data = slice x (length dest) file"
proof -
  let ?f = "h_filename h"
  obtain m p where mp: "ResolveMode ?f (env_now env) (fs_policy fs) = (m, p)" by fastforce
  let ?fs0 = "fs\<lparr>fs_policy := p\<rparr>"
  have whole: "data = slice x (length dest) file"
    if "readRemoteFileMode env dest (int x) (h, gs) = (Inr data, h', fs')" "copy_ok ?f file gs" for gs
    using readRemoteFileMode_exact [OF srv that(2) hio len(1) that(1) len(2)] .
  have range: "data = slice x (length dest) file"
    if r: "(case FetchBlock (env_rc env) ?f (int x) (int (length dest)) of
        Inr data \<Rightarrow> (Inr data, after_range_read env au (int x) (int (length data)) (h, gs))
      | Inl e \<Rightarrow> readRemoteFileMode env dest (int x) (h, gs)) = (Inr data, h', fs')" and "copy_ok ?f file gs" for gs au
    using r whole [OF _ that(2)] serves_range [OF srv len(1,2)] by (auto split: sum.splits)
  have c0: "copy_ok ?f file ?fs0" and b0: "blockmaps_ok env ?f es ?fs0"
    using cpy bms by (auto simp: copy_ok_def blockmaps_ok_def)
  show ?thesis
  proof (cases "m = fetchModeFile \<or> fs_bc fs = None \<or> \<not> HasPrefix ?f ''blk''")
    case True
    then show ?thesis
      using rd len(1) whole [OF _ c0] range [OF _ c0]
      by (auto simp: read_remote_def mp Let_def split: if_splits option.splits)
  next
    case False
    then obtain b where b: "fs_bc fs = Some b" by auto
    obtain rep fs1 where rv: "readViaBlockmap env b ?f dest (int x) ?fs0 = (rep, fs1)" by fastforce
    show ?thesis
    proof (cases rep)
      case (Inr data')
      then have "data' = slice x (length dest) file"
        using readViaBlockmap_exact [OF srv idx b0 _ len] blk b rv by simp
      moreover have "data' = data" using rd False b rv Inr len(1) by (simp add: read_remote_def mp Let_def)
      ultimately show ?thesis by simp
    next
      case (Inl errno)
      then have en: "errno = ENODATA"
        using rd False b rv by (auto simp: read_remote_def mp Let_def split: if_splits)
      have "copy_ok ?f file fs1"
        using readViaBlockmap_ENODATA [of env b ?f dest "int x" ?fs0 fs1] rv Inl en c0 by (simp add: copy_ok_def)
      then show ?thesis
        using rd False b rv Inl en len(1) range [of fs1 "Mode (fs_policy fs) = fetchModeAuto"]
        by (simp add: read_remote_def mp Let_def)
    qed
  qed
qed

section \<open>Fetched files\<close>

text \<open>The hash that a fetched file has to have: the table's, or else the manifest's.\<close>

definition expected_sha :: "string \<Rightarrow> FileEntry \<Rightarrow> FS \<Rightarrow> string" where
  "expected_sha f entry fs =
     (if fe_SHA256 entry = [] then (case manifest_file f fs of None \<Rightarrow> [] | Some mf \<Rightarrow> mf_SHA256 mf)
      else fe_SHA256 entry)"

lemma fetchAndCache_stores:
  assumes "fetchAndCache env f fs = (None, fs')" "lookup (fs_st fs) f = Some entry"
    and "fe_State entry \<notin> {FileStateCached, FileStateLocalFinalized}"
  shows "\<exists>buf. FetchFile (env_rc env) f = Inr buf \<and> sha_hex buf = expected_sha f entry fs
    \<and> fs_disk fs' (Path (fs_ca fs) f) = Some buf \<and> fs_ca fs' = fs_ca fs
    \<and> (\<exists>e. lookup (fs_st fs') f = Some e \<and> fe_State e = FileStateCached \<and> fe_SHA256 e = expected_sha f entry fs
        \<and> fe_Size e = int (length buf))"
proof -
  have g: "GetFile (env_db env) (fs_st fs) f = Inr entry"
    using assms(1,2) by (auto simp: fetchAndCache_def GetFile_lookup split: option.splits)
  obtain buf where buf: "FetchFile (env_rc env) f = Inr buf"
    using assms(1,3) g by (auto simp: fetchAndCache_def split: sum.splits if_splits)
  let ?s = "expected_sha f entry fs"
  obtain err d db where st: "Store_file (env_io env) (env_db env) (fs_ca fs) f buf ?s (env_now env) (env_now env)
      (fs_disk fs, fs_st fs) = (err, (d, db))"
    by (metis prod.exhaust)
  obtain err2 db' where u: "UpdateState (env_db env) f FileStateCached db = (err2, db')" by fastforce
  have ok: "err = None" "err2 = None" "fs' = fs\<lparr>fs_disk := d, fs_st := db'\<rparr>"
    using assms(1,3) g buf st u
    by (auto simp: fetchAndCache_def expected_sha_def Let_def split: option.splits)
  note s = Store_file_cases [OF st]
  have "lookup db' f = Some ((stored (cached_entry f buf ?s (env_now env) (env_now env)))\<lparr>fe_State := FileStateCached\<rparr>)"
    using s ok sqlite.set_state_cases [OF u] by auto
  then show ?thesis using s ok buf by auto
qed

lemma readRemoteFileMode_served:
  assumes srv: "FetchBlock (env_rc env) (h_filename h) (int x) (int (length dest)) = Inr (slice x (length dest) file)"
    and ok: "\<forall>c. fault (env_io env) c = None" and len: "0 < length dest"
    and whole: "\<forall>data. FetchFile (env_rc env) (h_filename h) = Inr data \<longrightarrow> data = file"
    and cpy: "\<forall>e. lookup (fs_st fs) (h_filename h) = Some e \<longrightarrow>
        fe_State e \<in> {FileStateCached, FileStateLocalFinalized} \<longrightarrow> fs_disk fs (Path (fs_ca fs) (h_filename h)) = Some file"
  shows "fst (readRemoteFileMode env dest (int x) (h, fs)) = Inr (slice x (length dest) file)"
proof -
  let ?f = "h_filename h"
  obtain err fs1 where fc: "fetchAndCache env ?f fs = (err, fs1)" by fastforce
  show ?thesis
  proof (cases err)
    case (Some e)
    then show ?thesis using fc srv len by (simp add: readRemoteFileMode_def Let_def)
  next
    case None
    obtain entry where e: "lookup (fs_st fs) ?f = Some entry"
      using fc None by (auto simp: fetchAndCache_def GetFile_lookup split: option.splits)
    have "fs_disk fs1 (Path (fs_ca fs1) ?f) = Some file"
    proof (cases "fe_State entry \<in> {FileStateCached, FileStateLocalFinalized}")
      case True
      have "fs1 = fs"
        using fc None e True by (auto simp: fetchAndCache_def GetFile_lookup split: option.splits)
      then show ?thesis using cpy e True by auto
    next
      case False
      show ?thesis using fetchAndCache_stores [OF fc [unfolded None] e False] whole by auto
    qed
    then show ?thesis
      using fc None ok len
      by (simp add: readRemoteFileMode_def Let_def preadLocal_def os_Open_def set_policy_def)
  qed
qed

section \<open>Properties\<close>


definition example_bytes :: bytes where
  "example_bytes = [1, 2, 3, 4, 5, 6, 7, 8, 9, 10]"

definition example_env :: fs_env where
  "example_env = \<lparr>env_io = io_ok, env_db = db_ok,
     env_rc = \<lparr>FetchFile = (\<lambda>_. Inr example_bytes), FetchBlockmap = (\<lambda>_. Inl (ErrNew ''none'')),
       FetchBlock = (\<lambda>_ x n. Inr (slice (nat x) (nat n) example_bytes))\<rparr>,
     env_now = 0, env_later = 0\<rparr>"

definition example_fs :: FS where
  "example_fs = New_fs Map.empty ''l'' [] [] \<lparr>dc_dir = ''c'', dc_maxBytes = 9, dc_minKeep = 0\<rparr> None None Map.empty None"

definition example_handle :: FileHandle where
  "example_handle = \<lparr>h_filename = ''blk00001.dat'', h_state = FileStateRemote, h_special = False, h_auto = new_tracker\<rparr>"




text \<open>
  C18. No trust in the server is needed for the cache: when a file is fetched, what is in the
  cache afterwards has the SHA-256 that the table, or else the manifest, gives for the file, and
  the file is marked CACHED with that hash.
\<close>

theorem fetched_file_verified:
  assumes "fetchAndCache env f fs = (None, fs')" "lookup (fs_st fs) f = Some entry"
    and "fe_State entry \<noteq> FileStateCached" "fe_State entry \<noteq> FileStateLocalFinalized"
  shows "\<exists>content e. fs_disk fs' (Path (fs_ca fs) f) = Some content
    \<and> EncodeToString (Sum256 content) =
        (if fe_SHA256 entry = [] then (case FindFile (fs_manifest fs) f of None \<Rightarrow> [] | Some mf \<Rightarrow> mf_SHA256 mf)
         else fe_SHA256 entry)
    \<and> lookup (fs_st fs') f = Some e \<and> fe_State e = FileStateCached
    \<and> fe_SHA256 e = EncodeToString (Sum256 content) \<and> fe_Size e = int (length content)"
  using fetchAndCache_stores [OF assms(1,2)] assms(3,4)
  by (auto simp: expected_sha_def sha_hex_def manifest_file_def)

theorem fetched_file_verified_witness:
  "\<exists>content. fs_disk (snd (fetchAndCache example_env ''f''
       (example_fs\<lparr>fs_st := [row_of ((example_entry ''f'' FileStateRemote)\<lparr>fe_SHA256 := sha_hex example_bytes\<rparr>)]\<rparr>))) ''c/f'' = Some content
     \<and> EncodeToString (Sum256 content) = sha_hex example_bytes"
proof -
  let ?e = "(example_entry ''f'' FileStateRemote)\<lparr>fe_SHA256 := sha_hex example_bytes\<rparr>"
  let ?fs = "example_fs\<lparr>fs_st := [row_of ?e]\<rparr>"
  have ne: "sha_hex example_bytes \<noteq> []"
    unfolding sha_hex_def length_0_conv [symmetric] by simp
  have l: "lookup (fs_st ?fs) ''f'' = Some (stored ?e)" by (simp add: scanEntry_row_of example_entry_def)
  have st: "Store_file io_ok db_ok \<lparr>dc_dir = ''c'', dc_maxBytes = 9, dc_minKeep = 0\<rparr> ''f'' example_bytes (sha_hex example_bytes) 0 0
      (Map.empty, [row_of ?e]) = (None, (Map.empty(''c/f'' \<mapsto> example_bytes),
        [row_of (cached_entry ''f'' example_bytes (sha_hex example_bytes) 0 0)]))"
    by (auto simp: Store_file_def Let_def w_write_def fresh_writer_def sha_hex_def [symmetric] os_Rename_def UpsertFile_def
        execImmediate_ok upsert_rows_def row_check_def example_entry_def cached_entry_def row_of_def Path_def path_Join_def
        cache_tmp_def fun_upd_twist)
  have nf: "db_fault db_ok s = None" for s by (simp add: db_ok_def)
  have ok: "fetchAndCache example_env ''f'' ?fs = (None, snd (fetchAndCache example_env ''f'' ?fs))"
    using l ne st
    by (auto simp: fetchAndCache_def GetFile_lookup example_env_def example_fs_def New_fs_def Let_def nf
        example_entry_def UpdateState_def execImmediate_ok row_check_def row_of_def cached_entry_def stored_def
        split: prod.splits)
  have "Path (fs_ca ?fs) ''f'' = ''c/f''" by (simp add: example_fs_def New_fs_def Path_def path_Join_def)
  with fetched_file_verified [OF ok l] ne show ?thesis by (auto simp: example_entry_def)
qed

end
