(* ===== verification/Fusefs_Write.thy ===== *)
theory Fusefs_Write
  imports Fusefs_Read
begin

text \<open>
  \<open>internal/fusefs/write.go\<close> and \<open>nullwrite.go\<close>: handles that were opened for writing. A
  \<open>WriteHandle\<close> writes to an ACTIVE file and finalises it when the last handle is released
  and a later block file exists; a \<open>NullWriteHandle\<close> accepts and discards writes to a file
  that is sealed. An open descriptor is its path. Shown: writes reach only ACTIVE files and
  have the effect of \<open>pwrite\<close>, the count of open handles is exact, and finalisation records
  the hash and size of the content and happens only without open handles.
\<close>

definition O_WRONLY :: "32 word" where "O_WRONLY = 0x1"
definition O_RDWR :: "32 word" where "O_RDWR = 0x2"
definition O_TRUNC :: "32 word" where "O_TRUNC = 0x200"
definition O_APPEND :: "32 word" where "O_APPEND = 0x400"

text \<open>\<open>w_flags\<close> are the flags that the file was opened with, which decide what it can do.\<close>

record WriteHandle =
  w_filename :: string
  w_flags :: "32 word"

definition markOpened :: "string \<Rightarrow> FS \<Rightarrow> FS" where
  "markOpened f fs =
     fs\<lparr>fs_writeHandles := (fs_writeHandles fs)(f \<mapsto> (case fs_writeHandles fs f of None \<Rightarrow> 0 | Some n \<Rightarrow> n) + 1)\<rparr>"

definition markClosed :: "string \<Rightarrow> FS \<Rightarrow> int \<times> FS" where
  "markClosed f fs =
     (let n = (case fs_writeHandles fs f of None \<Rightarrow> 0 | Some n \<Rightarrow> n)
      in if n \<le> 1 then (0, fs\<lparr>fs_writeHandles := (fs_writeHandles fs)(f := None)\<rparr>)
         else (n - 1, fs\<lparr>fs_writeHandles := (fs_writeHandles fs)(f \<mapsto> n - 1)\<rparr>))"

text \<open>
  \<open>pwrite\<close> of \<open>data\<close> at \<open>off\<close>: the gap beyond the old end is filled with zeros.
\<close>

definition write_at :: "bytes \<Rightarrow> nat \<Rightarrow> bytes \<Rightarrow> bytes" where
  "write_at c off data =
     (if data = [] then c
      else take off (c @ replicate (off - length c) 0) @ data @ drop (off + length data) c)"

text \<open>
  \<open>File.WriteAt\<close>: the number of bytes written, whether it failed, and the disk. It refuses a
  file opened for appending; a descriptor opened with both \<open>O_WRONLY\<close> and \<open>O_RDWR\<close> takes no
  writes on Linux; a full device takes a part. A file that was unlinked keeps its
  descriptor, and writes to it show nowhere.
\<close>

definition WriteAt :: "io_env \<Rightarrow> string \<Rightarrow> 32 word \<Rightarrow> bytes \<Rightarrow> int \<Rightarrow> disk \<Rightarrow> nat \<times> bool \<times> disk" where
  "WriteAt env path flags data off d =
     (if flags AND O_APPEND \<noteq> 0 \<or> off < 0 then (0, False, d)
      else if data = [] then (0, True, d)
      else if flags AND 3 = 3 \<or> fault env (SysWrite path) \<noteq> None then (0, False, d)
      else
        let n = (case space env path of None \<Rightarrow> length data | Some k \<Rightarrow> min k (length data))
        in (n, n = length data,
            case d path of None \<Rightarrow> d | Some c \<Rightarrow> d(path \<mapsto> write_at c (nat off) (take n data))))"

definition WriteHandle_Write :: "fs_env \<Rightarrow> WriteHandle \<Rightarrow> bytes \<Rightarrow> int \<Rightarrow> FS \<Rightarrow> 32 word reply \<times> FS" where
  "WriteHandle_Write env h data off fs =
     (case GetFile (env_db env) (fs_st fs) (w_filename h) of
        Inl e \<Rightarrow> (Inl ENOENT, fs)
      | Inr entry \<Rightarrow>
          if \<not> IsWritable (fe_State entry) then (Inl EACCES, fs)
          else
            (case WriteAt (env_io env) (path_Join (fs_localDir fs) (w_filename h)) (w_flags h) data off (fs_disk fs) of
               (n, ok, d) \<Rightarrow>
                 if \<not> ok then (Inl EIO, fs\<lparr>fs_disk := d\<rparr>) else (Inr (of_nat n), fs\<lparr>fs_disk := d\<rparr>)))"

definition WriteHandle_Fsync :: "fs_env \<Rightarrow> WriteHandle \<Rightarrow> FS \<Rightarrow> unit reply" where
  "WriteHandle_Fsync env h fs =
     (case GetFile (env_db env) (fs_st fs) (w_filename h) of
        Inl e \<Rightarrow> Inr ()
      | Inr entry \<Rightarrow>
          if fe_State entry = FileStateActive
             \<and> fault (env_io env) (SysSync (path_Join (fs_localDir fs) (w_filename h))) \<noteq> None
          then Inl EIO else Inr ())"

definition fileSHA256 :: "io_env \<Rightarrow> disk \<Rightarrow> string \<Rightarrow> string result" where
  "fileSHA256 env d path =
     bindE (os_Open env d path) (\<lambda>c. sys env (SysReadAt path 0) (Inr (EncodeToString (Sum256 c))))"

text \<open>The channel of finalisation events holds 64 names; a further one is dropped.\<close>

definition finalize :: "fs_env \<Rightarrow> string \<Rightarrow> FileEntry \<Rightarrow> FS \<Rightarrow> FS" where
  "finalize env f entry fs =
     (let path = path_Join (fs_localDir fs) f in
      case fileSHA256 (env_io env) (fs_disk fs) path of
        Inl e \<Rightarrow> fs
      | Inr sha \<Rightarrow>
          if fault (env_io env) (SysStat path) \<noteq> None then fs
          else
            let entry' = entry\<lparr>fe_State := FileStateLocalFinalized, fe_SHA256 := sha,
                               fe_Size := file_size (fs_disk fs) path, fe_LastAccess := env_now env\<rparr>
            in case UpsertFile (env_db env) entry' (fs_st fs) of
                 (Some e, db) \<Rightarrow> fs\<lparr>fs_st := db\<rparr>
               | (None, db) \<Rightarrow>
                   fs\<lparr>fs_st := db, fs_finCh := (if length (fs_finCh fs) < 64 then fs_finCh fs @ [f] else fs_finCh fs)\<rparr>)"

definition shouldFinalizeOnRelease :: "io_env \<Rightarrow> string \<Rightarrow> FS \<Rightarrow> bool" where
  "shouldFinalizeOnRelease env f fs =
     (case parseBlockFileNumber f ''blk'' of
        Some n \<Rightarrow>
          (let nextBlk = path_Join (fs_localDir fs) (''blk'' @ Sprintf_0d 5 (wrap64 (n + 1)) @ ''.dat'')
           in fault env (SysStat nextBlk) = None \<and> fs_disk fs nextBlk \<noteq> None)
      | None \<Rightarrow> False)"

definition WriteHandle_Release :: "fs_env \<Rightarrow> WriteHandle \<Rightarrow> FS \<Rightarrow> unit reply \<times> FS" where
  "WriteHandle_Release env h fs =
     (let f = w_filename h in
      case markClosed f fs of (remaining, fs1) \<Rightarrow>
        if remaining > 0 then (Inr (), fs1)
        else case GetFile (env_db env) (fs_st fs1) f of
          Inl e \<Rightarrow> (Inr (), fs1)
        | Inr entry \<Rightarrow>
            if fe_State entry \<noteq> FileStateActive then (Inr (), fs1)
            else if parseBlockFileNumber f ''blk'' = None \<and> parseBlockFileNumber f ''rev'' = None then (Inr (), fs1)
            else if \<not> shouldFinalizeOnRelease (env_io env) f fs1 then (Inr (), fs1)
            else (Inr (), finalize env f entry fs1))"

text \<open>
  \<open>platformAllocate\<close> on Linux: \<open>fallocate\<close> of a range, which zero-fills the file up to the end of
  the range. Offset and size are read as signed; the call refuses a negative offset, a size that
  is not positive and a range beyond the largest file. A file system without it is no error.
\<close>

definition ENOTSUP :: go_error where
  "ENOTSUP = ErrIO ''operation not supported''"

definition platformAllocate :: "io_env \<Rightarrow> string \<Rightarrow> 32 word \<Rightarrow> 64 word \<Rightarrow> 64 word \<Rightarrow> disk \<Rightarrow> unit reply \<times> disk" where
  "platformAllocate env path flags off len d =
     (if sint off < 0 \<or> sint len \<le> 0 \<or> sint off + sint len \<ge> 2 ^ 63 \<or> flags AND 3 = 3 then (Inl EIO, d)
      else case fault env (SysAllocate path) of
        Some e \<Rightarrow> if e = ENOTSUP then (Inr (), d) else (Inl EIO, d)
      | None \<Rightarrow>
          (Inr (), case d path of
             None \<Rightarrow> d
           | Some c \<Rightarrow> d(path \<mapsto> c @ replicate (nat (sint off + sint len) - length c) 0)))"

definition WriteHandle_Allocate :: "fs_env \<Rightarrow> WriteHandle \<Rightarrow> 64 word \<Rightarrow> 64 word \<Rightarrow> FS \<Rightarrow> unit reply \<times> FS" where
  "WriteHandle_Allocate env h off len fs =
     (case platformAllocate (env_io env) (path_Join (fs_localDir fs) (w_filename h)) (w_flags h) off len (fs_disk fs) of
        (errno, d) \<Rightarrow> (errno, fs\<lparr>fs_disk := d\<rparr>))"

text \<open>\<open>WriteHandle.Read\<close> answers an error of \<open>ReadAt\<close> with no data.\<close>

definition WriteHandle_Read :: "fs_env \<Rightarrow> WriteHandle \<Rightarrow> nat \<Rightarrow> int \<Rightarrow> FS \<Rightarrow> bytes reply" where
  "WriteHandle_Read env h n off fs =
     (let path = path_Join (fs_localDir fs) (w_filename h) in
      if off < 0 \<or> w_flags h AND 3 = 3 \<or> fault (env_io env) (SysReadAt path (nat off)) \<noteq> None then Inr []
      else case fs_disk fs path of None \<Rightarrow> Inr [] | Some c \<Rightarrow> Inr (slice (nat off) n c))"

section \<open>Handles that discard\<close>

definition NullWriteHandle_Write :: "bytes \<Rightarrow> 32 word reply" where
  "NullWriteHandle_Write data = Inr (of_nat (length data))"

definition NullWriteHandle_Fsync :: "unit reply" where
  "NullWriteHandle_Fsync = Inr ()"

definition NullWriteHandle_Allocate :: "64 word \<Rightarrow> 64 word \<Rightarrow> unit reply" where
  "NullWriteHandle_Allocate off len = Inr ()"

definition NullWriteHandle_Release :: "FS \<Rightarrow> unit reply \<times> FS" where
  "NullWriteHandle_Release fs = (Inr (), fs)"

definition null_readRemote :: "fs_env \<Rightarrow> string \<Rightarrow> nat \<Rightarrow> int \<Rightarrow> bytes reply" where
  "null_readRemote env f n off =
     (case FetchBlock (env_rc env) f off (int n) of
        Inl e \<Rightarrow> Inl EIO
      | Inr data \<Rightarrow> Inr (take n data))"

definition null_readCached :: "fs_env \<Rightarrow> string \<Rightarrow> nat \<Rightarrow> int \<Rightarrow> FS \<Rightarrow> bytes reply" where
  "null_readCached env f n off fs =
     (case preadLocal (env_io env) (fs_disk fs) (Path (fs_ca fs) f) n off of
        Inr data \<Rightarrow> Inr data
      | Inl _ \<Rightarrow> null_readRemote env f n off)"

definition null_readLocal :: "fs_env \<Rightarrow> string \<Rightarrow> nat \<Rightarrow> int \<Rightarrow> FS \<Rightarrow> bytes reply" where
  "null_readLocal env f n off fs =
     (case preadLocal (env_io env) (fs_disk fs) (path_Join (fs_localDir fs) f) n off of
        Inr data \<Rightarrow> Inr data
      | Inl _ \<Rightarrow> null_readCached env f n off fs)"

definition NullWriteHandle_Read :: "fs_env \<Rightarrow> string \<Rightarrow> nat \<Rightarrow> int \<Rightarrow> FS \<Rightarrow> bytes reply" where
  "NullWriteHandle_Read env f n off fs =
     (if n = 0 then Inr []
      else case GetFile (env_db env) (fs_st fs) f of
        Inr entry \<Rightarrow>
          (case fe_State entry of
             FileStateActive \<Rightarrow> null_readLocal env f n off fs
           | FileStateLocalFinalized \<Rightarrow> null_readLocal env f n off fs
           | FileStateCached \<Rightarrow> null_readCached env f n off fs
           | FileStateRemote \<Rightarrow> null_readCached env f n off fs
           | FileStateOther s \<Rightarrow> null_readLocal env f n off fs)
      | Inl e \<Rightarrow> null_readLocal env f n off fs)"

definition isRevFile :: "string \<Rightarrow> bool" where
  "isRevFile filename =
     (if \<not> HasPrefix filename ''rev'' \<or> \<not> HasSuffix filename ''.dat'' then False
      else let mid = slice 3 (length filename - 7) filename
           in if length mid = 0 then False else list_all is_digit mid)"

section \<open>Writing\<close>

text \<open>What a written file holds at a position.\<close>

lemma length_write_at: "data \<noteq> [] \<Longrightarrow> length (write_at c off data) = max (length c) (off + length data)"
  by (auto simp: write_at_def)

lemma write_at_nth:
  assumes "data \<noteq> []" "i < max (length c) (off + length data)"
  shows "write_at c off data ! i =
    (if off \<le> i \<and> i < off + length data then data ! (i - off) else if i < length c then c ! i else 0)"
  using assms by (auto simp: write_at_def nth_append min_def)

lemma write_at_readback: "slice off (length data) (write_at c off data) = data"
proof (cases "data = []")
  case False
  have "length (take off (c @ replicate (off - length c) (0 :: byte))) = off" by simp
  then show ?thesis
    using False by (simp add: write_at_def slice_def)
qed simp

lemma WriteHandle_Write_cases:
  assumes "WriteHandle_Write env h data off fs = (rep, fs')"
  shows "(fs' = fs \<or> (\<exists>e. lookup (fs_st fs) (w_filename h) = Some e \<and> fe_State e = FileStateActive))
    \<and> (\<forall>p. p \<noteq> path_Join (fs_localDir fs) (w_filename h) \<longrightarrow> fs_disk fs' p = fs_disk fs p)
    \<and> fs_st fs' = fs_st fs \<and> fs_writeHandles fs' = fs_writeHandles fs"
  using assms
  by (auto simp: WriteHandle_Write_def GetFile_lookup WriteAt_def IsWritable_def Let_def
      split: sum.splits option.splits if_splits prod.splits)

lemma WriteHandle_Write_ok:
  assumes "WriteHandle_Write env h data off fs = (Inr n, fs')" "data \<noteq> []"
    and "fs_disk fs (path_Join (fs_localDir fs) (w_filename h)) = Some c"
  shows "0 \<le> off \<and> n = of_nat (length data)
    \<and> fs_disk fs' (path_Join (fs_localDir fs) (w_filename h)) = Some (write_at c (nat off) data)"
  using assms
  by (auto simp: WriteHandle_Write_def WriteAt_def Let_def split: sum.splits option.splits if_splits prod.splits)

lemma WriteHandle_Allocate_cases:
  assumes "WriteHandle_Allocate env h off len fs = (rep, fs')"
  shows "(\<forall>p. p \<noteq> path_Join (fs_localDir fs) (w_filename h) \<longrightarrow> fs_disk fs' p = fs_disk fs p)
    \<and> fs_st fs' = fs_st fs \<and> fs_writeHandles fs' = fs_writeHandles fs
    \<and> fs_localDir fs' = fs_localDir fs \<and> fs_ca fs' = fs_ca fs \<and> fs_bc fs' = fs_bc fs"
  using assms
  by (auto simp: WriteHandle_Allocate_def platformAllocate_def split: prod.splits if_splits option.splits)

section \<open>Open handles\<close>

text \<open>The counter holds the number of handles that are open, and no entry for none.\<close>

definition handles_ok :: "(string \<Rightarrow> nat) \<Rightarrow> FS \<Rightarrow> bool" where
  "handles_ok opened fs \<longleftrightarrow>
     (\<forall>f. fs_writeHandles fs f = (if opened f = 0 then None else Some (int (opened f))))"

lemma markOpened_ok: "handles_ok opened fs \<Longrightarrow> handles_ok (opened(f := Suc (opened f))) (markOpened f fs)"
  by (auto simp: handles_ok_def markOpened_def)

lemma markClosed_ok:
  assumes "handles_ok opened fs" "0 < opened f"
  shows "fst (markClosed f fs) = int (opened f - 1) \<and> handles_ok (opened(f := opened f - 1)) (snd (markClosed f fs))"
  using assms by (auto simp: handles_ok_def markClosed_def Let_def of_nat_diff)

lemma finalize_other:
  "fs_disk (finalize env f entry fs) = fs_disk fs" "fs_writeHandles (finalize env f entry fs) = fs_writeHandles fs"
  by (auto simp: finalize_def Let_def split: sum.splits option.splits prod.splits)

lemma Release_handles:
  "WriteHandle_Release env h fs = (rep, fs') \<Longrightarrow> fs_writeHandles fs' = fs_writeHandles (snd (markClosed (w_filename h) fs))
     \<and> fs_disk fs' = fs_disk fs"
  by (auto simp: WriteHandle_Release_def Let_def finalize_other markClosed_def
      split: prod.splits if_splits sum.splits)

text \<open>What finalisation does to the table: nothing, or the file is recorded as it is on disk.\<close>

definition finalized_entry :: "time \<Rightarrow> bytes \<Rightarrow> FileEntry \<Rightarrow> FileEntry" where
  "finalized_entry t c e =
     e\<lparr>fe_State := FileStateLocalFinalized, fe_SHA256 := sha_hex c, fe_Size := int (length c), fe_LastAccess := t\<rparr>"

lemma fileSHA256_Inr:
  "fileSHA256 env d p = Inr s \<Longrightarrow> \<exists>c. d p = Some c \<and> s = sha_hex c"
  by (auto simp: fileSHA256_def result_iffs sha_hex_def)

lemma finalize_table:
  "fs_st (finalize env f entry fs) = fs_st fs \<or>
   (\<exists>c. fs_disk fs (path_Join (fs_localDir fs) f) = Some c
      \<and> lookup (fs_st (finalize env f entry fs)) =
          (lookup (fs_st fs))(fe_Filename entry \<mapsto> stored (finalized_entry (env_now env) c entry)))"
proof (cases "fileSHA256 (env_io env) (fs_disk fs) (path_Join (fs_localDir fs) f)")
  case (Inl e)
  then show ?thesis by (simp add: finalize_def)
next
  case (Inr s)
  then obtain c where c: "fs_disk fs (path_Join (fs_localDir fs) f) = Some c" "s = sha_hex c"
    using fileSHA256_Inr by blast
  let ?e = "finalized_entry (env_now env) c entry"
  obtain err db where u: "UpsertFile (env_db env) ?e (fs_st fs) = (err, db)" by fastforce
  have sz: "file_size (fs_disk fs) (path_Join (fs_localDir fs) f) = int (length c)" by (simp add: file_size_def c)
  have "fs_st (finalize env f entry fs) = fs_st fs \<or> err = None \<and> fs_st (finalize env f entry fs) = db"
    using u sqlite.upsert_cases [OF u] Inr
    by (cases err) (auto simp: finalize_def Let_def sz c(2) finalized_entry_def)
  then show ?thesis
    using sqlite.upsert_cases [OF u] c(1) by (auto simp: finalized_entry_def)
qed

text \<open>A release changes the table only to finalise, and only as the last handle of an ACTIVE blk file.\<close>

lemma Release_finalises:
  assumes "WriteHandle_Release env h fs = (rep, fs')" "fs_st fs' \<noteq> fs_st fs" "handles_ok opened fs" "0 < opened (w_filename h)"
  shows "opened (w_filename h) = 1 \<and> shouldFinalizeOnRelease (env_io env) (w_filename h) fs
    \<and> (\<exists>e c. lookup (fs_st fs) (w_filename h) = Some e \<and> fe_State e = FileStateActive
       \<and> fs_disk fs (path_Join (fs_localDir fs) (w_filename h)) = Some c
       \<and> lookup (fs_st fs') = (lookup (fs_st fs))(w_filename h \<mapsto> stored (finalized_entry (env_now env) c e)))"
proof -
  let ?f = "w_filename h"
  obtain r fs1 where mc: "markClosed ?f fs = (r, fs1)" by fastforce
  have fs1: "fs_st fs1 = fs_st fs" "fs_disk fs1 = fs_disk fs" "fs_localDir fs1 = fs_localDir fs"
    using mc by (auto simp: markClosed_def Let_def split: if_splits)
  have r: "r = int (opened ?f - 1)" using mc markClosed_ok [OF assms(3,4)] by simp
  have "\<not> r > 0" using assms(1,2) mc fs1 by (auto simp: WriteHandle_Release_def Let_def)
  then have one: "opened ?f = 1" using r assms(4) by simp
  obtain entry where g: "GetFile (env_db env) (fs_st fs1) ?f = Inr entry"
    using assms(1,2) mc fs1 \<open>\<not> r > 0\<close>
    by (cases "GetFile (env_db env) (fs_st fs1) ?f") (auto simp: WriteHandle_Release_def Let_def)
  have e: "lookup (fs_st fs) ?f = Some entry"
    using g fs1 by (auto simp: GetFile_lookup split: option.splits)
  have act: "fe_State entry = FileStateActive" and sf: "shouldFinalizeOnRelease (env_io env) ?f fs1"
    and fs': "fs' = finalize env ?f entry fs1"
    using assms(1,2) mc fs1 \<open>\<not> r > 0\<close> g by (simp_all add: WriteHandle_Release_def Let_def split: if_splits)
  have "shouldFinalizeOnRelease (env_io env) ?f fs"
    using sf fs1 by (simp add: shouldFinalizeOnRelease_def Let_def split: option.splits)
  moreover have "fe_Filename entry = ?f" using lookup_Filename [OF e] .
  ultimately show ?thesis
    using one e act finalize_table [of env ?f entry fs1] assms(2) fs1 fs' by simp
qed

section \<open>Properties\<close>

text \<open>
  C23. A write that succeeds has the effect of \<open>pwrite\<close> and of nothing else: it was on an ACTIVE
  file, all bytes were taken, the file holds the data at the offset, its old bytes elsewhere and
  zeros in a gap, the other files and the table are untouched, and reading the range back
  through the handle returns the data.
\<close>

theorem write_then_read:
  assumes "WriteHandle_Write env h data off fs = (Inr n, fs')" "data \<noteq> []" "length data < 2 ^ 32"
    and "fs_disk fs (path_Join (fs_localDir fs) (w_filename h)) = Some c"
    and "w_flags h AND 3 \<noteq> 3" "\<forall>call. fault (env_io env') call = None"
  shows "unat n = length data
    \<and> map_option fe_State (lookup (fs_st fs) (w_filename h)) = Some FileStateActive
    \<and> (\<exists>c'. fs_disk fs' = (fs_disk fs)(path_Join (fs_localDir fs) (w_filename h) \<mapsto> c')
         \<and> length c' = max (length c) (nat off + length data)
         \<and> (\<forall>i < length c'. c' ! i = (if nat off \<le> i \<and> i < nat off + length data then data ! (i - nat off)
                                      else if i < length c then c ! i else 0)))
    \<and> fs_st fs' = fs_st fs
    \<and> WriteHandle_Read env' h (length data) off fs' = Inr data"
proof -
  let ?p = "path_Join (fs_localDir fs) (w_filename h)" and ?c = "write_at c (nat off) data"
  note ok = WriteHandle_Write_ok [OF assms(1,2,4)] and cs = WriteHandle_Write_cases [OF assms(1)]
  have st: "map_option fe_State (lookup (fs_st fs) (w_filename h)) = Some FileStateActive"
    using assms(1) by (auto simp: WriteHandle_Write_def GetFile_lookup IsWritable_def split: sum.splits option.splits if_splits)
  have d: "fs_disk fs' = (fs_disk fs)(?p \<mapsto> ?c)" using ok cs by (auto simp: fun_eq_iff)
  have dir: "fs_localDir fs' = fs_localDir fs"
    using assms(1) by (auto simp: WriteHandle_Write_def split: sum.splits if_splits prod.splits)
  have "unat n = length data" using ok assms(3) by (simp add: unsigned_of_nat take_bit_nat_eq_self)
  moreover have "WriteHandle_Read env' h (length data) off fs' = Inr data"
    using ok assms(5,6) by (simp add: WriteHandle_Read_def dir d write_at_readback)
  ultimately show ?thesis
    using st d cs length_write_at [OF assms(2), of c "nat off"] write_at_nth [OF assms(2), of _ c "nat off"]
    by auto
qed

definition example_writer :: WriteHandle where
  "example_writer = \<lparr>w_filename = ''f'', w_flags = O_RDWR\<rparr>"

definition active_fs :: FS where
  "active_fs = example_fs\<lparr>fs_st := [row_of (example_entry ''f'' FileStateActive)], fs_disk := [''l/f'' \<mapsto> [1, 2]]\<rparr>"

theorem write_then_read_witness:
  "WriteHandle_Read example_env example_writer 2 3 (snd (WriteHandle_Write example_env example_writer [7, 8] 3 active_fs)) = Inr [7, 8]"
proof -
  have w: "WriteHandle_Write example_env example_writer [7, 8] 3 active_fs =
      (Inr 2, snd (WriteHandle_Write example_env example_writer [7, 8] 3 active_fs))"
    by (simp add: WriteHandle_Write_def example_env_def example_writer_def active_fs_def example_fs_def New_fs_def
        GetFile_lookup db_ok_def example_entry_def IsWritable_def WriteAt_def O_APPEND_def O_RDWR_def)
  have p: "fs_disk active_fs (path_Join (fs_localDir active_fs) (w_filename example_writer)) = Some [1, 2]"
    by (simp add: active_fs_def example_fs_def New_fs_def example_writer_def path_Join_def)
  have "w_flags example_writer AND 3 \<noteq> 3" "\<forall>call. fault (env_io example_env) call = None"
    by (simp_all add: example_env_def example_writer_def O_RDWR_def)
  from write_then_read [OF w _ _ p this]
  have "WriteHandle_Read example_env example_writer (length [7, 8 :: byte]) 3
      (snd (WriteHandle_Write example_env example_writer [7, 8] 3 active_fs)) = Inr [7, 8]" by simp
  then show ?thesis by (simp add: numeral_2_eq_2)
qed

text \<open>
  C33. Releasing a write handle of an ACTIVE file, in a system without failures, finalises the
  file exactly when this was its last open handle and the block file with the next number
  exists; the entry then has the SHA-256 and the size of the content on disk. Otherwise, and
  for every other file, the table is unchanged.
\<close>

theorem release_finalises:
  assumes "WriteHandle_Release env h fs = (rep, fs')" "handles_ok opened fs" "0 < opened (w_filename h)"
    and "env_db env = db_ok" "\<forall>c. fault (env_io env) c = None" "db_inv (fs_st fs)"
    and "lookup (fs_st fs) (w_filename h) = Some e" "fe_State e = FileStateActive"
    and "fs_disk fs (path_Join (fs_localDir fs) (w_filename h)) = Some c"
  shows "lookup (fs_st fs') =
    (if opened (w_filename h) = 1
        \<and> (\<exists>n. parseBlockFileNumber (w_filename h) ''blk'' = Some n
             \<and> fs_disk fs (path_Join (fs_localDir fs) (''blk'' @ Sprintf_0d 5 (wrap64 (n + 1)) @ ''.dat'')) \<noteq> None)
     then (lookup (fs_st fs))(w_filename h \<mapsto> stored (finalized_entry (env_now env) c e))
     else lookup (fs_st fs))"
proof -
  let ?f = "w_filename h"
  obtain r fs1 where mc: "markClosed ?f fs = (r, fs1)" by fastforce
  have fs1: "fs_st fs1 = fs_st fs" "fs_disk fs1 = fs_disk fs" "fs_localDir fs1 = fs_localDir fs"
    using mc by (auto simp: markClosed_def Let_def split: if_splits)
  have r: "r = int (opened ?f - 1)" using mc markClosed_ok [OF assms(2,3)] by simp
  have nf: "db_fault (env_db env) s = None" for s using assms(4) by (simp add: db_ok_def)
  have g: "GetFile (env_db env) (fs_st fs1) ?f = Inr e" using assms(7) fs1 by (simp add: GetFile_lookup nf)
  let ?e = "finalized_entry (env_now env) c e"
  have name: "fe_Filename e = ?f" using lookup_Filename [OF assms(7)] .
  have "source_check (fe_Source e)"
    using assms(6,7) by (auto simp: db_inv_def lookup_Some_iff list_all_iff row_check_def scanEntry_def)
  then have u: "UpsertFile (env_db env) ?e (fs_st fs) = (None, upsert_rows (row_of ?e) (fs_st fs))"
    using UpsertFile_ok [OF assms(6), of ?e] by (simp add: assms(4) finalized_entry_def)
  have sha: "fileSHA256 (env_io env) (fs_disk fs) (path_Join (fs_localDir fs) ?f) = Inr (sha_hex c)"
    using assms(5,9) by (simp add: fileSHA256_def os_Open_def sha_hex_def)
  have "lookup (fs_st (finalize env ?f e fs1)) = (lookup (fs_st fs))(?f \<mapsto> stored ?e)"
    using u assms(5,9) lookup_upsert_rows [of ?e "fs_st fs"] name
    by (simp add: finalize_def fs1 sha Let_def finalized_entry_def file_size_def)
  then show ?thesis
    using assms(1,3,5,8) mc r g fs1
    by (auto simp: WriteHandle_Release_def shouldFinalizeOnRelease_def Let_def split: if_splits option.splits)
qed

definition finishing_fs :: FS where
  "finishing_fs = example_fs\<lparr>fs_st := [row_of (example_entry ''blk00000.dat'' FileStateActive)],
     fs_disk := [''l/blk00000.dat'' \<mapsto> [1, 2], ''l/blk00001.dat'' \<mapsto> []], fs_writeHandles := [''blk00000.dat'' \<mapsto> 1]\<rparr>"

theorem release_finalises_witness:
  "map_option fe_State (lookup (fs_st (snd (WriteHandle_Release example_env
     \<lparr>w_filename = ''blk00000.dat'', w_flags = O_RDWR\<rparr> finishing_fs))) ''blk00000.dat'') = Some FileStateLocalFinalized"
proof -
  let ?h = "\<lparr>w_filename = ''blk00000.dat'', w_flags = O_RDWR\<rparr>" and ?n = "(\<lambda>_. 0)(''blk00000.dat'' := Suc 0)"
  obtain rep fs' where r: "WriteHandle_Release example_env ?h finishing_fs = (rep, fs')" by fastforce
  have ok: "handles_ok ?n finishing_fs" by (simp add: handles_ok_def finishing_fs_def)
  have env: "env_db example_env = db_ok" "\<forall>c. fault (env_io example_env) c = None" by (simp_all add: example_env_def)
  have db: "db_inv (fs_st finishing_fs)" by (simp add: finishing_fs_def db_inv_def row_check_def example_entry_def)
  have l: "lookup (fs_st finishing_fs) (w_filename ?h) = Some (stored (example_entry ''blk00000.dat'' FileStateActive))"
    by (simp add: finishing_fs_def scanEntry_row_of) (simp add: example_entry_def)
  have c: "fs_disk finishing_fs (path_Join (fs_localDir finishing_fs) (w_filename ?h)) = Some [1, 2]"
    "fs_disk finishing_fs (path_Join (fs_localDir finishing_fs) ''blk00001.dat'') \<noteq> None"
    by (simp_all add: finishing_fs_def example_fs_def New_fs_def path_Join_def)
  have n: "parseBlockFileNumber ''blk00000.dat'' ''blk'' = Some 0" "''blk'' @ Sprintf_0d 5 (wrap64 (0 + 1)) @ ''.dat'' = ''blk00001.dat''"
    by code_simp+
  have "lookup (fs_st fs') ''blk00000.dat'' =
      Some (stored (finalized_entry (env_now example_env) [1, 2] (stored (example_entry ''blk00000.dat'' FileStateActive))))"
    using release_finalises [OF r ok _ env db l _ c(1)] n c(2) by (auto simp: example_entry_def)
  then show ?thesis by (simp add: r finalized_entry_def)
qed

end
