(* ===== verification/Fusefs_Node.thy ===== *)
theory Fusefs_Node
  imports Fusefs_Write
begin

text \<open>
  \<open>internal/fusefs/node.go\<close>, \<open>root.go\<close>, \<open>create.go\<close> and \<open>lock.go\<close>: attributes, opening,
  listing, lookup and creation. Attribute replies carry mode, size and time-outs; an inode is
  its number and what it stands for. Shown: which handle an open returns, that a sealed file
  never gets a handle that writes, that attributes agree between \<open>Lookup\<close> and \<open>Getattr\<close>, and
  what creation does.
\<close>

definition S_IFREG :: "32 word" where "S_IFREG = 0x8000"
definition S_IFDIR :: "32 word" where "S_IFDIR = 0x4000"
definition attrTimeoutShort :: int where "attrTimeoutShort = 10 ^ 9"
definition attrTimeoutLong :: int where "attrTimeoutLong = 3600 * 10 ^ 9"
definition entryTimeoutShort :: int where "entryTimeoutShort = 10 ^ 9"
definition entryTimeoutLong :: int where "entryTimeoutLong = 3600 * 10 ^ 9"
definition FOPEN_KEEP_CACHE :: "32 word" where "FOPEN_KEEP_CACHE = 2"

record attr_out =
  a_Mode :: "32 word"
  a_Size :: "64 word"
  a_AttrTimeout :: int
  a_EntryTimeout :: int

definition no_attr :: attr_out where
  "no_attr = \<lparr>a_Mode = 0, a_Size = 0, a_AttrTimeout = 0, a_EntryTimeout = 0\<rparr>"

datatype handle = HRead FileHandle | HWrite WriteHandle | HNull string

datatype node = NFile string bool | NLock | NIndex

record inode =
  i_node :: node
  i_Ino :: "64 word"
  i_Mode :: "32 word"

definition wants_write :: "32 word \<Rightarrow> bool" where
  "wants_write flags \<longleftrightarrow> flags AND (O_WRONLY OR O_RDWR) \<noteq> 0"

definition perm :: "FileState \<Rightarrow> 32 word" where
  "perm s = (if s = FileStateActive then 0x1A4 else 0x124)"

text \<open>An ACTIVE file has its size on disk, since the table is updated only when it is finalised.\<close>

definition attr_size :: "io_env \<Rightarrow> FileEntry \<Rightarrow> FS \<Rightarrow> 64 word" where
  "attr_size env entry fs =
     (let path = path_Join (fs_localDir fs) (fe_Filename entry) in
      if fe_State entry = FileStateActive \<and> fault env (SysStat path) = None \<and> fs_disk fs path \<noteq> None
      then word_of_int (file_size (fs_disk fs) path)
      else word_of_int (fe_Size entry))"

definition Getattr :: "fs_env \<Rightarrow> string \<Rightarrow> bool \<Rightarrow> FS \<Rightarrow> attr_out reply" where
  "Getattr env f special fs =
     (if special then Inr (no_attr\<lparr>a_Mode := S_IFREG OR 0x1A4, a_Size := 8\<rparr>)
      else case GetFile (env_db env) (fs_st fs) f of
        Inl e \<Rightarrow> Inl ENOENT
      | Inr entry \<Rightarrow>
          Inr (no_attr\<lparr>a_Mode := S_IFREG OR perm (fe_State entry), a_Size := attr_size (env_io env) entry fs,
                       a_AttrTimeout := (if fe_State entry = FileStateCached \<or> fe_State entry = FileStateLocalFinalized
                                         then attrTimeoutLong else attrTimeoutShort)\<rparr>))"

definition new_FileHandle :: "string \<Rightarrow> FileState \<Rightarrow> FileHandle" where
  "new_FileHandle f s = \<lparr>h_filename = f, h_state = s, h_special = False, h_auto = new_tracker\<rparr>"

definition Open :: "fs_env \<Rightarrow> string \<Rightarrow> bool \<Rightarrow> 32 word \<Rightarrow> FS \<Rightarrow> (handle \<times> 32 word) reply \<times> FS" where
  "Open env f special flags fs =
     (if special
      then (Inr (HRead \<lparr>h_filename = f, h_state = FileStateOther [], h_special = True, h_auto = new_tracker\<rparr>, 0), fs)
      else case GetFile (env_db env) (fs_st fs) f of
        Inl e \<Rightarrow> (Inl ENOENT, fs)
      | Inr entry \<Rightarrow>
          if fe_State entry = FileStateCached \<or> fe_State entry = FileStateLocalFinalized then
            if wants_write flags then (Inr (HNull f, FOPEN_KEEP_CACHE), fs)
            else (Inr (HRead (new_FileHandle f (fe_State entry)), FOPEN_KEEP_CACHE), fs)
          else if fe_State entry = FileStateActive then
            if \<not> wants_write flags then (Inr (HRead (new_FileHandle f (fe_State entry)), 0), fs)
            else
              let path = path_Join (fs_localDir fs) f in
              case fault (env_io env) (SysOpen path) of
                Some e \<Rightarrow> (Inl EIO, fs)
              | None \<Rightarrow>
                  let d = (case fs_disk fs path of None \<Rightarrow> (fs_disk fs)(path \<mapsto> []) | Some c \<Rightarrow> fs_disk fs)
                  in (Inr (HWrite \<lparr>w_filename = f, w_flags = O_RDWR\<rparr>, 0), markOpened f (fs\<lparr>fs_disk := d\<rparr>))
          else
            if wants_write flags then (Inr (HNull f, FOPEN_KEEP_CACHE), fs)
            else (Inr (HRead (new_FileHandle f (fe_State entry)), 0), fs))"

definition Setattr :: "FS \<Rightarrow> unit reply \<times> FS" where
  "Setattr fs = (Inr (), fs)"

section \<open>The root directory\<close>

record dir_entry =
  d_Name :: string
  d_Ino :: "64 word"
  d_Mode :: "32 word"

definition Readdir :: "fs_env \<Rightarrow> FS \<Rightarrow> dir_entry list reply" where
  "Readdir env fs =
     (case ListFiles (env_db env) (fs_st fs) of
        Inl e \<Rightarrow> Inl EIO
      | Inr entries \<Rightarrow>
          Inr (map (\<lambda>e. \<lparr>d_Name = fe_Filename e, d_Ino = InodeForFile (fe_Filename e),
                         d_Mode = S_IFREG OR perm (fe_State e)\<rparr>) entries
               @ [\<lparr>d_Name = ''xor.dat'', d_Ino = InodeForFile ''xor.dat'', d_Mode = S_IFREG OR 0x1A4\<rparr>,
                  \<lparr>d_Name = ''.lock'', d_Ino = InodeForFile ''.lock'', d_Mode = S_IFREG OR 0x1A4\<rparr>]
               @ (if fs_indexDir fs \<noteq> []
                  then [\<lparr>d_Name = ''index'', d_Ino = InodeForFile ''index'', d_Mode = S_IFDIR OR 0x1ED\<rparr>] else [])))"

definition short_attr :: "32 word \<Rightarrow> 64 word \<Rightarrow> attr_out" where
  "short_attr m s = \<lparr>a_Mode = m, a_Size = s, a_AttrTimeout = attrTimeoutShort, a_EntryTimeout = entryTimeoutShort\<rparr>"

definition file_inode :: "string \<Rightarrow> bool \<Rightarrow> inode" where
  "file_inode f special = \<lparr>i_node = NFile f special, i_Ino = InodeForFile f, i_Mode = S_IFREG\<rparr>"

definition Lookup :: "fs_env \<Rightarrow> string \<Rightarrow> FS \<Rightarrow> (inode \<times> attr_out) reply" where
  "Lookup env name fs =
     (if name = ''index'' \<and> fs_indexDir fs \<noteq> []
      then Inr (\<lparr>i_node = NIndex, i_Ino = InodeForFile ''index'', i_Mode = S_IFDIR\<rparr>, short_attr (S_IFDIR OR 0x1ED) 0)
      else if name = ''xor.dat'' then Inr (file_inode name True, short_attr (S_IFREG OR 0x1A4) 8)
      else if name = ''.lock''
      then Inr (\<lparr>i_node = NLock, i_Ino = InodeForFile ''.lock'', i_Mode = S_IFREG\<rparr>, short_attr (S_IFREG OR 0x1A4) 0)
      else case GetFile (env_db env) (fs_st fs) name of
        Inl e \<Rightarrow> Inl ENOENT
      | Inr entry \<Rightarrow>
          let long = (fe_State entry = FileStateCached \<or> fe_State entry = FileStateLocalFinalized)
          in Inr (file_inode name False,
                  \<lparr>a_Mode = S_IFREG OR perm (fe_State entry), a_Size = attr_size (env_io env) entry fs,
                   a_AttrTimeout = (if long then attrTimeoutLong else attrTimeoutShort),
                   a_EntryTimeout = (if long then entryTimeoutLong else entryTimeoutShort)\<rparr>))"

definition active_entry :: "string \<Rightarrow> time \<Rightarrow> FileEntry" where
  "active_entry name t =
     \<lparr>fe_Filename = name, fe_State = FileStateActive, fe_Source = FileSourceLocal, fe_Size = 0, fe_SHA256 = [],
      fe_CreatedAt = t, fe_LastAccess = t, fe_HeightFirst = 0, fe_HeightLast = 0\<rparr>"

text \<open>
  \<open>Create\<close> opens with \<open>O_CREATE | O_RDWR | flags\<close>: an existing file keeps its content unless
  \<open>O_TRUNC\<close> is among the flags.
\<close>

definition Create ::
  "fs_env \<Rightarrow> string \<Rightarrow> 32 word \<Rightarrow> FS \<Rightarrow> (inode \<times> attr_out \<times> handle \<times> 32 word) reply \<times> FS" where
  "Create env name flags fs =
     (let path = path_Join (fs_localDir fs) name;
          fresh =
            (case fault (env_io env) (SysOpen path) of
               Some e \<Rightarrow> (Inl EIO, fs)
             | None \<Rightarrow>
                 let c = (case fs_disk fs path of None \<Rightarrow> [] | Some c \<Rightarrow> if flags AND O_TRUNC \<noteq> 0 then [] else c);
                     fs1 = fs\<lparr>fs_disk := (fs_disk fs)(path \<mapsto> c)\<rparr>
                 in case UpsertFile (env_db env) (active_entry name (env_now env)) (fs_st fs1) of
                      (Some e, db) \<Rightarrow> (Inl EIO, fs1\<lparr>fs_st := db\<rparr>)
                    | (None, db) \<Rightarrow>
                        (Inr (file_inode name False, short_attr (S_IFREG OR 0x1A4) 0,
                              HWrite \<lparr>w_filename = name, w_flags = O_RDWR OR flags\<rparr>, 0),
                         markOpened name (fs1\<lparr>fs_st := db\<rparr>)))
      in case GetFile (env_db env) (fs_st fs) name of
           Inl e \<Rightarrow> fresh
         | Inr existing \<Rightarrow>
             if fe_State existing = FileStateRemote \<or> fe_State existing = FileStateCached
                \<or> fe_State existing = FileStateLocalFinalized
             then (Inr (file_inode name False, short_attr (S_IFREG OR 0x1A4) (word_of_int (fe_Size existing)),
                        HNull name, FOPEN_KEEP_CACHE), fs)
             else fresh)"

section \<open>The lock file\<close>

definition Lock_Getattr :: "fs_env \<Rightarrow> FS \<Rightarrow> attr_out" where
  "Lock_Getattr env fs =
     (let path = path_Join (fs_localDir fs) ''.lock''
      in no_attr\<lparr>a_Mode := S_IFREG OR 0x1A4,
                 a_Size := (if fault (env_io env) (SysStat path) = None
                            then word_of_int (file_size (fs_disk fs) path) else 0),
                 a_AttrTimeout := attrTimeoutShort\<rparr>)"

section \<open>Which handle\<close>

text \<open>The state of a file as the handlers see it.\<close>

definition state_of :: "FS \<Rightarrow> string \<Rightarrow> FileState option" where
  "state_of fs f = map_option fe_State (lookup (fs_st fs) f)"

definition writes :: "handle \<Rightarrow> bool" where
  "writes h \<longleftrightarrow> (case h of HWrite w \<Rightarrow> True | _ \<Rightarrow> False)"

lemma Open_writes_iff:
  assumes "Open env f False flags fs = (Inr (h, fl), fs')"
  shows "writes h \<longleftrightarrow> state_of fs f = Some FileStateActive \<and> wants_write flags"
  using assms
  by (auto simp: Open_def GetFile_lookup state_of_def writes_def Let_def split: sum.splits option.splits if_splits)

lemma Open_effect:
  assumes "Open env f special flags fs = (rep, fs')"
  shows "fs_st fs' = fs_st fs \<and>
    ((\<exists>w fl. rep = Inr (HWrite w, fl)) \<longrightarrow> fs_writeHandles fs' = fs_writeHandles (markOpened f fs)) \<and>
    (\<not> (\<exists>w fl. rep = Inr (HWrite w, fl)) \<longrightarrow> fs' = fs)"
  using assms
  by (auto simp: Open_def markOpened_def Let_def split: sum.splits option.splits if_splits)

lemma Create_sealed:
  assumes "state_of fs name \<in> Some ` {FileStateRemote, FileStateCached, FileStateLocalFinalized}"
    and "db_fault (env_db env) ''GetFile'' = None" "Create env name flags fs = (rep, fs')"
  shows "fs' = fs \<and> (\<exists>i a fl. rep = Inr (i, a, HNull name, fl))"
  using assms by (auto simp: Create_def GetFile_lookup state_of_def Let_def)

lemma Create_effect:
  assumes "Create env name flags fs = (Inr (i, a, h, fl), fs')"
  shows "(writes h \<longrightarrow> state_of fs' name = Some FileStateActive
           \<and> fs_writeHandles fs' = fs_writeHandles (markOpened name fs))
    \<and> (\<not> writes h \<longrightarrow> fs' = fs)"
  using assms
  by (auto simp: Create_def writes_def state_of_def active_entry_def markOpened_def Let_def
      split: sum.splits option.splits if_splits prod.splits dest!: sqlite.upsert_cases)

section \<open>Properties\<close>

text \<open>
  An open that succeeds gives a handle that writes exactly when the file is ACTIVE and write
  access was asked for; a sealed file opened for writing gets a handle that discards. Opening
  never changes the table, changes the disk only to create the missing file of an ACTIVE entry,
  and counts exactly the handles that write.
\<close>

theorem open_handle_kind:
  assumes "Open env f False flags fs = (Inr (h, fl), fs')"
  shows "(writes h \<longleftrightarrow> state_of fs f = Some FileStateActive \<and> wants_write flags)
    \<and> (wants_write flags \<and> state_of fs f \<noteq> Some FileStateActive \<longrightarrow> h = HNull f \<and> fs' = fs)
    \<and> fs_st fs' = fs_st fs
    \<and> (\<forall>p. fs_disk fs p \<noteq> None \<or> p \<noteq> path_Join (fs_localDir fs) f \<longrightarrow> fs_disk fs' p = fs_disk fs p)
    \<and> fs_writeHandles fs' = (if writes h then fs_writeHandles (markOpened f fs) else fs_writeHandles fs)"
  using assms
  by (auto simp: Open_def GetFile_lookup state_of_def writes_def markOpened_def Let_def
      split: sum.splits option.splits if_splits)

theorem open_handle_kind_witness:
  "fst (Open example_env ''f'' False O_RDWR (example_fs\<lparr>fs_st := [row_of (example_entry ''f'' FileStateCached)]\<rparr>)) = Inr (HNull ''f'', FOPEN_KEEP_CACHE)"
proof -
  let ?fs = "example_fs\<lparr>fs_st := [row_of (example_entry ''f'' FileStateCached)]\<rparr>"
  obtain h fs' where o: "Open example_env ''f'' False O_RDWR ?fs = (Inr (h, FOPEN_KEEP_CACHE), fs')"
    by (cases "wants_write O_RDWR") (auto simp: Open_def GetFile_lookup example_env_def db_ok_def example_entry_def)
  have "h = HNull ''f''"
    using open_handle_kind [OF o]
    by (simp add: state_of_def wants_write_def O_RDWR_def O_WRONLY_def example_entry_def)
  then show ?thesis using o by simp
qed

text \<open>
  The attributes of a file agree wherever they are asked for: \<open>Lookup\<close> and \<open>Getattr\<close> report the
  same mode and size, and the size is that of the content on disk for an ACTIVE file and that of
  the table otherwise.
\<close>

theorem lookup_getattr_agree:
  assumes "Lookup env f fs = Inr (i, a)" "f \<noteq> ''index''" "f \<noteq> ''xor.dat''" "f \<noteq> ''.lock''"
  shows "\<exists>b e. Getattr env f False fs = Inr b \<and> a_Mode b = a_Mode a \<and> a_Size b = a_Size a
    \<and> a_AttrTimeout b = a_AttrTimeout a \<and> i_Ino i = InodeForFile f \<and> lookup (fs_st fs) f = Some e
    \<and> a_Size a = word_of_int (case fs_disk fs (path_Join (fs_localDir fs) f) of
        Some c \<Rightarrow> if fe_State e = FileStateActive \<and> fault (env_io env) (SysStat (path_Join (fs_localDir fs) f)) = None
                 then int (length c) else fe_Size e
      | None \<Rightarrow> fe_Size e)"
proof -
  obtain e where e: "lookup (fs_st fs) f = Some e" "db_fault (env_db env) ''GetFile'' = None"
    using assms by (auto simp: Lookup_def GetFile_lookup Let_def split: if_splits option.splits)
  have "fe_Filename e = f" using lookup_Filename [OF e(1)] .
  then show ?thesis
    using assms e
    by (auto simp: Lookup_def Getattr_def GetFile_lookup Let_def attr_size_def file_inode_def file_size_def no_attr_def
        split: option.splits)
qed

theorem lookup_getattr_agree_witness:
  "\<exists>i a. Lookup example_env ''f'' active_fs = Inr (i, a) \<and> a_Size a = 2"
proof -
  obtain i a where l: "Lookup example_env ''f'' active_fs = Inr (i, a)"
    by (simp add: Lookup_def GetFile_lookup example_env_def db_ok_def active_fs_def example_entry_def Let_def)
  have d: "fs_disk active_fs (path_Join (fs_localDir active_fs) ''f'') = Some [1, 2]"
    by (simp add: active_fs_def example_fs_def New_fs_def path_Join_def)
  have "lookup (fs_st active_fs) ''f'' = Some e \<Longrightarrow> fe_State e = FileStateActive" for e
    by (auto simp: active_fs_def example_entry_def)
  then have "a_Size a = 2" using lookup_getattr_agree [OF l] d by (auto simp: example_env_def)
  then show ?thesis using l by blast
qed

end
