(* ===== verification/Fusefs_Run.thy ===== *)
theory Fusefs_Run
  imports Fusefs_Node
begin

text \<open>
  The file system under any sequence of requests: a step relation over the handlers, in any
  environment, with the number of write handles that are open on each file. Shown by rule
  induction: the table keeps its constraints, the handle counts are exact, and a file that
  is not ACTIVE never becomes writable again and keeps its local content.
\<close>

section \<open>What a read changes\<close>

text \<open>The directories do not overlap: the caches are not the local directory.\<close>

definition dirs_apart :: "FS \<Rightarrow> bool" where
  "dirs_apart fs \<longleftrightarrow> dc_dir (fs_ca fs) \<noteq> fs_localDir fs
     \<and> (\<forall>b g. fs_bc fs = Some b \<longrightarrow> path_Join (bc_dir b) g \<noteq> fs_localDir fs)"

definition plain :: "string \<Rightarrow> bool" where
  "plain f \<longleftrightarrow> CHR ''/'' \<notin> set f"

text \<open>
  A read of file \<open>f\<close> keeps the local files, the open handles and the table's constraints; the
  only state it changes is that of \<open>f\<close>, to CACHED.
\<close>

definition read_effect :: "string \<Rightarrow> FS \<Rightarrow> FS \<Rightarrow> bool" where
  "read_effect f fs fs' \<longleftrightarrow>
     fs_localDir fs' = fs_localDir fs \<and> fs_ca fs' = fs_ca fs \<and> fs_bc fs' = fs_bc fs
     \<and> fs_writeHandles fs' = fs_writeHandles fs
     \<and> (\<forall>g. plain g \<longrightarrow> fs_disk fs' (path_Join (fs_localDir fs) g) = fs_disk fs (path_Join (fs_localDir fs) g))
     \<and> (\<forall>g. state_of fs' g = state_of fs g \<or>
           g = f \<and> state_of fs f \<noteq> Some FileStateLocalFinalized \<and> state_of fs' g = Some FileStateCached)
     \<and> (db_inv (fs_st fs) \<longrightarrow> db_inv (fs_st fs'))"

lemma read_effect_refl [simp]: "read_effect f fs fs"
  by (simp add: read_effect_def)

lemma read_effect_trans: "read_effect f a b \<Longrightarrow> read_effect f b c \<Longrightarrow> read_effect f a c"
  unfolding read_effect_def by metis

lemma read_effect_apart: "read_effect f fs fs' \<Longrightarrow> dirs_apart fs \<Longrightarrow> dirs_apart fs'"
  by (simp add: read_effect_def dirs_apart_def)

lemma read_effect_policy [simp]: "read_effect f fs (set_policy g fs)" "read_effect f fs (fs\<lparr>fs_policy := p\<rparr>)"
  by (simp_all add: read_effect_def set_policy_def state_of_def)

lemma read_effect_touch [simp]: "read_effect f fs (touch env g fs)"
proof -
  obtain err db where u: "UpdateLastAccess (env_db env) g (env_later env) (fs_st fs) = (err, db)" by fastforce
  have "db_inv (fs_st fs) \<longrightarrow> db_inv db" using store_ops_inv(3) u by blast
  moreover have "map_option fe_State (lookup db k) = map_option fe_State (lookup (fs_st fs) k)" for k
    using sqlite.touch_state [OF u] .
  ultimately show ?thesis by (simp add: read_effect_def touch_def u state_of_def)
qed

lemma cache_paths_apart:
  assumes "dirs_apart fs" "plain f" "plain g"
  shows "path_Join (fs_localDir fs) f \<noteq> Path (fs_ca fs) g"
    "path_Join (fs_localDir fs) f \<noteq> cache_tmp env (fs_ca fs) g"
proof -
  have t: "plain (g @ ''.tmp.'' @ tmp_suffix env)"
    using assms(3) Itoa_no_slash [of "int (tmp_rnd env)"] by (simp add: plain_def tmp_suffix_def Itoa_def)
  show "path_Join (fs_localDir fs) f \<noteq> Path (fs_ca fs) g"
    "path_Join (fs_localDir fs) f \<noteq> cache_tmp env (fs_ca fs) g"
    using assms t path_Join_split unfolding dirs_apart_def plain_def Path_def cache_tmp_def by metis+
qed

lemma block_paths_apart:
  assumes "dirs_apart fs" "plain f" "fs_bc fs = Some b"
  shows "path_Join (fs_localDir fs) f \<noteq> blockPath b g i" "path_Join (fs_localDir fs) f \<noteq> block_tmp env b g"
  using assms path_Join_split Itoa_no_slash tmp_no_slash
  unfolding dirs_apart_def plain_def blockPath_def block_tmp_def by metis+

lemma Store_file_inv:
  assumes "Store_file env denv c f r s t u (d, db) = (err, (d', db'))" "db_inv db"
  shows "db_inv db'"
  using assms store_ops_inv(1) [OF assms(2)]
  by (auto simp: Store_file_def Let_def split: option.splits prod.splits if_splits)

lemma fetchAndCache_effect:
  assumes "fetchAndCache env f fs = (err, fs')" "dirs_apart fs" "plain f"
  shows "read_effect f fs fs'"
proof -
  have st: "d' (path_Join (fs_localDir fs) g) = fs_disk fs (path_Join (fs_localDir fs) g)"
    if "Store_file e de (fs_ca fs) f buf sha t u (fs_disk fs, fs_st fs) = (er, (d', db'))" "plain g"
    for e de buf sha t u er d' db' g
    using Store_file_cases [OF that(1)] cache_paths_apart [OF assms(2) that(2) assms(3)] by auto
  have store: "read_effect f fs (fs\<lparr>fs_disk := d', fs_st := db'\<rparr>)"
    if s: "Store_file e de (fs_ca fs) f buf sha t u (fs_disk fs, fs_st fs) = (er, (d', db'))"
      and l: "state_of fs f \<noteq> Some FileStateLocalFinalized"
    for e de buf sha t u er d' db'
    using Store_file_cases [OF s] st [OF s] Store_file_inv [OF s] l
    by (auto simp: read_effect_def state_of_def split: if_splits)
  have upd: "read_effect f (fs\<lparr>fs_disk := d', fs_st := db'\<rparr>) (fs\<lparr>fs_disk := d', fs_st := db''\<rparr>)"
    if u: "UpdateState de f FileStateCached db' = (er, db'')"
      and l: "state_of (fs\<lparr>fs_disk := d', fs_st := db'\<rparr>) f \<noteq> Some FileStateLocalFinalized" for de er d' db' db''
    using sqlite.set_state_cases [OF u] store_ops_inv(2) [OF _ u] l
    by (cases "lookup db' f") (auto simp: read_effect_def state_of_def split: if_splits)
  consider "fs' = fs"
    | buf sha d' db' er where "Store_file (env_io env) (env_db env) (fs_ca fs) f buf sha (env_now env) (env_now env)
          (fs_disk fs, fs_st fs) = (er, (d', db'))"
        "fs' = fs\<lparr>fs_disk := d', fs_st := db'\<rparr> \<or>
         (\<exists>er' db''. UpdateState (env_db env) f FileStateCached db' = (er', db'') \<and> fs' = fs\<lparr>fs_disk := d', fs_st := db''\<rparr>)"
        "state_of fs f \<noteq> Some FileStateLocalFinalized"
    using assms(1) unfolding fetchAndCache_def Let_def
    by (auto simp: GetFile_lookup state_of_def split: sum.splits if_splits prod.splits option.splits)
  then show ?thesis
  proof cases
    case (2 buf sha d' db' er)
    note e1 = store [OF 2(1,3)]
    have "state_of (fs\<lparr>fs_disk := d', fs_st := db'\<rparr>) f = state_of fs f
        \<or> state_of (fs\<lparr>fs_disk := d', fs_st := db'\<rparr>) f = Some FileStateCached"
      using e1 unfolding read_effect_def by blast
    then have "state_of (fs\<lparr>fs_disk := d', fs_st := db'\<rparr>) f \<noteq> Some FileStateLocalFinalized" using 2(3) by auto
    with 2(2) show ?thesis using e1 read_effect_trans [OF e1 upd] by blast
  qed simp
qed

lemma fetchBlock_local:
  assumes "fetchBlock env b f e d = (err, d')" "dirs_apart fs" "fs_bc fs = Some b" "plain g"
  shows "d' (path_Join (fs_localDir fs) g) = d (path_Join (fs_localDir fs) g)"
  using assms(1) StoreBlock_cases block_paths_apart [OF assms(2,4,3)]
  by (fastforce simp: fetchBlock_def Let_def split: if_splits sum.splits option.splits prod.splits)

lemma fetch_blocks_local:
  assumes "fetch_blocks env b f es d = (err, d')" "dirs_apart fs" "fs_bc fs = Some b" "plain g"
  shows "d' (path_Join (fs_localDir fs) g) = d (path_Join (fs_localDir fs) g)"
  using assms(1)
proof (induction es arbitrary: d)
  case (Cons e es)
  then show ?case
    using fetchBlock_local [OF _ assms(2-4), of env f e d] by (fastforce split: if_splits prod.splits option.splits)
qed simp

lemma getOrLoadBlockmap_effect: "getOrLoadBlockmap env f fs = (res, fs') \<Longrightarrow> read_effect f fs fs'"
  by (auto simp: getOrLoadBlockmap_def read_effect_def state_of_def Let_def
      split: option.splits sum.splits if_splits prod.splits)

lemma readViaBlockmap_effect:
  assumes "readViaBlockmap env b f dest off fs = (rep, fs')" "dirs_apart fs" "fs_bc fs = Some b"
  shows "read_effect f fs fs'"
proof -
  obtain res fs1 where g: "getOrLoadBlockmap env f fs = (res, fs1)" by fastforce
  have s1: "read_effect f fs fs1" using getOrLoadBlockmap_effect [OF g] .
  then have ap: "dirs_apart fs1" "fs_bc fs1 = Some b"
    using read_effect_apart [OF s1 assms(2)] assms(3) s1 by (simp_all add: read_effect_def)
  have "fs' = fs1 \<or> (\<exists>bs err d. fetch_blocks env b f bs (fs_disk fs1) = (err, d) \<and> fs' = fs1\<lparr>fs_disk := d\<rparr>)"
    using assms(1) g
    by (auto simp: readViaBlockmap_def simp del: fetch_blocks.simps
        split: sum.splits option.splits list.splits prod.splits)
  then have "read_effect f fs1 fs'"
    using fetch_blocks_local [OF _ ap] by (auto simp: read_effect_def state_of_def)
  then show ?thesis using s1 read_effect_trans by blast
qed

lemma readRemoteFileMode_effect:
  assumes "readRemoteFileMode env dest off (h, fs) = (rep, h', fs')" "dirs_apart fs" "plain (h_filename h)"
  shows "read_effect (h_filename h) fs fs'"
proof -
  let ?f = "h_filename h"
  obtain err fs1 where f: "fetchAndCache env ?f fs = (err, fs1)" by fastforce
  have t: "read_effect ?f fs1 (touch env ?f (set_policy g fs1))" for g
    using read_effect_trans [OF read_effect_policy(1) read_effect_touch] .
  have "read_effect ?f fs fs1" using fetchAndCache_effect [OF f assms(2,3)] .
  moreover have "read_effect ?f fs1 fs'"
    using assms(1) f t by (auto simp: readRemoteFileMode_def Let_def split: option.splits sum.splits if_splits)
  ultimately show ?thesis by (rule read_effect_trans)
qed

lemma after_range_read_effect: "after_range_read env au off n (h, fs) = (h', fs') \<Longrightarrow> read_effect f fs fs'"
  by (auto simp: after_range_read_def Let_def split: if_splits
      intro: read_effect_trans [OF read_effect_touch read_effect_policy(1)])

lemma read_remote_effect:
  assumes "read_remote env dest off (h, fs) = (rep, h', fs')" "dirs_apart fs" "plain (h_filename h)"
  shows "read_effect (h_filename h) fs fs'"
proof -
  let ?f = "h_filename h"
  obtain m p where mp: "ResolveMode ?f (env_now env) (fs_policy fs) = (m, p)" by fastforce
  let ?fs0 = "fs\<lparr>fs_policy := p\<rparr>"
  have whole: "read_effect ?f fs fs'"
    if "readRemoteFileMode env dest off (h, gs) = (rep, h', fs')" "read_effect ?f fs gs" for gs
    using readRemoteFileMode_effect [OF that(1) read_effect_apart [OF that(2) assms(2)] assms(3)] that(2)
      read_effect_trans by blast
  have after: "read_effect ?f fs fs'" if "after_range_read env au off n (h, gs) = (h', fs')" "read_effect ?f fs gs" for au n gs
    using after_range_read_effect [OF that(1)] that(2) read_effect_trans by blast
  have range: "read_effect ?f fs fs'"
    if "(if length dest > 0 then
             (case FetchBlock (env_rc env) ?f off (int (length dest)) of
                Inr data \<Rightarrow> (Inr data, after_range_read env au off (int (length data)) (h, gs))
              | Inl e \<Rightarrow> readRemoteFileMode env dest off (h, gs))
           else readRemoteFileMode env dest off (h, gs)) = (rep, h', fs')" "read_effect ?f fs gs" for au gs
    using that whole [of gs] after [where gs = gs] by (auto split: if_splits sum.splits)
  show ?thesis
  proof (cases "m = fetchModeFile \<or> fs_bc fs = None \<or> \<not> HasPrefix ?f ''blk''")
    case True
    then show ?thesis
      using assms(1) whole [of ?fs0] range [of ?fs0]
      by (auto simp: read_remote_def mp Let_def simp del: length_greater_0_conv split: if_splits option.splits)
  next
    case False
    then obtain b where b: "fs_bc fs = Some b" by auto
    obtain rep1 fs1 where rv: "readViaBlockmap env b ?f dest off ?fs0 = (rep1, fs1)" by fastforce
    have "read_effect ?f ?fs0 fs1"
      using readViaBlockmap_effect [OF rv] assms(2) b by (simp add: dirs_apart_def)
    then have e1: "read_effect ?f fs fs1" using read_effect_trans [OF read_effect_policy(2)] by blast
    then show ?thesis
      using assms(1) False b rv range [of fs1] after [where gs = fs1]
      by (cases rep1) (auto simp: read_remote_def mp Let_def simp del: length_greater_0_conv split: if_splits)
  qed
qed

lemma FileHandle_Read_effect:
  assumes "FileHandle_Read env dest off (h, fs) = (rep, h', fs')" "dirs_apart fs" "plain (h_filename h)"
  shows "read_effect (h_filename h) fs fs'"
  using assms(1) read_remote_effect [OF _ assms(2,3)]
  by (auto simp: FileHandle_Read_def split: if_splits FileState.splits sum.splits)

section \<open>Sequences of requests\<close>

text \<open>
  A state of the relation is the file system with the number of open write handles per file and
  the read handles that were opened, by name and state. Each step runs one handler in some
  environment. Names come from a directory, so they have no slash; reads, writes, allocations and
  releases come through handles that are open. In \<open>step_create\<close> the query for an existing entry
  does not fail. The other handlers change no state.
\<close>

type_synonym fs_conf = "FS \<times> (string \<Rightarrow> nat) \<times> (string \<times> FileState) set"

definition opened_reader :: "(handle \<times> 32 word) reply \<Rightarrow> (string \<times> FileState) set" where
  "opened_reader rep = {(h_filename h, h_state h) | h fl. rep = Inr (HRead h, fl)}"

inductive fs_step :: "fs_conf \<Rightarrow> fs_conf \<Rightarrow> bool" where
  step_open: "plain f \<Longrightarrow> Open env f special flags fs = (rep, fs') \<Longrightarrow>
    fs_step (fs, n, R) (fs', if \<exists>w fl. rep = Inr (HWrite w, fl) then n(f := Suc (n f)) else n, R \<union> opened_reader rep)"
| step_create: "plain f \<Longrightarrow> db_fault (env_db env) ''GetFile'' = None \<Longrightarrow> Create env f flags fs = (rep, fs') \<Longrightarrow>
    fs_step (fs, n, R) (fs', if \<exists>i a w fl. rep = Inr (i, a, HWrite w, fl) then n(f := Suc (n f)) else n, R)"
| step_write: "0 < n (w_filename h) \<Longrightarrow> plain (w_filename h) \<Longrightarrow> WriteHandle_Write env h data off fs = (rep, fs') \<Longrightarrow>
    fs_step (fs, n, R) (fs', n, R)"
| step_allocate: "0 < n (w_filename h) \<Longrightarrow> plain (w_filename h) \<Longrightarrow>
    WriteHandle_Allocate env h off' len' fs = (rep', fs') \<Longrightarrow> fs_step (fs, n, R) (fs', n, R)"
| step_release: "0 < n (w_filename h) \<Longrightarrow> plain (w_filename h) \<Longrightarrow> WriteHandle_Release env h fs = (rep', fs') \<Longrightarrow>
    fs_step (fs, n, R) (fs', n(w_filename h := n (w_filename h) - 1), R)"
| step_read: "plain (h_filename h) \<Longrightarrow> (h_filename h, h_state h) \<in> R \<Longrightarrow>
    FileHandle_Read env dest off (h, fs) = (rep, h', fs') \<Longrightarrow>
    fs_step (fs, n, R) (fs', n, insert (h_filename h', h_state h') R)"
| step_manifest: "fs_step (fs, n, R) (UpdateManifest m fs, n, R)"

definition fs_base :: "FS \<times> (string \<Rightarrow> nat) \<Rightarrow> bool" where
  "fs_base = (\<lambda>(fs, n). handles_ok n fs \<and> db_inv (fs_st fs) \<and> dirs_apart fs)"

definition sealed :: "FS \<Rightarrow> string \<Rightarrow> bytes option \<Rightarrow> bool" where
  "sealed fs f c \<longleftrightarrow> state_of fs f \<in> Some ` {FileStateRemote, FileStateCached, FileStateLocalFinalized}
     \<and> fs_disk fs (path_Join (fs_localDir fs) f) = c"

lemma sealed_iff:
  "db_inv (fs_st fs) \<Longrightarrow> state_of fs f = Some s \<Longrightarrow> s \<noteq> FileStateActive \<Longrightarrow>
     state_of fs f \<in> Some ` {FileStateRemote, FileStateCached, FileStateLocalFinalized}"
  by (cases s) (auto simp: state_of_def db_inv_def lookup_Some_iff list_all_iff row_check_def)

text \<open>The directories of the caches and the local files stay the same in every step.\<close>

definition same_dirs :: "FS \<Rightarrow> FS \<Rightarrow> bool" where
  "same_dirs fs fs' \<longleftrightarrow> fs_localDir fs' = fs_localDir fs \<and> fs_ca fs' = fs_ca fs \<and> fs_bc fs' = fs_bc fs"

lemma same_dirs_apart: "same_dirs fs fs' \<Longrightarrow> dirs_apart fs \<Longrightarrow> dirs_apart fs'"
  by (simp add: same_dirs_def dirs_apart_def)

lemma markOpened_same [simp]: "same_dirs fs (markOpened f fs')  = same_dirs fs fs'"
  "fs_st (markOpened f fs) = fs_st fs" "fs_disk (markOpened f fs) = fs_disk fs"
  by (simp_all add: same_dirs_def markOpened_def)

lemma handles_ok_cong: "fs_writeHandles fs' = fs_writeHandles fs \<Longrightarrow> handles_ok n fs' = handles_ok n fs"
  by (simp add: handles_ok_def)

lemma Open_inv:
  assumes "Open env f special flags fs = (rep, fs')" "fs_base (fs, n)"
  shows "fs_base (fs', if \<exists>w fl. rep = Inr (HWrite w, fl) then n(f := Suc (n f)) else n)"
proof -
  have "same_dirs fs fs'"
    using assms(1) by (auto simp: Open_def Let_def same_dirs_def markOpened_def split: if_splits sum.splits option.splits)
  moreover have "handles_ok (n(f := Suc (n f))) fs'" if "\<exists>w fl. rep = Inr (HWrite w, fl)"
    using Open_effect [OF assms(1)] that markOpened_ok [of n fs f] assms(2) handles_ok_cong [of fs' "markOpened f fs"]
    by (simp add: fs_base_def)
  ultimately show ?thesis
    using Open_effect [OF assms(1)] same_dirs_apart [of fs fs'] assms(2) by (auto simp: fs_base_def)
qed

lemma Open_sealed:
  assumes "Open env f special flags fs = (rep, fs')" "sealed fs g c" "plain f" "plain g"
  shows "sealed fs' g c"
proof -
  have "fs_localDir fs' = fs_localDir fs"
    using assms(1) by (auto simp: Open_def Let_def markOpened_def split: if_splits sum.splits option.splits)
  moreover have "fs_disk fs' (path_Join (fs_localDir fs) g) = fs_disk fs (path_Join (fs_localDir fs) g)"
    using assms(1,2)
    by (auto simp: Open_def Let_def sealed_def state_of_def GetFile_lookup split: if_splits sum.splits option.splits)
  ultimately show ?thesis
    using Open_effect [OF assms(1)] assms(2) by (auto simp: sealed_def state_of_def)
qed

lemma Create_cases:
  assumes "Create env f flags fs = (rep, fs')"
  shows "same_dirs fs fs' \<and>
    (fs' = fs \<and> \<not> (\<exists>i a w fl. rep = Inr (i, a, HWrite w, fl)) \<or>
     (\<exists>c db err. UpsertFile (env_db env) (active_entry f (env_now env)) (fs_st fs) = (err, db) \<and> fs_st fs' = db
        \<and> fs_disk fs' = (fs_disk fs)(path_Join (fs_localDir fs) f \<mapsto> c)))"
  using assms
  by (auto simp: Create_def Let_def same_dirs_def markOpened_def split: sum.splits option.splits if_splits prod.splits)

lemma Create_handles:
  assumes "Create env f flags fs = (rep, fs')"
  shows "fs_writeHandles fs' =
    (if \<exists>i a w fl. rep = Inr (i, a, HWrite w, fl) then fs_writeHandles (markOpened f fs) else fs_writeHandles fs)"
  using assms
  by (auto simp: Create_def Let_def markOpened_def split: sum.splits option.splits if_splits prod.splits)

lemma Create_inv:
  assumes "Create env f flags fs = (rep, fs')" "fs_base (fs, n)"
  shows "fs_base (fs', if \<exists>i a w fl. rep = Inr (i, a, HWrite w, fl) then n(f := Suc (n f)) else n)"
proof -
  have inv: "handles_ok n fs" "db_inv (fs_st fs)" "dirs_apart fs" using assms(2) by (auto simp: fs_base_def)
  have "dirs_apart fs'" using Create_cases [OF assms(1)] same_dirs_apart inv(3) by blast
  moreover have "db_inv (fs_st fs')"
    using Create_cases [OF assms(1)] store_ops_inv(1) [OF inv(2)] inv(2) by blast
  moreover have "handles_ok (if \<exists>i a w fl. rep = Inr (i, a, HWrite w, fl) then n(f := Suc (n f)) else n) fs'"
  proof (cases "\<exists>i a w fl. rep = Inr (i, a, HWrite w, fl)")
    case True
    have "fs_writeHandles fs' = fs_writeHandles (markOpened f fs)" using True Create_handles [OF assms(1)] by simp
    from handles_ok_cong [OF this] show ?thesis
      unfolding if_P [OF True] using markOpened_ok [OF inv(1), of f] by simp
  next
    case False
    have "fs_writeHandles fs' = fs_writeHandles fs" using False Create_handles [OF assms(1)] by simp
    from handles_ok_cong [OF this] show ?thesis unfolding if_not_P [OF False] using inv(1) by simp
  qed
  ultimately show ?thesis by (simp add: fs_base_def)
qed

lemma Create_keeps_sealed:
  assumes "Create env f flags fs = (rep, fs')" "sealed fs g c" "db_fault (env_db env) ''GetFile'' = None"
  shows "sealed fs' g c"
proof (cases "g = f")
  case True
  then have "fs' = fs" using Create_sealed [OF _ assms(3,1)] assms(2) by (simp add: sealed_def)
  with assms(2) show ?thesis by simp
next
  case False
  have "state_of fs' g = state_of fs g"
    if "UpsertFile (env_db env) (active_entry f (env_now env)) (fs_st fs) = (err, fs_st fs')" for err
    using sqlite.state_after(1) [OF that, of g] False by (simp add: state_of_def active_entry_def)
  then show ?thesis
    using Create_cases [OF assms(1)] assms(2) False by (auto simp: sealed_def same_dirs_def)
qed

lemma Release_inv:
  assumes "WriteHandle_Release env h fs = (rep, fs')" "fs_base (fs, n)" "0 < n (w_filename h)"
  shows "fs_base (fs', n(w_filename h := n (w_filename h) - 1))" "same_dirs fs fs'"
proof -
  have inv: "handles_ok n fs" "db_inv (fs_st fs)" "dirs_apart fs" using assms(2) by (auto simp: fs_base_def)
  have fin: "same_dirs gs (finalize env f e gs)" "db_inv (fs_st gs) \<Longrightarrow> db_inv (fs_st (finalize env f e gs))" for f e gs
    by (auto simp: finalize_def same_dirs_def Let_def split: sum.splits option.splits prod.splits intro: store_ops_inv(1))
  obtain r fs1 where mc: "markClosed (w_filename h) fs = (r, fs1)" by fastforce
  have fs1: "fs_st fs1 = fs_st fs" "same_dirs fs fs1"
    using mc by (auto simp: markClosed_def same_dirs_def Let_def split: if_splits)
  have c: "fs' = fs1 \<or> (\<exists>e. fs' = finalize env (w_filename h) e fs1)"
    using assms(1) mc by (auto simp: WriteHandle_Release_def Let_def split: if_splits sum.splits)
  then show d: "same_dirs fs fs'" using fs1(2) fin(1) [of fs1] by (auto simp: same_dirs_def)
  have "db_inv (fs_st fs')" using c fs1 inv(2) fin(2) by auto
  moreover have "handles_ok (n(w_filename h := n (w_filename h) - 1)) fs'"
    using Release_handles [OF assms(1)] markClosed_ok [OF inv(1) assms(3)] handles_ok_cong by blast
  ultimately show "fs_base (fs', n(w_filename h := n (w_filename h) - 1))"
    using same_dirs_apart [OF d inv(3)] by (simp add: fs_base_def)
qed

lemma Release_sealed:
  assumes "WriteHandle_Release env h fs = (rep, fs')" "fs_base (fs, n)" "0 < n (w_filename h)" "sealed fs g c"
  shows "sealed fs' g c"
proof -
  have "lookup (fs_st fs') g = lookup (fs_st fs) g"
  proof (cases "fs_st fs' = fs_st fs")
    case False
    have "handles_ok n fs" using assms(2) by (simp add: fs_base_def)
    from Release_finalises [OF assms(1) False this assms(3)] show ?thesis
      using assms(4) by (auto simp: sealed_def state_of_def)
  qed simp
  moreover have "fs_disk fs' = fs_disk fs" using Release_handles [OF assms(1)] by simp
  ultimately show ?thesis
    using Release_inv(2) [OF assms(1-3)] assms(4) by (simp add: sealed_def state_of_def same_dirs_def)
qed

section \<open>The invariant\<close>

text \<open>
  Besides the base invariant: a file with an open write handle is ACTIVE, and a file with a read
  handle of state REMOTE is sealed.
\<close>

abbreviation sealed_states :: "FileState option set" where
  "sealed_states \<equiv> Some ` {FileStateRemote, FileStateCached, FileStateLocalFinalized}"

definition fs_inv :: "fs_conf \<Rightarrow> bool" where
  "fs_inv = (\<lambda>(fs, n, R). fs_base (fs, n) \<and> (\<forall>f. 0 < n f \<longrightarrow> state_of fs f = Some FileStateActive)
     \<and> (\<forall>f. (f, FileStateRemote) \<in> R \<longrightarrow> state_of fs f \<in> sealed_states))"

text \<open>The part of a step's effect on the states that the invariant needs.\<close>

definition state_moves :: "FS \<Rightarrow> FS \<Rightarrow> bool" where
  "state_moves fs fs' \<longleftrightarrow> (\<forall>g. state_of fs' g = state_of fs g
     \<or> state_of fs g = None \<and> state_of fs' g = Some FileStateActive
     \<or> (\<exists>s ev s'. state_of fs g = Some s \<and> state_of fs' g = Some s' \<and> step s ev s'))"

lemma state_moves_sealed: "state_moves fs fs' \<Longrightarrow> state_of fs g \<in> sealed_states \<Longrightarrow> state_of fs' g \<in> sealed_states"
  unfolding state_moves_def step_cases by (auto dest!: spec [of _ g])

lemma read_handle:
  assumes "FileHandle_Read env dest off (h, fs) = (rep, h', fs')"
  shows "h_filename h' = h_filename h \<and> (h_state h' = h_state h \<or> h_state h' = FileStateCached)"
proof -
  have whole: "h_filename k' = h_filename k \<and> (h_state k' = h_state k \<or> h_state k' = FileStateCached)"
    if "readRemoteFileMode env ds off (k, gs) = (r, k', gs')" for ds k gs r k' gs'
    using that by (auto simp: readRemoteFileMode_def observe_def Let_def split: prod.splits option.splits sum.splits if_splits)
  have after: "h_filename k' = h_filename k \<and> h_state k' = h_state k"
    if "after_range_read env au off n (k, gs) = (k', gs')" for au n k gs k' gs'
    using that by (auto simp: after_range_read_def observe_def Let_def split: if_splits)
  have "h_filename h' = h_filename h \<and> (h_state h' = h_state h \<or> h_state h' = FileStateCached)"
    if "read_remote env dest off (h, fs) = (rep, h', fs')"
    using that
    by (auto simp: read_remote_def Let_def dest: whole after split: prod.splits option.splits sum.splits if_splits)
  then show ?thesis
    using assms by (auto simp: FileHandle_Read_def split: if_splits FileState.splits sum.splits)
qed

lemma read_states:
  assumes "FileHandle_Read env dest off (h, fs) = (rep, h', fs')" "h_state h \<noteq> FileStateRemote"
  shows "state_of fs' g = state_of fs g"
proof -
  have "state_of (touch env (h_filename h) fs) g = state_of fs g"
    using read_effect_touch [of "h_filename h @ ''x''" fs env "h_filename h"]
      read_effect_touch [of "h_filename h" fs env "h_filename h"]
    unfolding read_effect_def by (metis append_self_conv list.distinct(1))
  then show ?thesis
    using assms by (auto simp: FileHandle_Read_def split: if_splits FileState.splits sum.splits)
qed

lemma read_moves:
  assumes "FileHandle_Read env dest off (h, fs) = (rep, h', fs')" "plain (h_filename h)" "dirs_apart fs"
    and "h_state h = FileStateRemote \<longrightarrow> state_of fs (h_filename h) \<in> sealed_states"
  shows "state_moves fs fs' \<and> (\<forall>g. state_of fs g = Some FileStateActive \<longrightarrow> state_of fs' g = Some FileStateActive)"
proof (cases "h_state h = FileStateRemote")
  case True
  have e: "state_of fs' g = state_of fs g \<or> g = h_filename h \<and> state_of fs g \<noteq> Some FileStateLocalFinalized
      \<and> state_of fs' g = Some FileStateCached" for g
    using FileHandle_Read_effect [OF assms(1,3,2)] by (auto simp: read_effect_def)
  have s: "state_of fs (h_filename h) \<in> sealed_states" using assms(4) True by simp
  have "state_of fs' g = state_of fs g \<or> state_of fs g = Some FileStateRemote \<and> state_of fs' g = Some FileStateCached" for g
    using e [of g] s by auto
  then show ?thesis unfolding state_moves_def step_cases by (metis FileState.distinct(5) option.inject)
next
  case False
  then show ?thesis using read_states [OF assms(1)] by (simp add: state_moves_def)
qed

lemma create_moves:
  assumes "Create env f flags fs = (rep, fs')" "db_fault (env_db env) ''GetFile'' = None" "db_inv (fs_st fs)"
  shows "state_moves fs fs' \<and> (\<forall>g. state_of fs g = Some FileStateActive \<longrightarrow> state_of fs' g = Some FileStateActive)"
proof (cases "fs_st fs' = fs_st fs")
  case True
  then show ?thesis by (simp add: state_moves_def state_of_def)
next
  case False
  then obtain err where u: "UpsertFile (env_db env) (active_entry f (env_now env)) (fs_st fs) = (err, fs_st fs')"
    using Create_cases [OF assms(1)] by auto
  have s: "lookup (fs_st fs') = (lookup (fs_st fs))(f \<mapsto> stored (active_entry f (env_now env)))"
    using sqlite.upsert_cases [OF u] False by (auto simp: active_entry_def)
  have "state_of fs f \<notin> sealed_states" using Create_sealed [OF _ assms(2,1)] False by auto
  then have "state_of fs f = None \<or> state_of fs f = Some FileStateActive"
    using sealed_iff [OF assms(3)] by (cases "state_of fs f") auto
  then show ?thesis unfolding state_moves_def by (auto simp: state_of_def s active_entry_def)
qed

lemma release_moves:
  assumes "WriteHandle_Release env h fs = (rep, fs')" "fs_base (fs, n)" "0 < n (w_filename h)"
  shows "state_moves fs fs'" "0 < n (w_filename h) - 1 \<Longrightarrow> fs_st fs' = fs_st fs"
    and "g \<noteq> w_filename h \<Longrightarrow> state_of fs' g = state_of fs g"
proof -
  have ok: "handles_ok n fs" using assms(2) by (simp add: fs_base_def)
  note fin = Release_finalises [OF assms(1) _ ok assms(3)]
  have "state_of fs (w_filename h) = Some FileStateActive
      \<and> state_of fs' = (state_of fs)(w_filename h \<mapsto> FileStateLocalFinalized)" if "fs_st fs' \<noteq> fs_st fs"
    using fin [OF that] by (auto simp: state_of_def finalized_entry_def fun_eq_iff)
  then show "state_moves fs fs'"
    by (cases "fs_st fs' = fs_st fs") (auto simp: state_moves_def step_cases state_of_def)
  show "0 < n (w_filename h) - 1 \<Longrightarrow> fs_st fs' = fs_st fs" using fin by fastforce
  show "g \<noteq> w_filename h \<Longrightarrow> state_of fs' g = state_of fs g"
    by (cases "fs_st fs' = fs_st fs") (use fin in \<open>auto simp: state_of_def\<close>)
qed

text \<open>
  One step keeps the invariant, moves every file along the state machine and keeps every sealed
  file as it is.
\<close>

lemma fs_invI:
  assumes "fs_base (fs', n')" "\<And>f. 0 < n' f \<Longrightarrow> state_of fs' f = Some FileStateActive"
    and "state_moves fs fs'" "fs_inv (fs, n, R)"
    and "\<And>f. (f, FileStateRemote) \<in> R' \<Longrightarrow> (f, FileStateRemote) \<in> R \<or> state_of fs' f \<in> sealed_states"
  shows "fs_inv (fs', n', R')"
  using assms(1,2,4,5) state_moves_sealed [OF assms(3)] unfolding fs_inv_def by (simp add: Ball_def) blast

abbreviation keeps :: "fs_conf \<Rightarrow> fs_conf \<Rightarrow> bool" where
  "keeps s s' \<equiv> fs_inv s' \<and> state_moves (fst s) (fst s')
     \<and> (\<forall>g c. plain g \<longrightarrow> sealed (fst s) g c \<longrightarrow> sealed (fst s') g c)"

lemma step_open_keeps:
  assumes step_open: "plain f" "Open env f special flags fs = (rep, fs')" "fs_inv (fs, n, R)"
  shows "keeps (fs, n, R) (fs', if \<exists>w fl. rep = Inr (HWrite w, fl) then n(f := Suc (n f)) else n, R \<union> opened_reader rep)"
proof -
  let ?w = "\<exists>w fl. rep = Inr (HWrite w, fl)"
  have st: "fs_st fs' = fs_st fs" using Open_effect [OF step_open(2)] by simp
  then have same: "state_of fs' = state_of fs" by (simp add: state_of_def fun_eq_iff)
  then have m: "state_moves fs fs'" by (simp add: state_moves_def)
  have act: "state_of fs f = Some FileStateActive" if ?w
    using that step_open(2)
    by (auto simp: Open_def GetFile_lookup state_of_def Let_def split: if_splits option.splits sum.splits)
  have rd: "state_of fs' g \<in> sealed_states" if "(g, FileStateRemote) \<in> opened_reader rep" for g
    using that step_open(2) unfolding same
    by (auto simp: opened_reader_def Open_def GetFile_lookup state_of_def new_FileHandle_def Let_def
        split: if_splits option.splits sum.splits)
  have n: "0 < n g \<Longrightarrow> state_of fs g = Some FileStateActive" for g using step_open(3) by (simp add: fs_inv_def)
  have "fs_inv (fs', if ?w then n(f := Suc (n f)) else n, R \<union> opened_reader rep)"
  proof (rule fs_invI [OF _ _ m step_open(3)])
    show "fs_base (fs', if ?w then n(f := Suc (n f)) else n)"
      using Open_inv [OF step_open(2)] step_open(3) by (simp add: fs_inv_def)
    show "state_of fs' g = Some FileStateActive" if "0 < (if ?w then n(f := Suc (n f)) else n) g" for g
      unfolding same using that act n by (cases ?w; cases "g = f") (simp_all only: if_True if_False fun_upd_apply)
    show "(g, FileStateRemote) \<in> R \<or> state_of fs' g \<in> sealed_states"
      if "(g, FileStateRemote) \<in> R \<union> opened_reader rep" for g
      using that rd by blast
  qed
  then show ?thesis using m Open_sealed [OF step_open(2) _ step_open(1)] by simp
qed

lemma step_create_keeps:
  assumes step_create: "plain f" "db_fault (env_db env) ''GetFile'' = None" "Create env f flags fs = (rep, fs')"
    "fs_inv (fs, n, R)"
  shows "keeps (fs, n, R) (fs', if \<exists>i a w fl. rep = Inr (i, a, HWrite w, fl) then n(f := Suc (n f)) else n, R)"
proof -
  have b: "fs_base (fs, n)" "db_inv (fs_st fs)" using step_create(4) by (auto simp: fs_inv_def fs_base_def)
  note m = create_moves [OF step_create(3,2) b(2)]
  have w: "state_of fs' f = Some FileStateActive" if "\<exists>i a w fl. rep = Inr (i, a, HWrite w, fl)"
    using that Create_effect [of env f flags fs _ _ _ _ fs'] step_create(3) by (fastforce simp: writes_def)
  let ?w = "\<exists>i a w fl. rep = Inr (i, a, HWrite w, fl)"
  have n: "0 < n g \<Longrightarrow> state_of fs' g = Some FileStateActive" for g using step_create(4) m by (simp add: fs_inv_def)
  have "fs_inv (fs', if ?w then n(f := Suc (n f)) else n, R)"
  proof (rule fs_invI [OF Create_inv [OF step_create(3) b(1)] _ conjunct1 [OF m] step_create(4)])
    show "state_of fs' g = Some FileStateActive" if "0 < (if ?w then n(f := Suc (n f)) else n) g" for g
      using that w n by (cases ?w; cases "g = f") (simp_all only: if_True if_False fun_upd_apply)
  qed blast
  then show ?thesis using m Create_keeps_sealed [OF step_create(3) _ step_create(2)] by simp
qed

lemma step_write_keeps:
  assumes step_write: "0 < n (w_filename h)" "plain (w_filename h)" "WriteHandle_Write env h data off fs = (rep, fs')"
    "fs_inv (fs, n, R)"
  shows "keeps (fs, n, R) (fs', n, R)"
proof -
  have d: "same_dirs fs fs'"
    using step_write(3) by (auto simp: WriteHandle_Write_def same_dirs_def split: sum.splits if_splits prod.splits)
  note w = WriteHandle_Write_cases [OF step_write(3)]
  have m: "state_moves fs fs'" using w by (simp add: state_moves_def state_of_def)
  have "fs_base (fs', n)"
    using step_write(4) w same_dirs_apart [OF d] handles_ok_cong [of fs' fs n] by (simp add: fs_inv_def fs_base_def)
  then have "fs_inv (fs', n, R)"
    using step_write(4) w by (intro fs_invI [OF _ _ m]) (auto simp: fs_inv_def state_of_def)
  moreover have "sealed fs' g c" if "sealed fs g c" for g c
    using that w d by (cases "g = w_filename h") (auto simp: sealed_def state_of_def same_dirs_def)
  ultimately show ?thesis using m by simp
qed

lemma step_allocate_keeps:
  assumes step_allocate: "0 < n (w_filename h)" "plain (w_filename h)" "WriteHandle_Allocate env h off len fs = (rep, fs')"
    "fs_inv (fs, n, R)"
  shows "keeps (fs, n, R) (fs', n, R)"
proof -
  note w = WriteHandle_Allocate_cases [OF step_allocate(3)]
  have d: "same_dirs fs fs'" using w by (simp add: same_dirs_def)
  have m: "state_moves fs fs'" using w by (simp add: state_moves_def state_of_def)
  have act: "state_of fs (w_filename h) = Some FileStateActive" using step_allocate(1,4) by (simp add: fs_inv_def)
  have "fs_base (fs', n)"
    using step_allocate(4) w same_dirs_apart [OF d] handles_ok_cong [of fs' fs n] by (simp add: fs_inv_def fs_base_def)
  then have "fs_inv (fs', n, R)"
    using step_allocate(4) w by (intro fs_invI [OF _ _ m]) (auto simp: fs_inv_def state_of_def)
  moreover have "sealed fs' g c" if "sealed fs g c" for g c
    using that w act by (cases "g = w_filename h") (auto simp: sealed_def state_of_def)
  ultimately show ?thesis using m by simp
qed

lemma step_release_keeps:
  assumes step_release: "0 < n (w_filename h)" "plain (w_filename h)" "WriteHandle_Release env h fs = (rep, fs')"
    "fs_inv (fs, n, R)"
  shows "keeps (fs, n, R) (fs', n(w_filename h := n (w_filename h) - 1), R)"
proof -
  have b: "fs_base (fs, n)" using step_release(4) by (simp add: fs_inv_def)
  note m = release_moves [OF step_release(3) b step_release(1)]
  have "state_of fs' g = Some FileStateActive" if "0 < (n(w_filename h := n (w_filename h) - 1)) g" for g
  proof (cases "g = w_filename h")
    case True
    then have "fs_st fs' = fs_st fs" using that m(2) by simp
    then show ?thesis using True step_release(1,4) by (simp add: fs_inv_def state_of_def)
  next
    case False
    then show ?thesis using that m(3) [OF False] step_release(4) by (simp add: fs_inv_def)
  qed
  then have "fs_inv (fs', n(w_filename h := n (w_filename h) - 1), R)"
    using Release_inv(1) [OF step_release(3) b step_release(1)] step_release(4) by (intro fs_invI [OF _ _ m(1)]) auto
  then show ?thesis using m(1) Release_sealed [OF step_release(3) b step_release(1)] by simp
qed

lemma step_read_keeps:
  assumes step_read: "plain (h_filename h)" "(h_filename h, h_state h) \<in> R" "FileHandle_Read env dest off (h, fs) = (rep, h', fs')"
    "fs_inv (fs, n, R)"
  shows "keeps (fs, n, R) (fs', n, insert (h_filename h', h_state h') R)"
proof -
  have b: "dirs_apart fs" "h_state h = FileStateRemote \<longrightarrow> state_of fs (h_filename h) \<in> sealed_states"
    using step_read(2,4) by (auto simp: fs_inv_def fs_base_def)
  have e: "read_effect (h_filename h) fs fs'" using FileHandle_Read_effect [OF step_read(3) b(1) step_read(1)] .
  note m = read_moves [OF step_read(3,1) b] and h = read_handle [OF step_read(3)]
  have "fs_base (fs', n)"
    using e step_read(4) read_effect_apart [OF e] handles_ok_cong [of fs' fs n]
    by (simp add: fs_inv_def fs_base_def read_effect_def)
  then have "fs_inv (fs', n, insert (h_filename h', h_state h') R)"
    using m h step_read(2,4) by (intro fs_invI [of fs' n fs]) (auto simp: fs_inv_def)
  moreover have "sealed fs' g c" if "plain g" "sealed fs g c" for g c
    using that e state_moves_sealed [of fs fs' g] m by (auto simp: sealed_def read_effect_def)
  ultimately show ?thesis using m by simp
qed

lemma step_manifest_keeps:
  assumes step_manifest: "fs_inv (fs, n, R)"
  shows "keeps (fs, n, R) (UpdateManifest m fs, n, R)"
proof -
  have s: "state_of (UpdateManifest m fs) = state_of fs" by (simp add: UpdateManifest_def state_of_def fun_eq_iff)
  then have mv: "state_moves fs (UpdateManifest m fs)" by (simp add: state_moves_def)
  have "fs_base (UpdateManifest m fs, n)"
    using step_manifest by (simp add: fs_inv_def fs_base_def UpdateManifest_def handles_ok_def dirs_apart_def)
  then have "fs_inv (UpdateManifest m fs, n, R)"
    using step_manifest s by (intro fs_invI [OF _ _ mv]) (auto simp: fs_inv_def)
  then show ?thesis using mv s by (simp add: sealed_def UpdateManifest_def)
qed

lemma fs_step_keeps:
  assumes "fs_step s s'" "fs_inv s"
  shows "keeps s s'"
  using assms
proof (induction rule: fs_step.induct)
qed (rule step_open_keeps step_create_keeps step_write_keeps step_allocate_keeps
    step_release_keeps step_read_keeps step_manifest_keeps; assumption)+

lemma fs_run_keeps:
  assumes "fs_step\<^sup>*\<^sup>* s s'" "fs_inv s"
  shows "fs_inv s' \<and> (\<forall>g c. plain g \<longrightarrow> sealed (fst s) g c \<longrightarrow> sealed (fst s') g c)"
  using assms by (induction rule: rtranclp_induct) (use fs_step_keeps in blast)+

lemma run_snoc: "run a evs b \<Longrightarrow> step b ev c \<Longrightarrow> run a (evs @ [ev]) c"
  by (induction rule: run.induct) (auto intro: run.intros)

lemma fs_run_states:
  assumes "fs_step\<^sup>*\<^sup>* s s'" "fs_inv s" "state_of (fst s) g = Some a"
  shows "\<exists>evs b. run a evs b \<and> state_of (fst s') g = Some b"
  using assms
proof (induction rule: rtranclp_induct)
  case base
  then show ?case by (auto intro: run_Nil)
next
  case (step t u)
  then obtain evs b where b: "run a evs b" "state_of (fst t) g = Some b" by blast
  have "fs_inv t" using fs_run_keeps step.hyps(1) step.prems(1) by blast
  then have "state_moves (fst t) (fst u)" using fs_step_keeps [OF step.hyps(2)] by blast
  then have "state_of (fst u) g = Some b \<or> (\<exists>ev c. state_of (fst u) g = Some c \<and> step b ev c)"
    using b(2) unfolding state_moves_def by (metis option.distinct(1) option.inject)
  then show ?case using b(1) run_snoc by blast
qed

section \<open>Properties\<close>


definition mounted :: FS where
  "mounted = New_fs [''l/f'' \<mapsto> [1]] ''l'' [] [row_of (example_entry ''f'' FileStateLocalFinalized)]
     \<lparr>dc_dir = ''c'', dc_maxBytes = 9, dc_minKeep = 0\<rparr> None None Map.empty None"




end
