(* ===== verification/Fusefs_Session.thy ===== *)
theory Fusefs_Session
  imports Fusefs_Read
begin

text \<open>
  Reading a remote file over a whole session: what the read handler keeps between calls. The
  blockmaps in memory, the cached blocks and the cached copy of a file stay the server's, so that
  every answer of a sequence of reads is the server's file, whichever way each one is served.
\<close>

section \<open>Names\<close>

text \<open>The block files keep apart from the whole copies: a blk name is no number and no temporary name.\<close>

definition blk_name :: "string \<Rightarrow> bool" where
  "blk_name f \<longleftrightarrow> HasPrefix f ''blk'' \<and> CHR ''/'' \<notin> set f"

lemma blk_name_hd: "blk_name f \<Longrightarrow> \<exists>s. f = CHR ''b'' # s"
  by (cases f) (auto simp: blk_name_def HasPrefix_def)

lemma Itoa_no_blk: "Itoa i \<noteq> CHR ''b'' # s"
  using Itoa_digit_or_minus [of "CHR ''b''" i] by (auto simp: is_digit_def)

lemma copy_tmp_no_slash: "blk_name f \<Longrightarrow> CHR ''/'' \<notin> set (f @ ''.tmp.'' @ tmp_suffix env)"
  using tmp_no_slash [of env] by (auto simp: blk_name_def)

lemma blockPath_apart:
  assumes "blk_name f"
  shows "blockPath b f i \<noteq> Path c f" "blockPath b f i \<noteq> cache_tmp env c f" "block_tmp env b f \<noteq> Path c f"
proof -
  obtain s where f: "f = CHR ''b'' # s" using blk_name_hd [OF assms] by blast
  have sl: "CHR ''/'' \<notin> set f" using assms by (simp add: blk_name_def)
  show "blockPath b f i \<noteq> Path c f"
    using path_Join_split [OF _ Itoa_no_slash sl] Itoa_no_blk f unfolding blockPath_def Path_def by metis
  show "blockPath b f i \<noteq> cache_tmp env c f"
    using path_Join_split [OF _ Itoa_no_slash copy_tmp_no_slash [OF assms]] Itoa_no_blk f
    unfolding blockPath_def cache_tmp_def by (metis append_Cons)
  show "block_tmp env b f \<noteq> Path c f"
    using path_Join_split [OF _ tmp_no_slash sl] f unfolding block_tmp_def Path_def by fastforce
qed

section \<open>What a read keeps\<close>

definition fetched_ok :: "fs_env \<Rightarrow> string \<Rightarrow> BlockmapEntry list \<Rightarrow> bool" where
  "fetched_ok env f es \<longleftrightarrow>
     (\<forall>raw bm r. FetchBlockmap (env_rc env) f = Inr raw \<longrightarrow> Read raw = Inr (bm, r) \<longrightarrow> Entries bm = es)"

text \<open>What the file system holds of a file is the server's.\<close>

definition holds_ok :: "string \<Rightarrow> bytes \<Rightarrow> BlockmapEntry list \<Rightarrow> FS \<Rightarrow> bool" where
  "holds_ok f file es fs \<longleftrightarrow>
     (\<forall>bm. fs_blockmaps fs f = Some bm \<longrightarrow> Entries bm = es)
     \<and> (\<forall>b. fs_bc fs = Some b \<longrightarrow> blocks_ok b f file es (fs_disk fs)) \<and> copy_ok f file fs"

definition copy_same :: "string \<Rightarrow> bytes \<Rightarrow> FS \<Rightarrow> bool" where
  "copy_same f file fs \<longleftrightarrow> (\<forall>c. fs_disk fs (Path (fs_ca fs) f) = Some c \<longrightarrow> c = file)"

definition session_ok :: "string \<Rightarrow> bytes \<Rightarrow> BlockmapEntry list \<Rightarrow> FileHandle \<times> FS \<Rightarrow> bool" where
  "session_ok f file es = (\<lambda>(h, fs).
     h_filename h = f \<and> \<not> h_special h \<and> holds_ok f file es fs
     \<and> (h_state h = FileStateRemote \<or> h_state h = FileStateCached \<and> copy_same f file fs))"

lemma blockmaps_ok_holds: "holds_ok f file es fs \<Longrightarrow> fetched_ok env f es \<Longrightarrow> blockmaps_ok env f es fs"
  by (simp add: holds_ok_def fetched_ok_def blockmaps_ok_def)

lemma holds_ok_policy [simp]:
  "holds_ok f file es (fs\<lparr>fs_policy := p\<rparr>) = holds_ok f file es fs" "holds_ok f file es (set_policy g fs) = holds_ok f file es fs"
  "copy_same f file (set_policy g fs) = copy_same f file fs"
  by (simp_all add: holds_ok_def copy_ok_def set_policy_def copy_same_def)

lemma touch_keeps [simp]:
  "fs_disk (touch env g fs) = fs_disk fs" "fs_ca (touch env g fs) = fs_ca fs" "fs_bc (touch env g fs) = fs_bc fs"
  "fs_blockmaps (touch env g fs) = fs_blockmaps fs"
  by (simp_all add: touch_def)

lemma copy_ok_states:
  "copy_ok f file fs \<longleftrightarrow>
     (\<forall>st. map_option fe_State (lookup (fs_st fs) f) = Some st \<longrightarrow> st \<in> {FileStateCached, FileStateLocalFinalized} \<longrightarrow>
        copy_same f file fs)"
  by (auto simp: copy_ok_def copy_same_def)

lemma holds_ok_touch: "holds_ok f file es fs \<Longrightarrow> holds_ok f file es (touch env g fs)"
proof -
  assume h: "holds_ok f file es fs"
  obtain err db where u: "UpdateLastAccess (env_db env) g (env_later env) (fs_st fs) = (err, db)" by fastforce
  have "map_option fe_State (lookup db f) = map_option fe_State (lookup (fs_st fs) f)"
    using sqlite.touch_state [OF u] .
  then show ?thesis using h by (simp add: holds_ok_def copy_ok_states touch_def copy_same_def u)
qed

lemma copy_same_touch [simp]: "copy_same f file (touch env g fs) = copy_same f file fs"
  by (simp add: copy_same_def)

lemma fetch_blocks_frame:
  assumes "fetch_blocks env b f bs d = (err, d')" "blk_name f"
  shows "d' (Path c f) = d (Path c f)"
  using assms(1)
proof (induction bs arbitrary: d)
  case (Cons e bs)
  have one: "d1 (Path c f) = d (Path c f)" if "fetchBlock env b f e d = (er, d1)" for er d1
    using that write_atomic_other [where q = "Path c f", OF _ blockPath_apart(3) [OF assms(2), THEN not_sym]
        disjI1 [OF blockPath_apart(1) [OF assms(2), THEN not_sym]]]
    by (auto simp: fetchBlock_def StoreBlock_def Let_def split: if_splits sum.splits option.splits prod.splits)
  then show ?case
    using Cons by (auto split: if_splits option.splits prod.splits)
qed simp

lemma readViaBlockmap_cases:
  assumes "readViaBlockmap env b f dest off fs = (r, fs')" "getOrLoadBlockmap env f fs = (res, fs1)"
  shows "fs' = fs1 \<or> (\<exists>bm err d. res = Inr (Some bm)
      \<and> fetch_blocks env b f (FindBlocks bm off (int (length dest))) (fs_disk fs1) = (err, d) \<and> fs' = fs1\<lparr>fs_disk := d\<rparr>)"
proof (cases "\<exists>bm. res = Inr (Some bm)")
  case True
  then obtain bm where bm: "res = Inr (Some bm)" by blast
  obtain err d where fb: "fetch_blocks env b f (FindBlocks bm off (int (length dest))) (fs_disk fs1) = (err, d)" by fastforce
  show ?thesis
    using assms fb bm by (auto simp: readViaBlockmap_def split: list.splits option.splits sum.splits)
qed (use assms in \<open>auto simp: readViaBlockmap_def split: sum.splits option.splits\<close>)

lemma readViaBlockmap_keeps:
  assumes "readViaBlockmap env b f dest (int x) fs = (r, fs')" "serves (env_rc env) f file" "index_of file es"
    and "holds_ok f file es fs" "fetched_ok env f es" "fs_bc fs = Some b" "blk_name f" "x + length dest < 2 ^ 63"
  shows "holds_ok f file es fs'"
proof -
  obtain res fs1 where g: "getOrLoadBlockmap env f fs = (res, fs1)" by fastforce
  note bo = getOrLoadBlockmap_ok [OF blockmaps_ok_holds [OF assms(4,5)] g]
  have bc: "fs_bc fs1 = fs_bc fs" "\<forall>bm. fs_blockmaps fs1 f = Some bm \<longrightarrow> Entries bm = es"
    using g assms(4,5)
    by (auto simp: getOrLoadBlockmap_def Let_def holds_ok_def fetched_ok_def split: option.splits sum.splits if_splits prod.splits)
  then have h1: "holds_ok f file es fs1" using bo assms(4) by (simp add: holds_ok_def copy_ok_def)
  from readViaBlockmap_cases [OF assms(1) g] show ?thesis
  proof (elim disjE exE conjE)
    fix bm err d
    let ?bs = "FindBlocks bm (int x) (int (length dest))"
    assume 2: "res = Inr (Some bm)" "fetch_blocks env b f ?bs (fs_disk fs1) = (err, d)" "fs' = fs1\<lparr>fs_disk := d\<rparr>"
    have wf: "blockmap_wf bm" "entries_wf es" using bo 2(1) assms(3) by (auto simp: index_of_def blockmap_wf_def)
    have "set ?bs \<subseteq> set es"
      using FindBlocks_iff [OF wf(1), of "int x" "int (length dest)"] assms(8) bo 2(1) by simp
    then have "blocks_ok b f file es d"
      using fetch_blocks_ok [OF assms(2) wf(2) _ _ 2(2)] h1 bc assms(6) by (simp add: holds_ok_def)
    then show ?thesis
      using h1 bc assms(6) fetch_blocks_frame [OF 2(2) assms(7)] 2(3) by (auto simp: holds_ok_def copy_ok_def)
  qed (use h1 in simp)
qed

lemma fetchAndCache_keeps:
  assumes "fetchAndCache env f fs = (err, fs')" "serves (env_rc env) f file" "holds_ok f file es fs" "blk_name f"
  shows "holds_ok f file es fs'"
proof (cases "fs' = fs")
  case False
  obtain entry where e: "GetFile (env_db env) (fs_st fs) f = Inr entry" "fe_State entry \<notin> {FileStateCached, FileStateLocalFinalized}"
    using assms(1) False by (auto simp: fetchAndCache_def split: sum.splits if_splits)
  obtain buf where buf: "FetchFile (env_rc env) f = Inr buf"
    using assms(1) False e by (auto simp: fetchAndCache_def split: sum.splits)
  let ?sha = "expected_sha f entry fs"
  obtain er d db where st: "Store_file (env_io env) (env_db env) (fs_ca fs) f buf ?sha (env_now env) (env_now env)
      (fs_disk fs, fs_st fs) = (er, (d, db))"
    by (metis prod.exhaust)
  obtain er' db' where u: "UpdateState (env_db env) f FileStateCached db = (er', db')" by fastforce
  have fs': "fs' = fs\<lparr>fs_disk := d, fs_st := (if er = None then db' else db)\<rparr>"
    using assms(1) e buf st u by (auto simp: fetchAndCache_def expected_sha_def Let_def split: option.splits)
  have "buf = file" using assms(2) buf by (simp add: serves_def)
  moreover have "Path (fs_ca fs) f \<noteq> cache_tmp (env_io env) (fs_ca fs) f" by (rule cache_tmp_neq [THEN not_sym])
  ultimately have "d (Path (fs_ca fs) f) = Some file \<or> er \<noteq> None \<and> d (Path (fs_ca fs) f) = fs_disk fs (Path (fs_ca fs) f) \<and> db = fs_st fs"
    using Store_file_cases [OF st] by (elim disjE) simp_all
  then have "copy_ok f file fs'"
    using assms(3) fs' by (auto simp: holds_ok_def copy_ok_def)
  moreover have "blocks_ok b f file es d" if "fs_bc fs = Some b" for b
  proof -
    have "d (blockPath b f i) = fs_disk fs (blockPath b f i)" for i
      using Store_file_cases [OF st] blockPath_apart(1) [OF assms(4), of b i "fs_ca fs"]
        blockPath_apart(2) [OF assms(4), of b i "env_io env" "fs_ca fs"] by (elim disjE) simp_all
    then show ?thesis using assms(3) that by (simp add: holds_ok_def blocks_ok_def block_content_def)
  qed
  ultimately show ?thesis using assms(3) fs' by (simp add: holds_ok_def)
qed (use assms in simp)

lemma fetchAndCache_copy_same:
  assumes "fetchAndCache env f fs = (None, fs')" "serves (env_rc env) f file" "holds_ok f file es fs"
  shows "copy_same f file fs'"
  using fetchAndCache_content [OF assms(1,2)] assms(3) by (simp add: copy_same_def holds_ok_def)

section \<open>Sessions\<close>

lemma session_range:
  assumes "session_ok f file es (h, fs)" "h_state h = FileStateRemote" "holds_ok f file es gs"
  shows "session_ok f file es (after_range_read env au off n (h, gs))"
  using assms holds_ok_touch [OF assms(3)]
  by (auto simp: session_ok_def after_range_read_def observe_def Let_def)

lemma session_whole:
  assumes "readRemoteFileMode env dest off (h, gs) = (r, s')" "serves (env_rc env) f file" "blk_name f"
    and "session_ok f file es (h, fs)" "h_state h = FileStateRemote" "holds_ok f file es gs"
  shows "session_ok f file es s'"
proof -
  have f: "h_filename h = f" using assms(4) by (simp add: session_ok_def)
  obtain err fs1 where fc: "fetchAndCache env f gs = (err, fs1)" by fastforce
  have k: "holds_ok f file es fs1" by (rule fetchAndCache_keeps [OF fc assms(2,6,3)])
  have t: "holds_ok f file es (touch env g (set_policy q fs1))" for g q using k by (intro holds_ok_touch) simp
  show ?thesis
  proof (cases err)
    case None
    then have "copy_same f file fs1" using fetchAndCache_copy_same [OF _ assms(2,6)] fc by simp
    then show ?thesis
      using assms(1,4) fc None k f t
      by (auto simp: readRemoteFileMode_def session_ok_def Let_def split: sum.splits)
  next
    case (Some e)
    then show ?thesis
      using assms(1,4,5) fc k f t
      by (auto simp: readRemoteFileMode_def session_ok_def observe_def Let_def split: sum.splits if_splits)
  qed
qed

lemma session_remote:
  assumes "read_remote env dest (int x) (h, fs) = (r, s')" "serves (env_rc env) f file" "index_of file es" "fetched_ok env f es"
    and "blk_name f" "x + length dest < 2 ^ 63" "session_ok f file es (h, fs)" "h_state h = FileStateRemote"
  shows "session_ok f file es s'"
proof -
  have f: "h_filename h = f" and h: "holds_ok f file es fs" using assms(7) by (simp_all add: session_ok_def)
  obtain m p where mp: "ResolveMode f (env_now env) (fs_policy fs) = (m, p)" by fastforce
  let ?fs0 = "fs\<lparr>fs_policy := p\<rparr>" and ?au = "Mode (fs_policy fs) = fetchModeAuto"
  have h0: "holds_ok f file es ?fs0" using h by simp
  have whole: "session_ok f file es s'" if "readRemoteFileMode env dest (int x) (h, gs) = (r, s')" "holds_ok f file es gs" for gs
    using session_whole [OF that(1) assms(2,5,7,8) that(2)] .
  have range: "session_ok f file es s'"
    if "(if length dest > 0 then
           (case FetchBlock (env_rc env) f (int x) (int (length dest)) of
              Inr data \<Rightarrow> (Inr data, after_range_read env ?au (int x) (int (length data)) (h, gs))
            | Inl e \<Rightarrow> readRemoteFileMode env dest (int x) (h, gs))
         else readRemoteFileMode env dest (int x) (h, gs)) = (r, s')" and g: "holds_ok f file es gs" for gs
    using that(1) whole [OF _ g] session_range [OF assms(7,8) g] by (auto split: if_splits sum.splits)
  show ?thesis
  proof (cases "m = fetchModeFile \<or> fs_bc fs = None \<or> \<not> HasPrefix f ''blk''")
    case True
    then show ?thesis
      using assms(1) whole [OF _ h0] range [OF _ h0] by (auto simp: read_remote_def f mp Let_def split: if_splits option.splits)
  next
    case False
    then obtain b where b: "fs_bc fs = Some b" by auto
    obtain rep fs1 where rv: "readViaBlockmap env b f dest (int x) ?fs0 = (rep, fs1)" by fastforce
    have h1: "holds_ok f file es fs1"
      using readViaBlockmap_keeps [OF rv assms(2,3) h0 assms(4) _ assms(5,6)] b by simp
    then have "session_ok f file es (h, fs1)" using assms(7,8) by (simp add: session_ok_def)
    then show ?thesis
      using assms(1) False b rv range [OF _ h1] whole [OF _ h1] session_range [OF assms(7,8) h1]
      by (auto simp: read_remote_def f mp Let_def split: sum.splits if_splits)
  qed
qed

text \<open>One read of the session: it keeps the invariant and what it returns is the file's.\<close>

lemma session_read:
  assumes "FileHandle_Read env dest (int x) s = (r, s')" "serves (env_rc env) f file" "index_of file es" "fetched_ok env f es"
    and "blk_name f" "x + length dest < 2 ^ 63" "session_ok f file es s"
  shows "session_ok f file es s'"
proof -
  obtain h fs where s: "s = (h, fs)" by fastforce
  show ?thesis
  proof (cases "h_state h = FileStateRemote")
    case True
    then have "read_remote env dest (int x) (h, fs) = (r, s')"
      using assms(1,7) s by (simp add: FileHandle_Read_def session_ok_def)
    then show ?thesis using session_remote [OF _ assms(2-6)] assms(7) True s by blast
  next
    case False
    then show ?thesis
      using assms(1,7) s holds_ok_touch by (auto simp: FileHandle_Read_def session_ok_def split: sum.splits)
  qed
qed

lemma session_answer:
  assumes "FileHandle_Read env dest (int x) s = (Inr data, s')" "serves (env_rc env) f file" "index_of file es" "fetched_ok env f es"
    and "honest_io (env_io env)" "0 < length dest" "x + length dest < 2 ^ 63" "length file < 2 ^ 63" "session_ok f file es s"
  shows "data = slice x (length dest) file"
proof -
  obtain h fs where s: "s = (h, fs)" by fastforce
  obtain h' fs' where s': "s' = (h', fs')" by fastforce
  have f: "h_filename h = f" "\<not> h_special h" and h: "holds_ok f file es fs" using assms(9) s by (simp_all add: session_ok_def)
  show ?thesis
  proof (cases "h_state h = FileStateRemote")
    case True
    then have "read_remote env dest (int x) (h, fs) = (Inr data, h', fs')"
      using assms(1) f s s' by (simp add: FileHandle_Read_def)
    then show ?thesis
      using read_remote_exact [where h = h and fs = fs, unfolded f, OF assms(2,3) blockmaps_ok_holds [OF h assms(4)] _ _ assms(5-8)] h
      by (simp add: holds_ok_def)
  next
    case False
    then have "preadLocal (env_io env) (fs_disk fs) (Path (fs_ca fs) f) (length dest) (int x) = Inr data"
      using assms(1,9) s by (auto simp: FileHandle_Read_def session_ok_def split: sum.splits)
    then show ?thesis
      using preadLocal_slice [OF _ assms(5)] assms(9) s False by (fastforce simp: session_ok_def copy_same_def)
  qed
qed

text \<open>A session: reads through one handle, each in a world of its own.\<close>

type_synonym read_call = "fs_env \<times> bytes \<times> nat"

fun read_session :: "read_call list \<Rightarrow> FileHandle \<times> FS \<Rightarrow> bytes reply list" where
  "read_session [] s = []"
| "read_session ((env, dest, x) # cs) s =
     (case FileHandle_Read env dest (int x) s of (r, s') \<Rightarrow> r # read_session cs s')"

text \<open>An answer is an error, or the part of the file that was asked for.\<close>

definition answers :: "bytes \<Rightarrow> read_call \<Rightarrow> bytes reply \<Rightarrow> bool" where
  "answers file = (\<lambda>(env, dest, x) r. \<forall>data. r = Inr data \<longrightarrow> data = slice x (length dest) file)"

definition call_ok :: "string \<Rightarrow> bytes \<Rightarrow> BlockmapEntry list \<Rightarrow> read_call \<Rightarrow> bool" where
  "call_ok f file es = (\<lambda>(env, dest, x). serves (env_rc env) f file \<and> fetched_ok env f es \<and> honest_io (env_io env)
     \<and> 0 < length dest \<and> x + length dest < 2 ^ 63)"

lemma session_exact:
  assumes "index_of file es" "length file < 2 ^ 63" "blk_name f" "list_all (call_ok f file es) cs" "session_ok f file es s"
  shows "list_all2 (answers file) cs (read_session cs s)"
  using assms(4,5)
proof (induction cs arbitrary: s)
  case (Cons c cs)
  obtain env dest x where c: "c = (env, dest, x)" by (cases c)
  obtain r s' where rd: "FileHandle_Read env dest (int x) s = (r, s')" by (rule prod.exhaust)
  have ok: "serves (env_rc env) f file" "fetched_ok env f es" "honest_io (env_io env)" "0 < length dest" "x + length dest < 2 ^ 63"
    using Cons.prems(1) c by (auto simp: call_ok_def)
  have "session_ok f file es s'" by (rule session_read [OF rd ok(1) assms(1) ok(2) assms(3) ok(5) Cons.prems(2)])
  then have "list_all2 (answers file) cs (read_session cs s')" using Cons.IH Cons.prems(1) by simp
  moreover have "answers file c r"
    using session_answer [OF _ ok(1) assms(1) ok(2,3,4,5) assms(2) Cons.prems(2)] rd c by (auto simp: answers_def)
  ultimately show ?case using rd c by simp
qed simp

text \<open>A file that the client has not seen yet starts a session.\<close>

definition unseen :: "string \<Rightarrow> FS \<Rightarrow> bool" where
  "unseen f fs \<longleftrightarrow> fs_blockmaps fs f = None \<and> (\<forall>b i. fs_bc fs = Some b \<longrightarrow> fs_disk fs (blockPath b f i) = None)
     \<and> (\<forall>e. lookup (fs_st fs) f = Some e \<longrightarrow> fe_State e \<notin> {FileStateCached, FileStateLocalFinalized})"

definition remote_handle :: "string \<Rightarrow> FileHandle \<Rightarrow> bool" where
  "remote_handle f h \<longleftrightarrow> h_filename h = f \<and> \<not> h_special h \<and> h_state h = FileStateRemote"

lemma unseen_session: "unseen f fs \<Longrightarrow> remote_handle f h \<Longrightarrow> session_ok f file es (h, fs)"
  by (auto simp: unseen_def remote_handle_def session_ok_def holds_ok_def blocks_ok_def block_content_def copy_ok_def)

end
