(* ===== verification/Daemon.thy ===== *)
theory Daemon
  imports Disk_Cache Manifest
begin

text \<open>
  \<open>internal/daemon\<close>: one tick of the cache manager (\<open>cachemgr.go\<close>), of the manifest poller
  (\<open>poller.go\<close>) and of the compaction manager (\<open>compaction.go\<close>). The tickers are not
  modelled, the work they trigger is. Shown: eviction makes progress and in the end brings
  the cache below its limit or empties it, what a poll does to every entry of the table, and
  that compaction removes only finalised files below the snapshot.
\<close>

section \<open>The cache manager\<close>

record CacheManager =
  cm_ca :: DiskCache
  cm_maxBytes :: int

definition ForceEvict :: "io_env \<Rightarrow> db_env \<Rightarrow> CacheManager \<Rightarrow> int \<Rightarrow> world \<Rightarrow> string list result \<times> world" where
  "ForceEvict env denv m cnt = (\<lambda>(d, db).
     case ListCachedByLRU denv db cnt of
       Inl e \<Rightarrow> (Inl e, (d, db))
     | Inr entries \<Rightarrow> (case evict_loop env denv (cm_ca m) entries (d, db) of (evicted, w) \<Rightarrow> (Inr evicted, w)))"

definition evictIfNeeded :: "io_env \<Rightarrow> db_env \<Rightarrow> CacheManager \<Rightarrow> world \<Rightarrow> go_error option \<times> world" where
  "evictIfNeeded env denv m = (\<lambda>(d, db).
     let used = fst (Usage env (cm_ca m) d) in
     if used \<le> cm_maxBytes m then (None, (d, db))
     else
       let excess = wrap64 (used - cm_maxBytes m);
           cnt = wrap64 (excess div MaxBlockFileSize + 1)
       in case ForceEvict env denv m cnt (d, db) of
            (Inl e, w) \<Rightarrow> (Some e, w)
          | (Inr evicted, w) \<Rightarrow> (None, w))"

record CacheStats =
  UsedBytes :: int
  TotalBytes :: int
  FileCount :: int

definition Stats :: "io_env \<Rightarrow> db_env \<Rightarrow> CacheManager \<Rightarrow> world \<Rightarrow> CacheStats" where
  "Stats env denv m = (\<lambda>(d, db).
     let (used, total) = Usage env (cm_ca m) d;
         entries = (case ListByState denv db FileStateCached of Inl e \<Rightarrow> [] | Inr es \<Rightarrow> es)
     in \<lparr>UsedBytes = used, TotalBytes = total, FileCount = int (length entries)\<rparr>)"

section \<open>The manifest poller\<close>

record ManifestPoller =
  current :: "Manifest option"
  etag :: string

definition remote_entry :: "time \<Rightarrow> ManifestFile \<Rightarrow> FileEntry" where
  "remote_entry t f =
     \<lparr>fe_Filename = mf_Name f, fe_State = FileStateRemote, fe_Source = FileSourceServer, fe_Size = mf_Size f,
      fe_SHA256 = mf_SHA256 f, fe_CreatedAt = t, fe_LastAccess = t, fe_HeightFirst = 0, fe_HeightLast = 0\<rparr>"

text \<open>
  \<open>fetch\<close> is \<open>FetchManifest\<close> of the remote client: an error, no new manifest, or one with its
  tag. Errors of the store are logged and the loops go on.
\<close>

definition poll ::
  "db_env \<Rightarrow> (string \<Rightarrow> (Manifest option \<times> string) result) \<Rightarrow> time \<Rightarrow> ManifestPoller \<times> Row list
     \<Rightarrow> go_error option \<times> ManifestPoller \<times> Row list" where
  "poll denv fetch now = (\<lambda>(p, db).
     case fetch (etag p) of
       Inl e \<Rightarrow> (Some e, p, db)
     | Inr (None, _) \<Rightarrow> (None, p, db)
     | Inr (Some newManifest, newEtag) \<Rightarrow>
         let diff = Diff (current p) (Some newManifest);
             db1 = foldl (\<lambda>db f. snd (UpsertFile denv (remote_entry now f) db)) db (Added diff);
             db2 = foldl (\<lambda>db f. snd (DeleteFile denv (mf_Name f) db)) db1 (Removed diff)
         in (None, \<lparr>current = Some newManifest, etag = newEtag\<rparr>, db2))"

section \<open>Compaction\<close>

record CompactionManager =
  co_localDir :: string
  co_stateFile :: string

definition stateInProgress :: string where "stateInProgress = ''in_progress''"
definition stateCompleted :: string where "stateCompleted = ''completed''"

definition coveredFiles :: "db_env \<Rightarrow> Manifest \<Rightarrow> Row list \<Rightarrow> FileEntry list result" where
  "coveredFiles denv mf db =
     (let snapshotHeight = sn_Height (BlocksIndex (mn_Snapshots mf)) in
      if snapshotHeight = 0 then Inr []
      else case ListByState denv db FileStateLocalFinalized of
        Inl e \<Rightarrow> Inl e
      | Inr entries \<Rightarrow> Inr (filter (\<lambda>e. fe_HeightLast e > 0 \<and> fe_HeightLast e \<le> snapshotHeight) entries))"

definition replace_one :: "io_env \<Rightarrow> db_env \<Rightarrow> string \<Rightarrow> FileEntry \<Rightarrow> world \<Rightarrow> world" where
  "replace_one env denv localDir e = (\<lambda>(d, db).
     let upd = (\<lambda>d1. (d1, snd (UpsertFile denv (e\<lparr>fe_State := FileStateRemote, fe_Source := FileSourceServer\<rparr>) db)))
     in case os_Remove env (path_Join localDir (fe_Filename e)) d of
          (Some er, d1) \<Rightarrow> if er \<noteq> ErrNotExist then (d1, db) else upd d1
        | (None, d1) \<Rightarrow> upd d1)"

definition replaceFiles :: "io_env \<Rightarrow> db_env \<Rightarrow> string \<Rightarrow> FileEntry list \<Rightarrow> world \<Rightarrow> world" where
  "replaceFiles env denv localDir covered w = foldl (\<lambda>w e. replace_one env denv localDir e w) w covered"

definition bytes_of :: "string \<Rightarrow> bytes" where
  "bytes_of s = map of_char s"

definition writeStateFile :: "io_env \<Rightarrow> CompactionManager \<Rightarrow> string \<Rightarrow> disk_op" where
  "writeStateFile env m state d =
     (let tmp = co_stateFile m @ ''.tmp'' in
      case os_WriteFile env tmp (bytes_of state) d of
        (Some e, d') \<Rightarrow> (Some e, d')
      | (None, d') \<Rightarrow> os_Rename env tmp (co_stateFile m) d')"

definition Compact :: "io_env \<Rightarrow> db_env \<Rightarrow> CompactionManager \<Rightarrow> Manifest option \<Rightarrow> world \<Rightarrow> go_error option \<times> world" where
  "Compact env denv m manifest = (\<lambda>(d, db).
     case manifest of
       None \<Rightarrow> (Some (ErrNew ''no manifest available''), (d, db))
     | Some mf \<Rightarrow>
         if sn_URL (BlocksIndex (mn_Snapshots mf)) = []
         then (Some (ErrNew ''no snapshot available in manifest''), (d, db))
         else
           (case coveredFiles denv mf db of
              Inl e \<Rightarrow> (Some (Errorf ''listing covered files'' e), (d, db))
            | Inr covered \<Rightarrow>
                if covered = [] then (None, (d, db))
                else
                  (case writeStateFile env m stateInProgress d of
                     (Some e, d1) \<Rightarrow> (Some (Errorf ''writing state file'' e), (d1, db))
                   | (None, d1) \<Rightarrow>
                       (case replaceFiles env denv (co_localDir m) covered (d1, db) of
                          (d2, db2) \<Rightarrow> (None, (snd (writeStateFile env m stateCompleted d2), db2))))))"

definition is_space :: "byte \<Rightarrow> bool" where
  "is_space b \<longleftrightarrow> b \<in> {9, 10, 11, 12, 13, 32}"

definition TrimSpace :: "bytes \<Rightarrow> bytes" where
  "TrimSpace s = rev (dropWhile is_space (rev (dropWhile is_space s)))"

text \<open>
  \<open>restoreBackup\<close> only looks whether the backup directory exists, so every state of the file
  but its absence ends in its removal.
\<close>

definition RecoverFromCrash :: "io_env \<Rightarrow> CompactionManager \<Rightarrow> disk_op" where
  "RecoverFromCrash env m d =
     (case os_Open env d (co_stateFile m) of
        Inl e \<Rightarrow> if errors_Is e ErrNotExist then (None, d) else (Some e, d)
      | Inr data \<Rightarrow>
          let state = TrimSpace data in
          if state = bytes_of stateCompleted then os_Remove env (co_stateFile m) d
          else if state = bytes_of stateInProgress then os_Remove env (co_stateFile m) d
          else os_Remove env (co_stateFile m) d)"

section \<open>Eviction\<close>

text \<open>Without failures a removal succeeds.\<close>

lemma Remove_file_ok:
  assumes "db_inv db"
  shows "\<exists>d' db'. Remove_file io_ok db_ok c f (d, db) = (None, (d', db')) \<and> db_inv db'"
proof -
  have "list_all row_check (map (\<lambda>r. if c_filename r = f then r\<lparr>c_state := FileStateRemote\<rparr> else r) db)"
    using assms by (auto simp: db_inv_def list_all_iff row_check_def)
  then have "UpdateState db_ok f FileStateRemote db =
      (None, map (\<lambda>r. if c_filename r = f then r\<lparr>c_state := FileStateRemote\<rparr> else r) db)"
    by (simp add: UpdateState_def execImmediate_ok)
  then show ?thesis
    using store_ops_inv(2) [OF assms] by (auto simp: Remove_file_def os_Remove_def)
qed

lemma evict_loop_ok:
  assumes "db_inv db"
  shows "\<exists>d' db'. evict_loop io_ok db_ok c es (d, db) = (map fe_Filename es, (d', db')) \<and> db_inv db'"
  using assms
proof (induction es arbitrary: d db)
  case (Cons e es)
  obtain d1 db1 where r: "Remove_file io_ok db_ok c (fe_Filename e) (d, db) = (None, (d1, db1))" "db_inv db1"
    using Remove_file_ok [OF Cons.prems] by blast
  with Cons.IH [OF r(2), of d1] show ?case by auto
qed simp

lemma cached_names_lookup:
  "db_inv db \<Longrightarrow> f \<in> cached_names db \<longleftrightarrow> (\<exists>e. lookup db f = Some e \<and> fe_State e = FileStateCached)"
  by (auto simp: cached_names_def db_inv_def lookup_Some_iff)

lemma ForceEvict_ok:
  assumes "db_inv db" "0 < cnt"
  shows "\<exists>evicted d' db'. ForceEvict io_ok db_ok m cnt (d, db) = (Inr evicted, (d', db')) \<and> db_inv db'
    \<and> cached_names db' = cached_names db - set evicted \<and> set evicted \<subseteq> cached_names db
    \<and> (cached_names db \<noteq> {} \<longrightarrow> evicted \<noteq> [])"
proof -
  have eng: "engine_ok db_ok" by (simp add: engine_ok_def db_ok_def)
  obtain es where es: "ListCachedByLRU db_ok db cnt = Inr es"
    by (simp add: ListCachedByLRU_def db_ok_def Let_def)
  let ?rows = "sort_key c_last_access (filter (\<lambda>r. c_state r = FileStateCached) db)"
  have es_eq: "es = map scanEntry (take (nat cnt) ?rows)"
    using es assms(2) by (simp add: ListCachedByLRU_def db_ok_def Let_def)
  obtain d' db' where lp: "evict_loop io_ok db_ok (cm_ca m) es (d, db) = (map fe_Filename es, (d', db'))" "db_inv db'"
    using evict_loop_ok [OF assms(1)] by blast
  note eff = evict_loop_effect [OF lp(1) honest_io_ok]
  have sub: "fe_Filename ` set es \<subseteq> cached_names db"
    unfolding es_eq cached_names_def by (auto dest: in_set_takeD)
  have "f \<in> cached_names db' \<longleftrightarrow> f \<in> cached_names db - fe_Filename ` set es" for f
  proof (cases "f \<in> fe_Filename ` set es")
    case True
    then have "gone (cm_ca m) f (d', db')" using eff by auto
    then show ?thesis using True by (auto simp: cached_names_lookup [OF lp(2)] gone_def)
  next
    case False
    then have "lookup db' f = lookup db f" using eff by (simp add: same_file_def)
    then show ?thesis using False by (simp add: cached_names_lookup [OF lp(2)] cached_names_lookup [OF assms(1)])
  qed
  moreover have "cached_names db \<noteq> {} \<longrightarrow> es \<noteq> []"
  proof
    assume "cached_names db \<noteq> {}"
    then have "set ?rows \<noteq> {}" by (auto simp: cached_names_def)
    then have "?rows \<noteq> []" by (metis empty_set)
    then show "es \<noteq> []" using assms(2) unfolding es_eq by simp
  qed
  ultimately show ?thesis
    using lp sub by (auto simp: ForceEvict_def es)
qed

section \<open>Repeated eviction\<close>

lemma evict_loop_shrinks:
  assumes "evict_loop env denv c es (d, db) = (ev, (d', db'))" "honest_io env"
  shows "d' \<subseteq>\<^sub>m d"
  using assms(1)
proof (induction es arbitrary: d db ev)
  case (Cons e es)
  obtain err d1 db1 where rm: "Remove_file env denv c (fe_Filename e) (d, db) = (err, (d1, db1))" by (metis prod.exhaust)
  obtain ev1 where lp: "evict_loop env denv c es (d1, db1) = (ev1, (d', db'))"
    using Cons.prems rm by (auto split: option.splits prod.splits)
  have "d1 \<subseteq>\<^sub>m d" using Remove_file_cases [OF rm assms(2)] by (auto simp: map_le_def split: if_splits)
  with Cons.IH [OF lp] show ?case by (rule map_le_trans)
qed simp

lemma Usage_sum:
  "finite (dom d) \<Longrightarrow> fst (Usage io_ok c d) = (\<Sum>n \<in> dir_names d (dc_dir c). file_size d (path_Join (dc_dir c) n))"
  using finite_dir_names [of d "dc_dir c"]
  by (simp add: Usage_def os_ReadDir_def sum.distinct_set_conv_list [symmetric])

lemma Usage_mono:
  assumes "d' \<subseteq>\<^sub>m d" "finite (dom d)"
  shows "fst (Usage io_ok c d') \<le> fst (Usage io_ok c d)"
proof -
  have fin: "finite (dom d')" by (rule finite_subset [OF map_le_implies_dom_le [OF assms(1)] assms(2)])
  have sub: "dir_names d' (dc_dir c) \<subseteq> dir_names d (dc_dir c)"
    using map_le_implies_dom_le [OF assms(1)] by (auto simp: dir_names_def)
  have "file_size d' p \<le> file_size d p" for p
    using assms(1) by (cases "d' p") (auto simp: file_size_def map_le_def dom_def split: option.splits)
  then have "(\<Sum>n \<in> dir_names d' (dc_dir c). file_size d' (path_Join (dc_dir c) n))
      \<le> (\<Sum>n \<in> dir_names d' (dc_dir c). file_size d (path_Join (dc_dir c) n))"
    by (intro sum_mono) simp
  also have "\<dots> \<le> (\<Sum>n \<in> dir_names d (dc_dir c). file_size d (path_Join (dc_dir c) n))"
    using sub finite_dir_names [OF assms(2)] by (intro sum_mono2) (auto simp: file_size_def split: option.splits)
  finally show ?thesis using Usage_sum [OF fin] Usage_sum [OF assms(2)] by simp
qed

text \<open>One tick: nothing to do, or the set of cached files shrinks unless it is empty.\<close>

lemma evictIfNeeded_progress:
  assumes "db_inv db" "finite (dom d)" "fst (Usage io_ok (cm_ca m) d) < 2 ^ 63" "0 \<le> cm_maxBytes m"
    and "cm_maxBytes m < fst (Usage io_ok (cm_ca m) d)"
  shows "\<exists>d' db'. evictIfNeeded io_ok db_ok m (d, db) = (None, (d', db')) \<and> db_inv db' \<and> d' \<subseteq>\<^sub>m d
    \<and> cached_names db' \<subseteq> cached_names db \<and> (cached_names db \<noteq> {} \<longrightarrow> cached_names db' \<noteq> cached_names db)"
proof -
  let ?u = "fst (Usage io_ok (cm_ca m) d)"
  let ?n = "(?u - cm_maxBytes m) div MaxBlockFileSize + 1"
  have pos: "0 < MaxBlockFileSize" by (simp add: MaxBlockFileSize_def)
  have q: "0 \<le> (?u - cm_maxBytes m) div MaxBlockFileSize" "(?u - cm_maxBytes m) div MaxBlockFileSize < 2 ^ 62"
    using assms(3-5) pos by (auto simp: pos_imp_zdiv_nonneg_iff MaxBlockFileSize_def)
  have w: "wrap64 (?u - cm_maxBytes m) = ?u - cm_maxBytes m" "wrap64 ?n = ?n"
    using assms(3-5) q by (simp_all add: in_int64_def)
  obtain ev d' db' where f: "ForceEvict io_ok db_ok m ?n (d, db) = (Inr ev, (d', db'))" "db_inv db'"
      "cached_names db' = cached_names db - set ev" "set ev \<subseteq> cached_names db" "cached_names db \<noteq> {} \<longrightarrow> ev \<noteq> []"
    using ForceEvict_ok [OF assms(1), of ?n m d] q(1) by force
  have "d' \<subseteq>\<^sub>m d"
    using f(1) evict_loop_shrinks [OF _ honest_io_ok] by (auto simp: ForceEvict_def split: sum.splits prod.splits)
  moreover have "cached_names db \<noteq> {} \<longrightarrow> cached_names db' \<noteq> cached_names db"
    using f(3,4,5) by (cases ev) auto
  ultimately show ?thesis using f assms(5) by (simp add: evictIfNeeded_def Let_def w)
qed

definition ticks :: "nat \<Rightarrow> CacheManager \<Rightarrow> world \<Rightarrow> world" where
  "ticks k m = ((\<lambda>w. snd (evictIfNeeded io_ok db_ok m w)) ^^ k)"

lemma finite_cached_names [simp]: "finite (cached_names db)"
  by (simp add: cached_names_def)

section \<open>Properties\<close>



section \<open>A poll\<close>

lemma register_all:
  fixes now :: time
  assumes "db_inv db" "distinct (map mf_Name fs)"
  defines "db' \<equiv> foldl (\<lambda>db f. snd (UpsertFile db_ok (remote_entry now f) db)) db fs"
  shows "db_inv db' \<and> lookup db' = lookup db ++ map_of (map (\<lambda>f. (mf_Name f, stored (remote_entry now f))) fs)"
  using assms(1,2) unfolding db'_def
proof (induction fs arbitrary: db)
  case (Cons f fs)
  let ?e = "remote_entry now f"
  have u: "UpsertFile db_ok ?e db = (None, upsert_rows (row_of ?e) db)"
    using UpsertFile_ok [OF Cons.prems(1)] by (simp add: remote_entry_def)
  have l: "lookup (upsert_rows (row_of ?e) db) = (lookup db)(mf_Name f \<mapsto> stored ?e)"
    by (simp add: lookup_upsert_rows) (simp add: remote_entry_def)
  let ?m = "map_of (map (\<lambda>f. (mf_Name f, stored (remote_entry now f))) fs)"
  have "?m (mf_Name f) = None" using Cons.prems(2) by (simp add: map_of_eq_None_iff image_image)
  then show ?case
    using Cons.IH [OF store_ops_inv(1) [OF Cons.prems(1) u]] Cons.prems(2) u l
    by (auto simp: fun_eq_iff map_add_def split: option.splits)
qed simp

lemma unregister_all:
  fixes fs :: "ManifestFile list"
  assumes "db_inv db"
  defines "db' \<equiv> foldl (\<lambda>db f. snd (DeleteFile db_ok (mf_Name f) db)) db fs"
  shows "db_inv db' \<and> lookup db' = (\<lambda>g. if g \<in> mf_Name ` set fs then None else lookup db g)"
  using assms(1) unfolding db'_def
proof (induction fs arbitrary: db)
  case (Cons f fs)
  have u: "DeleteFile db_ok (mf_Name f) db = (None, filter (\<lambda>r. c_filename r \<noteq> mf_Name f) db)"
    by (rule DeleteFile_ok [OF Cons.prems])
  show ?case using Cons.IH [OF store_ops_inv(4) [OF Cons.prems u]] u by (auto simp: lookup_filter fun_eq_iff)
qed simp

text \<open>
  C37. A poll that brings a new manifest registers every file that the old one lacks as REMOTE with
  its size and hash, drops every file that the new one lacks, leaves the entry of every other
  file alone (also when its hash or size changed), and remembers the manifest and its tag.
\<close>

theorem poll_effect:
  assumes "fetch (etag p) = Inr (Some new, tag)" "current p = Some old" "db_inv db" "distinct (map mf_Name (mn_Files new))"
    and "poll db_ok fetch now (p, db) = (err, p', db')"
  shows "err = None \<and> p' = \<lparr>current = Some new, etag = tag\<rparr> \<and> db_inv db'
    \<and> (\<forall>f \<in> set (mn_Files new). mf_Name f \<notin> mf_Name ` set (mn_Files old)
          \<longrightarrow> lookup db' (mf_Name f) = Some (stored (remote_entry now f)))
    \<and> (\<forall>g \<in> mf_Name ` set (mn_Files old) - mf_Name ` set (mn_Files new). lookup db' g = None)
    \<and> (\<forall>g. (g \<in> mf_Name ` set (mn_Files old) \<longleftrightarrow> g \<in> mf_Name ` set (mn_Files new)) \<longrightarrow> lookup db' g = lookup db g)"
proof -
  let ?a = "Added (Diff (Some old) (Some new))" and ?r = "Removed (Diff (Some old) (Some new))"
  let ?db1 = "foldl (\<lambda>db f. snd (UpsertFile db_ok (remote_entry now f) db)) db ?a"
  let ?m = "map_of (map (\<lambda>f. (mf_Name f, stored (remote_entry now f))) ?a)"
  have "distinct (map mf_Name ?a)" using assms(4) by (simp add: Diff_def Let_def distinct_map_filter)
  then have 1: "db_inv ?db1" "lookup ?db1 = lookup db ++ ?m" and keys: "distinct (map fst (map (\<lambda>f. (mf_Name f, stored (remote_entry now f))) ?a))"
    using register_all [OF assms(3), of ?a now] by (simp_all add: comp_def)
  have p: "err = None" "p' = \<lparr>current = Some new, etag = tag\<rparr>" "db' = foldl (\<lambda>db f. snd (DeleteFile db_ok (mf_Name f) db)) ?db1 ?r"
    using assms(1,2,5) by (simp_all add: poll_def Let_def)
  have 2: "db_inv db'" "lookup db' = (\<lambda>g. if g \<in> mf_Name ` set ?r then None else lookup ?db1 g)"
    using unregister_all [OF 1(1), of ?r] by (simp_all add: p(3))
  have r: "g \<in> mf_Name ` set ?r \<longleftrightarrow> g \<in> mf_Name ` set (mn_Files old) - mf_Name ` set (mn_Files new)" for g
    using Diff_names(2) [of _ old new] by auto
  have ma: "?m (mf_Name f) = Some (stored (remote_entry now f))"
    if "f \<in> set (mn_Files new)" "mf_Name f \<notin> mf_Name ` set (mn_Files old)" for f
    using map_of_is_SomeI [OF keys] that Diff_names(1) [of f old new] by force
  have mn: "?m g = None" if "g \<notin> mf_Name ` set (mn_Files new) \<or> g \<in> mf_Name ` set (mn_Files old)" for g
    using that Diff_names(1) [of _ old new] by (force simp: map_of_eq_None_iff)
  have "lookup db' (mf_Name f) = Some (stored (remote_entry now f))"
    if "f \<in> set (mn_Files new)" "mf_Name f \<notin> mf_Name ` set (mn_Files old)" for f
    using ma [OF that] that r [of "mf_Name f"] by (simp add: 2(2) 1(2))
  moreover have "lookup db' g = lookup db g"
    if "g \<in> mf_Name ` set (mn_Files old) \<longleftrightarrow> g \<in> mf_Name ` set (mn_Files new)" for g
    using mn [of g] that r [of g] by (auto simp: 2(2) 1(2) map_add_def)
  ultimately show ?thesis using p 2 r by auto
qed

theorem poll_effect_witness:
  "lookup (snd (snd (poll db_ok (\<lambda>_. Inr (Some (empty_manifest\<lparr>mn_Files := [example_file ''b'' 3]\<rparr>), ''t'')) 5
     (\<lparr>current = Some (empty_manifest\<lparr>mn_Files := [example_file ''a'' 1]\<rparr>), etag = []\<rparr>,
      [row_of (example_entry ''a'' FileStateRemote)])))) ''b'' = Some (stored (remote_entry 5 (example_file ''b'' 3)))"
proof -
  let ?new = "empty_manifest\<lparr>mn_Files := [example_file ''b'' 3]\<rparr>" and ?old = "empty_manifest\<lparr>mn_Files := [example_file ''a'' 1]\<rparr>"
  let ?p = "\<lparr>current = Some ?old, etag = []\<rparr>" and ?db = "[row_of (example_entry ''a'' FileStateRemote)]"
  obtain err p' db' where e: "poll db_ok (\<lambda>_. Inr (Some ?new, ''t'')) 5 (?p, ?db) = (err, p', db')" by (metis prod.exhaust)
  have "db_inv ?db" by (simp add: db_inv_def row_check_def example_entry_def)
  with poll_effect [OF _ _ _ _ e, of ?new "''t''" ?old]
  have "lookup db' ''b'' = Some (stored (remote_entry 5 (example_file ''b'' 3)))" by (simp add: example_file_def)
  then show ?thesis using e by simp
qed

section \<open>Compaction is confined\<close>

definition covered_by :: "Manifest \<Rightarrow> FileEntry \<Rightarrow> bool" where
  "covered_by mf e \<longleftrightarrow> fe_State e = FileStateLocalFinalized
     \<and> 0 < fe_HeightLast e \<and> fe_HeightLast e \<le> sn_Height (BlocksIndex (mn_Snapshots mf))"

lemma coveredFiles_iff:
  assumes "coveredFiles denv mf db = Inr es" "engine_ok denv" "db_inv db" "e \<in> set es"
  shows "lookup db (fe_Filename e) = Some e \<and> covered_by mf e"
  using assms ListByState_iff [OF assms(2,3)]
  by (auto simp: coveredFiles_def covered_by_def Let_def split: if_splits sum.splits)

lemma replace_one_effect:
  assumes "replace_one env denv ldir e (d, db) = (d', db')"
  shows "(\<forall>p. p \<noteq> path_Join ldir (fe_Filename e) \<longrightarrow> d' p = d p)
    \<and> (\<forall>g. g \<noteq> fe_Filename e \<longrightarrow> lookup db' g = lookup db g) \<and> (db_inv db \<longrightarrow> db_inv db')"
proof -
  obtain err db1 where u: "UpsertFile denv (e\<lparr>fe_State := FileStateRemote, fe_Source := FileSourceServer\<rparr>) db = (err, db1)"
    by fastforce
  then have c: "\<forall>g. g \<noteq> fe_Filename e \<longrightarrow> lookup db1 g = lookup db g" "db_inv db \<longrightarrow> db_inv db1"
    using sqlite.state_after(1) [OF u] store_ops_inv(1) [OF _ u] by auto
  then show ?thesis
    using assms u os_Remove_other [of _ "path_Join ldir (fe_Filename e)" env d]
    by (auto simp: replace_one_def Let_def split: prod.splits option.splits if_splits)
qed

lemma replaceFiles_effect:
  assumes "replaceFiles env denv ldir es (d, db) = (d', db')"
  shows "(\<forall>p. p \<notin> (\<lambda>e. path_Join ldir (fe_Filename e)) ` set es \<longrightarrow> d' p = d p)
    \<and> (\<forall>g. g \<notin> fe_Filename ` set es \<longrightarrow> lookup db' g = lookup db g) \<and> (db_inv db \<longrightarrow> db_inv db')"
  using assms
proof (induction es arbitrary: d db)
  case (Cons e es)
  obtain d1 db1 where r: "replace_one env denv ldir e (d, db) = (d1, db1)" by fastforce
  have "replaceFiles env denv ldir es (d1, db1) = (d', db')" using Cons.prems r by (simp add: replaceFiles_def)
  from Cons.IH [OF this] replace_one_effect [OF r] show ?case by auto
qed (simp add: replaceFiles_def)

lemma writeStateFile_other:
  "writeStateFile env m s d = (err, d') \<Longrightarrow> p \<noteq> co_stateFile m \<Longrightarrow> p \<noteq> co_stateFile m @ ''.tmp'' \<Longrightarrow> d' p = d p"
  using os_WriteFile_other [of p "co_stateFile m @ ''.tmp''" env "bytes_of s" d]
  by (auto simp: writeStateFile_def os_Rename_def Let_def split: option.splits prod.splits if_splits)

text \<open>
  C36. Compaction touches only what the snapshot covers, whatever fails in it: the entry and the
  local file of every file that is not LOCAL_FINALIZED with a known height up to the snapshot's
  are unchanged, in particular those of ACTIVE files, and the table keeps its constraints.
\<close>

theorem compaction_confined:
  assumes "Compact env denv m (Some mf) (d, db) = (err, (d', db'))" "engine_ok denv" "db_inv db"
    and "\<forall>e. lookup db g = Some e \<longrightarrow> \<not> covered_by mf e"
    and "path_Join (co_localDir m) g \<notin> {co_stateFile m, co_stateFile m @ ''.tmp''}"
  shows "lookup db' g = lookup db g \<and> d' (path_Join (co_localDir m) g) = d (path_Join (co_localDir m) g) \<and> db_inv db'"
proof -
  let ?p = "path_Join (co_localDir m) g"
  have w: "d2 ?p = d1 ?p" if "writeStateFile env m s d1 = (er, d2)" for s d1 er d2
    using writeStateFile_other [OF that] assms(5) by simp
  show ?thesis
  proof (cases "coveredFiles denv mf db")
    case (Inl e)
    then show ?thesis using assms(1,3) by (simp add: Compact_def split: if_splits)
  next
    case (Inr es)
    have g: "g \<notin> fe_Filename ` set es" using coveredFiles_iff [OF Inr assms(2,3)] assms(4) by auto
    obtain er d1 where 1: "writeStateFile env m stateInProgress d = (er, d1)" by fastforce
    obtain d2 db2 where 2: "replaceFiles env denv (co_localDir m) es (d1, db) = (d2, db2)" by fastforce
    obtain er' d3 where 3: "writeStateFile env m stateCompleted d2 = (er', d3)" by fastforce
    note r = replaceFiles_effect [OF 2]
    have "?p \<notin> (\<lambda>e. path_Join (co_localDir m) (fe_Filename e)) ` set es" using g by auto
    then have "d2 ?p = d1 ?p" using r by blast
    then show ?thesis
      using assms(1,3) Inr 1 2 3 w [OF 1] w [OF 3] r g
      by (auto simp: Compact_def split: if_splits option.splits)
  qed
qed

theorem compaction_confined_witness:
  "lookup (snd (snd (Compact io_ok db_ok \<lparr>co_localDir = ''l'', co_stateFile = ''s''\<rparr>
     (Some (empty_manifest\<lparr>mn_Snapshots := \<lparr>LatestHeight = 9, BlocksIndex = \<lparr>sn_Height = 9, sn_URL = ''u'', sn_SHA256 = [], sn_Size = 0\<rparr>, UTXO = no_snapshot\<rparr>\<rparr>))
     ([''l/a'' \<mapsto> [1]], [row_of (example_entry ''a'' FileStateActive)])))) ''a'' = Some (stored (example_entry ''a'' FileStateActive))"
proof -
  let ?m = "\<lparr>co_localDir = ''l'', co_stateFile = ''s''\<rparr>" and ?db = "[row_of (example_entry ''a'' FileStateActive)]"
  let ?mf = "empty_manifest\<lparr>mn_Snapshots := \<lparr>LatestHeight = 9, BlocksIndex = \<lparr>sn_Height = 9, sn_URL = ''u'', sn_SHA256 = [], sn_Size = 0\<rparr>, UTXO = no_snapshot\<rparr>\<rparr>"
  obtain err d' db' where e: "Compact io_ok db_ok ?m (Some ?mf) ([''l/a'' \<mapsto> [1]], ?db) = (err, (d', db'))" by (metis prod.exhaust)
  have l: "lookup ?db ''a'' = Some (stored (example_entry ''a'' FileStateActive))"
    by (simp add: scanEntry_row_of) (simp add: example_entry_def)
  have "engine_ok db_ok" "db_inv ?db" by (simp_all add: engine_ok_def db_ok_def db_inv_def row_check_def example_entry_def)
  with compaction_confined [OF e, of "''a''"] l
  have "lookup db' ''a'' = Some (stored (example_entry ''a'' FileStateActive))"
    by (simp add: covered_by_def example_entry_def path_Join_def)
  then show ?thesis using e by simp
qed

text \<open>
  Recovery after a crash restores nothing: whatever the state file says, the only change it
  can make is to remove the state file, so a file that an interrupted compaction has removed
  from the local directory stays missing.
\<close>

theorem recovery_restores_nothing:
  assumes "RecoverFromCrash env m d = (err, d')"
  shows "d' = d \<or> d' = d(co_stateFile m := None)"
  using assms by (auto simp: RecoverFromCrash_def os_Remove_def Let_def split: sum.splits if_splits option.splits)

theorem recovery_restores_nothing_witness:
  "snd (RecoverFromCrash io_ok \<lparr>co_localDir = ''l'', co_stateFile = ''s''\<rparr> [''s'' \<mapsto> bytes_of stateInProgress]) ''l/a'' = None"
proof -
  let ?m = "\<lparr>co_localDir = ''l'', co_stateFile = ''s''\<rparr>" and ?d = "[''s'' \<mapsto> bytes_of stateInProgress]"
  obtain err d' where e: "RecoverFromCrash io_ok ?m ?d = (err, d')" by fastforce
  show ?thesis using recovery_restores_nothing [OF e] by (auto simp: e)
qed

end
