(* ===== verification/Server_Gen.thy ===== *)
theory Server_Gen
  imports Manifest Blockmap Store
begin

text \<open>
  The archive server's generators: the scan for finalized files
  (\<open>internal/server/scanner.go\<close>), the blockmaps (\<open>blockmapgen.go\<close>) and the manifest with
  its snapshots (\<open>manifestgen.go\<close>). The workers that hash the files are run in the order of
  the files; when several fail, \<open>errgroup\<close> keeps the error that came first in time, here
  that of the first file. Progress messages are left out. Shown: the scan returns exactly
  the finalized files, in order; every hash of a generated manifest is that of the file on
  disk, provided the hashes reused from the previous manifest are; the latest snapshot is
  the one of greatest height; and a generated blockmap file reads back as the index of its
  blk file and has the hash returned for it.
\<close>

section \<open>Scanning\<close>

record ScannedFile =
  sf_Name :: string
  sf_Path :: string
  sf_Size :: int

definition extractFileNumber :: "string \<Rightarrow> string" where
  "extractFileNumber name =
     (if (HasPrefix name ''blk'' \<or> HasPrefix name ''rev'') \<and> HasSuffix name ''.dat''
      then slice 3 (length name - 7) name else [])"

text \<open>
  \<open>filepath.Glob(filepath.Join(dir, "blk*.dat"))\<close>, for a directory name without special
  characters: the matching names in order; a directory that cannot be read has none.
\<close>

definition Glob_dat :: "io_env \<Rightarrow> disk \<Rightarrow> string \<Rightarrow> string \<Rightarrow> string list" where
  "Glob_dat env d dir pre =
     (case os_ReadDir env d dir of
        Inl e \<Rightarrow> []
      | Inr names \<Rightarrow> map (path_Join dir) (filter (\<lambda>n. HasPrefix n pre \<and> HasSuffix n ''.dat'') names))"

definition scan_blk :: "io_env \<Rightarrow> disk \<Rightarrow> string \<Rightarrow> ScannedFile option result" where
  "scan_blk env d f =
     bindE (wrapE ''stat'' (os_Stat env d f)) (\<lambda>size.
       if size \<ge> FinalizedFileThreshold
       then Inr (Some \<lparr>sf_Name = path_Base f, sf_Path = f, sf_Size = size\<rparr>) else Inr None)"

definition scan_rev :: "io_env \<Rightarrow> disk \<Rightarrow> string set \<Rightarrow> string \<Rightarrow> ScannedFile option result" where
  "scan_rev env d finalizedBlkNums f =
     (let num = extractFileNumber (path_Base f) in
      if num \<noteq> [] \<and> num \<in> finalizedBlkNums
      then bindE (wrapE ''stat'' (os_Stat env d f))
             (\<lambda>size. Inr (Some \<lparr>sf_Name = path_Base f, sf_Path = f, sf_Size = size\<rparr>))
      else Inr None)"

definition ScanFinalizedFiles :: "io_env \<Rightarrow> disk \<Rightarrow> string \<Rightarrow> ScannedFile list result" where
  "ScanFinalizedFiles env d blocksDir =
     bindE (wrapE ''scan'' (sys env (SysStat blocksDir) (Inr ()))) (\<lambda>_.
     bindE (filter_mapE (scan_blk env d) (Glob_dat env d blocksDir ''blk'')) (\<lambda>blks.
       let finalizedBlkNums = {n. n \<noteq> [] \<and> n \<in> set (map (\<lambda>s. extractFileNumber (sf_Name s)) blks)} in
       bindE (filter_mapE (scan_rev env d finalizedBlkNums) (Glob_dat env d blocksDir ''rev'')) (\<lambda>revs.
         Inr (sort_key sf_Path (blks @ revs)))))"

definition sha256File :: "io_env \<Rightarrow> disk \<Rightarrow> string \<Rightarrow> string result" where
  "sha256File env d path = bindE (os_ReadFile env d path) (\<lambda>c. Inr (EncodeToString (Sum256 c)))"

section \<open>Blockmaps\<close>

text \<open>One finalized file: its blockmap is written and hashed.\<close>

definition generate_blockmap ::
  "io_env \<Rightarrow> string \<Rightarrow> 32 word \<Rightarrow> string \<Rightarrow> disk \<Rightarrow> (string \<times> string) result \<times> disk" where
  "generate_blockmap env outputDir networkMagic path d =
     (let name = path_Base path in
      case wrapE (''scan '' @ name) (ScanBlkFile env d path networkMagic) of
        Inl e \<Rightarrow> (Inl e, d)
      | Inr bm \<Rightarrow>
          let outputPath = path_Join outputDir (name @ ''.blockmap'') in
          case WriteFile env outputPath (Some bm) d of
            (Some e, d') \<Rightarrow> (Inl (Errorf (''write blockmap '' @ name) e), d')
          | (None, d') \<Rightarrow>
              (case wrapE ''sha256'' (sha256File env d' outputPath) of
                 Inl e \<Rightarrow> (Inl e, d')
               | Inr hashStr \<Rightarrow> (Inr (name, hashStr), d')))"

fun generate_blockmaps ::
  "io_env \<Rightarrow> string \<Rightarrow> 32 word \<Rightarrow> string list \<Rightarrow> (string \<rightharpoonup> string) \<Rightarrow> disk
     \<Rightarrow> (string \<rightharpoonup> string) result \<times> disk" where
  "generate_blockmaps env outputDir magic [] res d = (Inr res, d)"
| "generate_blockmaps env outputDir magic (path # paths) res d =
     (case generate_blockmap env outputDir magic path d of
        (Inl e, d') \<Rightarrow> (Inl e, d')
      | (Inr (name, hashStr), d') \<Rightarrow> generate_blockmaps env outputDir magic paths (res(name \<mapsto> hashStr)) d')"

definition GenerateBlockmaps ::
  "io_env \<Rightarrow> string \<Rightarrow> string \<Rightarrow> 32 word \<Rightarrow> disk \<Rightarrow> (string \<rightharpoonup> string) result \<times> disk" where
  "GenerateBlockmaps env blocksDir outputDir networkMagic d =
     (case filter_mapE (\<lambda>f. bindE (wrapE ''stat'' (os_Stat env d f)) (\<lambda>size.
             Inr (if size \<ge> FinalizedFileThreshold then Some f else None)))
             (sort (Glob_dat env d blocksDir ''blk'')) of
        Inl e \<Rightarrow> (Inl e, d)
      | Inr finalized \<Rightarrow>
          (case fault env (SysMkdirAll outputDir) of
             Some e \<Rightarrow> (Inl (Errorf ''create output dir'' e), d)
           | None \<Rightarrow> generate_blockmaps env outputDir networkMagic finalized Map.empty d))"

section \<open>Snapshots\<close>

definition parseHeightFromFilename :: "string \<Rightarrow> int" where
  "parseHeightFromFilename name =
     (let base = (if HasSuffix name ''.tar.zst'' then take (length name - 8) name
                  else if HasSuffix name ''.dat'' then take (length name - 4) name else name)
      in case LastIndexByte base CHR ''-'' of
           None \<Rightarrow> -1
         | Some idx \<Rightarrow>
             if idx + 1 \<ge> length base then -1
             else (case ParseInt (drop (idx + 1) base) of None \<Rightarrow> -1 | Some height \<Rightarrow> height))"

fun latest_loop :: "string \<Rightarrow> string list \<Rightarrow> string \<times> int \<Rightarrow> string \<times> int" where
  "latest_loop pre [] best = best"
| "latest_loop pre (name # names) (bestFile, bestHeight) =
     (let height = parseHeightFromFilename name in
      if \<not> HasPrefix name pre \<or> height < 0 then latest_loop pre names (bestFile, bestHeight)
      else if height > bestHeight \<or> bestFile = [] then latest_loop pre names (name, height)
      else latest_loop pre names (bestFile, bestHeight))"

definition findLatestSnapshot :: "io_env \<Rightarrow> disk \<Rightarrow> string \<Rightarrow> string \<Rightarrow> (string \<times> int) result" where
  "findLatestSnapshot env d dir pre =
     bindE (os_ReadDir env d dir) (\<lambda>names. Inr (latest_loop pre names ([], 0)))"

definition snapshot_entry :: "io_env \<Rightarrow> disk \<Rightarrow> string \<Rightarrow> string \<Rightarrow> string \<times> int \<Rightarrow> SnapshotEntry result" where
  "snapshot_entry env d dir what = (\<lambda>(f, height).
     if f = [] then Inr no_snapshot
     else bindE (wrapE (''sha256 '' @ what) (sha256File env d (path_Join dir f))) (\<lambda>hashStr.
          bindE (wrapE (''stat '' @ what) (os_Stat env d (path_Join dir f))) (\<lambda>size.
            Inr \<lparr>sn_Height = height, sn_URL = ''/v1/snapshot/'' @ f, sn_SHA256 = hashStr, sn_Size = size\<rparr>)))"

definition discoverSnapshots :: "io_env \<Rightarrow> disk \<Rightarrow> string \<Rightarrow> Snapshots result" where
  "discoverSnapshots env d snapshotDir =
     bindE (wrapE ''find blocks-index snapshot'' (findLatestSnapshot env d snapshotDir ''blocks-index-'')) (\<lambda>bi.
     bindE (wrapE ''find utxo snapshot'' (findLatestSnapshot env d snapshotDir ''utxo-'')) (\<lambda>utxo.
     bindE (snapshot_entry env d snapshotDir ''blocks-index'' bi) (\<lambda>bi_entry.
     bindE (snapshot_entry env d snapshotDir ''utxo'' utxo) (\<lambda>utxo_entry.
       Inr \<lparr>LatestHeight = (if snd bi > snd utxo then snd bi else snd utxo),
            BlocksIndex = bi_entry, UTXO = utxo_entry\<rparr>))))"

section \<open>The manifest\<close>

record manifestConfig =
  cfg_blockmapDir :: string
  cfg_snapshotDir :: string
  cfg_baseURL :: string
  cfg_prev :: "Manifest option"

text \<open>What a worker does for one file: a hash of the previous manifest is reused when name and size agree.\<close>

definition manifest_entry ::
  "io_env \<Rightarrow> disk \<Rightarrow> manifestConfig \<Rightarrow> (string \<rightharpoonup> ManifestFile) \<Rightarrow> ScannedFile \<Rightarrow> ManifestFile result" where
  "manifest_entry env d cfg prevCache sf =
     (let mf = \<lparr>mf_Name = sf_Name sf, mf_Size = sf_Size sf, mf_SHA256 = [], mf_HeightFirst = 0,
                mf_HeightLast = 0, mf_Finalized = True, mf_BlockmapSHA256 = []\<rparr>;
          miss =
            bindE (wrapE ''sha256'' (sha256File env d (sf_Path sf))) (\<lambda>hashStr.
              let mf' = mf\<lparr>mf_SHA256 := hashStr\<rparr>;
                  bmPath = path_Join (cfg_blockmapDir cfg) (sf_Name sf @ ''.blockmap'')
              in if cfg_blockmapDir cfg = [] then Inr mf'
                 else case os_Stat env d bmPath of
                   Inl e \<Rightarrow> Inr mf'
                 | Inr _ \<Rightarrow>
                     bindE (wrapE ''sha256 blockmap'' (sha256File env d bmPath))
                       (\<lambda>bmHashStr. Inr (mf'\<lparr>mf_BlockmapSHA256 := bmHashStr\<rparr>)))
      in case prevCache (sf_Name sf) of
           None \<Rightarrow> miss
         | Some prev \<Rightarrow>
             if mf_Size prev = sf_Size sf \<and> mf_SHA256 prev \<noteq> []
             then Inr (mf\<lparr>mf_SHA256 := mf_SHA256 prev,
                          mf_BlockmapSHA256 := (if cfg_blockmapDir cfg \<noteq> [] then mf_BlockmapSHA256 prev else [])\<rparr>)
             else miss)"

definition GenerateManifest :: "io_env \<Rightarrow> disk \<Rightarrow> manifestConfig \<Rightarrow> string \<Rightarrow> string \<Rightarrow> Manifest result" where
  "GenerateManifest env d cfg blocksDir chain_name =
     bindE (wrapE ''blocks directory'' (sys env (SysStat blocksDir) (Inr ()))) (\<lambda>_.
     guardE (d blocksDir = None) (ErrNew ''blocks directory is not a directory'')
     (bindE (wrapE ''scan finalized files'' (ScanFinalizedFiles env d blocksDir)) (\<lambda>scanned.
        let prevCache = (case cfg_prev cfg of None \<Rightarrow> Map.empty | Some p \<Rightarrow> file_map (mn_Files p)) in
        bindE (mapE (manifest_entry env d cfg prevCache) scanned) (\<lambda>manifestFiles.
          let m = empty_manifest\<lparr>mn_Version := 1, mn_Chain := chain_name, mn_ServerID := ''local'',
                    mn_BaseURL := cfg_baseURL cfg, mn_Files := manifestFiles\<rparr>
          in if cfg_snapshotDir cfg = [] then Inr m
             else case discoverSnapshots env d (cfg_snapshotDir cfg) of
               Inl e \<Rightarrow> Inr m
             | Inr snapshots \<Rightarrow> Inr (m\<lparr>mn_Snapshots := snapshots\<rparr>)))))"

section \<open>What the scan finds\<close>

lemma dat_name:
  assumes "length pre = 3" "last pre \<noteq> CHR ''.''" "last pre \<noteq> CHR ''d''" "last pre \<noteq> CHR ''a''"
  shows "HasPrefix n pre \<and> HasSuffix n ''.dat'' \<longleftrightarrow> (\<exists>num. n = pre @ num @ ''.dat'')"
proof
  assume h: "HasPrefix n pre \<and> HasSuffix n ''.dat''"
  then obtain t u where t: "n = pre @ t" and u: "n = u @ ''.dat''"
    unfolding HasPrefix_iff HasSuffix_iff by blast
  have "length n \<ge> 7"
  proof (rule ccontr)
    assume "\<not> 7 \<le> length n"
    then have l: "length u < 3" using u by simp
    have "n ! 2 = last pre" using t assms(1) by (cases pre; cases "tl pre"; cases "tl (tl pre)") auto
    moreover have "n ! 2 = ''.dat'' ! (2 - length u)" using l u by (simp add: nth_append)
    moreover have "length u = 0 \<or> length u = 1 \<or> length u = 2" using l by linarith
    ultimately show False using assms(2-4) by auto
  qed
  then have "length u \<ge> 3" using u by simp
  then have "u = pre @ drop 3 u" using t u assms(1) by (metis append_eq_append_conv_if append_take_drop_id)
  then show "\<exists>num. n = pre @ num @ ''.dat''" using u by (metis append.assoc)
next
  assume "\<exists>num. n = pre @ num @ ''.dat''"
  then show "HasPrefix n pre \<and> HasSuffix n ''.dat''"
    by (metis HasPrefix_append HasSuffix_append append.assoc)
qed

lemmas blk_name = dat_name [of "''blk''", simplified]
lemmas rev_name = dat_name [of "''rev''", simplified]

lemma extractFileNumber_name:
  "pre \<in> {''blk'', ''rev''} \<Longrightarrow> extractFileNumber (pre @ num @ ''.dat'') = num"
proof -
  assume p: "pre \<in> {''blk'', ''rev''}"
  have "HasSuffix ((pre @ num) @ ''.dat'') ''.dat''" by (rule HasSuffix_append)
  moreover have "HasPrefix (pre @ num @ ''.dat'') pre" by (rule HasPrefix_append)
  ultimately show ?thesis using p by (auto simp: extractFileNumber_def slice_def HasPrefix_def)
qed

text \<open>
  The specification: a blk file is finalized when it has reached the threshold, a rev file
  when the blk file of the same number has.
\<close>

definition finalized :: "disk \<Rightarrow> string \<Rightarrow> string \<Rightarrow> bool" where
  "finalized d dir n \<longleftrightarrow>
     (\<exists>num. (n = ''blk'' @ num @ ''.dat'' \<or> n = ''rev'' @ num @ ''.dat'' \<and> num \<noteq> []) \<and> CHR ''/'' \<notin> set num
        \<and> d (path_Join dir n) \<noteq> None
        \<and> FinalizedFileThreshold \<le> file_size d (path_Join dir (''blk'' @ num @ ''.dat'')))"

lemma threshold_pos: "0 < FinalizedFileThreshold"
  by (simp add: FinalizedFileThreshold_def MaxBlockFileSize_def)

definition scanned_of :: "disk \<Rightarrow> string \<Rightarrow> string \<Rightarrow> ScannedFile" where
  "scanned_of d dir n = \<lparr>sf_Name = n, sf_Path = path_Join dir n, sf_Size = file_size d (path_Join dir n)\<rparr>"

lemma Glob_dat_set:
  assumes "finite (dom d)" "fault env (SysReadDir dir) = None" "pre \<in> {''blk'', ''rev''}"
  shows "set (Glob_dat env d dir pre) =
      {path_Join dir (pre @ num @ ''.dat'') |num. CHR ''/'' \<notin> set num \<and> d (path_Join dir (pre @ num @ ''.dat'')) \<noteq> None}"
    and "distinct (Glob_dat env d dir pre)"
proof -
  let ?P = "\<lambda>n. HasPrefix n pre \<and> HasSuffix n ''.dat''"
  have g: "Glob_dat env d dir pre = map (path_Join dir) (filter ?P (sorted_list_of_set (dir_names d dir)))"
    using assms(2) by (simp add: Glob_dat_def os_ReadDir_def)
  have fin: "finite (dir_names d dir)" using assms(1) by (rule finite_dir_names)
  have P: "?P n \<longleftrightarrow> (\<exists>num. n = pre @ num @ ''.dat'')" for n
    using assms(3) blk_name [of n] rev_name [of n] by (elim insertE) (simp_all only: append.simps, simp)
  have pre: "CHR ''/'' \<notin> set (pre @ num @ ''.dat'') \<longleftrightarrow> CHR ''/'' \<notin> set num" for num
    using assms(3) by auto
  show "set (Glob_dat env d dir pre) =
      {path_Join dir (pre @ num @ ''.dat'') |num. CHR ''/'' \<notin> set num \<and> d (path_Join dir (pre @ num @ ''.dat'')) \<noteq> None}"
  proof -
    define F where "F num = pre @ num @ ''.dat''" for num
    have "{n. n \<in> dir_names d dir \<and> (\<exists>num. n = F num)} = {F num |num. CHR ''/'' \<notin> set num \<and> d (path_Join dir (F num)) \<noteq> None}"
      using pre unfolding dir_names_def F_def [symmetric] by blast
    then show ?thesis
      unfolding g set_map set_filter set_sorted_list_of_set [OF fin] P F_def [symmetric] by auto
  qed
  show "distinct (Glob_dat env d dir pre)"
    unfolding g by (simp add: distinct_map inj_on_def)
qed

lemma Base_dat:
  "CHR ''/'' \<notin> set num \<Longrightarrow> pre \<in> {''blk'', ''rev''} \<Longrightarrow> path_Base (path_Join dir (pre @ num @ ''.dat'')) = pre @ num @ ''.dat''"
  by (rule path_Base_Join) auto

lemma scan_blk_Some:
  "scan_blk env d p = Inr (Some s) \<Longrightarrow>
     FinalizedFileThreshold \<le> file_size d p \<and> s = \<lparr>sf_Name = path_Base p, sf_Path = p, sf_Size = file_size d p\<rparr>"
  by (auto simp: scan_blk_def result_iffs file_size_def split: if_splits)

lemma scan_blk_kept:
  assumes "scan_blk env d p = Inr v" "FinalizedFileThreshold \<le> file_size d p"
  shows "v = Some \<lparr>sf_Name = path_Base p, sf_Path = p, sf_Size = file_size d p\<rparr>"
  using assms by (auto simp: scan_blk_def result_iffs file_size_def split: if_splits)

lemma scan_rev_Some:
  "scan_rev env d nums p = Inr (Some s) \<Longrightarrow>
     extractFileNumber (path_Base p) \<noteq> [] \<and> extractFileNumber (path_Base p) \<in> nums
     \<and> s = \<lparr>sf_Name = path_Base p, sf_Path = p, sf_Size = file_size d p\<rparr>"
  by (auto simp: scan_rev_def Let_def result_iffs file_size_def split: if_splits)

lemma scan_rev_kept:
  assumes "scan_rev env d nums p = Inr v" "extractFileNumber (path_Base p) \<noteq> []" "extractFileNumber (path_Base p) \<in> nums"
  shows "v = Some \<lparr>sf_Name = path_Base p, sf_Path = p, sf_Size = file_size d p\<rparr>"
  using assms by (auto simp: scan_rev_def Let_def result_iffs file_size_def split: if_splits)

definition plain_num :: "string \<Rightarrow> bool" where
  "plain_num num \<longleftrightarrow> CHR ''/'' \<notin> set num"

definition dat :: "string \<Rightarrow> string \<Rightarrow> string" where
  "dat pre num = pre @ num @ ''.dat''"

lemma dat_inj [simp]: "dat pre a = dat pre b \<longleftrightarrow> a = b"
  by (simp add: dat_def)

lemma finalized_dat:
  "finalized d dir n \<longleftrightarrow>
     (\<exists>num. (n = dat ''blk'' num \<or> n = dat ''rev'' num \<and> num \<noteq> []) \<and> plain_num num
        \<and> d (path_Join dir n) \<noteq> None \<and> FinalizedFileThreshold \<le> file_size d (path_Join dir (dat ''blk'' num)))"
  by (simp add: finalized_def plain_num_def dat_def)

lemma scanned_of_dat:
  "plain_num num \<Longrightarrow> pre \<in> {''blk'', ''rev''} \<Longrightarrow>
     \<lparr>sf_Name = path_Base (path_Join dir (dat pre num)), sf_Path = path_Join dir (dat pre num),
      sf_Size = file_size d (path_Join dir (dat pre num))\<rparr> = scanned_of d dir (dat pre num)"
  using Base_dat by (simp add: scanned_of_def plain_num_def dat_def)

lemma number_dat:
  assumes "plain_num num" "pre \<in> {''blk'', ''rev''}"
  shows "extractFileNumber (path_Base (path_Join dir (dat pre num))) = num"
  unfolding dat_def Base_dat [OF assms(1) [unfolded plain_num_def] assms(2)] by (rule extractFileNumber_name [OF assms(2)])

lemma exists_sized: "FinalizedFileThreshold \<le> file_size d p \<Longrightarrow> d p \<noteq> None"
  using threshold_pos by (cases "d p") (simp_all add: file_size_def)

text \<open>The two passes, over the names.\<close>

lemma blk_pass:
  assumes "finite (dom d)" "fault env (SysReadDir dir) = None"
    and "filter_mapE (scan_blk env d) (Glob_dat env d dir ''blk'') = Inr blks"
  shows "set blks = {scanned_of d dir (dat ''blk'' num) |num. plain_num num
      \<and> FinalizedFileThreshold \<le> file_size d (path_Join dir (dat ''blk'' num))}"
proof -
  note g = Glob_dat_set(1) [OF assms(1,2), of "''blk''", folded dat_def plain_num_def, simplified]
  note ok = filter_mapE_Inr(1,2) [OF assms(3)]
  show ?thesis
  proof (intro equalityI subsetI)
    fix s
    assume "s \<in> set blks"
    then obtain num where "plain_num num" "scan_blk env d (path_Join dir (dat ''blk'' num)) = Inr (Some s)"
      unfolding ok(2) g by auto
    then show "s \<in> {scanned_of d dir (dat ''blk'' num) |num. plain_num num
      \<and> FinalizedFileThreshold \<le> file_size d (path_Join dir (dat ''blk'' num))}"
      using scan_blk_Some [of env d "path_Join dir (dat ''blk'' num)" s] scanned_of_dat [of num "''blk''"] by auto
  next
    fix s
    assume "s \<in> {scanned_of d dir (dat ''blk'' num) |num. plain_num num
      \<and> FinalizedFileThreshold \<le> file_size d (path_Join dir (dat ''blk'' num))}"
    then obtain num where n: "plain_num num" "FinalizedFileThreshold \<le> file_size d (path_Join dir (dat ''blk'' num))"
      "s = scanned_of d dir (dat ''blk'' num)" by auto
    then have m: "path_Join dir (dat ''blk'' num) \<in> set (Glob_dat env d dir ''blk'')"
      unfolding g using exists_sized by blast
    then obtain v where "scan_blk env d (path_Join dir (dat ''blk'' num)) = Inr v" using ok(1) by blast
    then have "scan_blk env d (path_Join dir (dat ''blk'' num)) = Inr (Some s)"
      using scan_blk_kept [of env d "path_Join dir (dat ''blk'' num)" v] n scanned_of_dat [of num "''blk''"] by simp
    then show "s \<in> set blks" unfolding ok(2) using m by blast
  qed
qed

lemma rev_pass:
  assumes "finite (dom d)" "fault env (SysReadDir dir) = None"
    and "filter_mapE (scan_rev env d nums) (Glob_dat env d dir ''rev'') = Inr revs"
  shows "set revs = {scanned_of d dir (dat ''rev'' num) |num. plain_num num \<and> num \<noteq> [] \<and> num \<in> nums
      \<and> d (path_Join dir (dat ''rev'' num)) \<noteq> None}"
proof -
  note g = Glob_dat_set(1) [OF assms(1,2), of "''rev''", folded dat_def plain_num_def, simplified]
  note ok = filter_mapE_Inr(1,2) [OF assms(3)]
  show ?thesis
  proof (intro equalityI subsetI)
    fix s
    assume "s \<in> set revs"
    then obtain num where "plain_num num" "d (path_Join dir (dat ''rev'' num)) \<noteq> None"
      "scan_rev env d nums (path_Join dir (dat ''rev'' num)) = Inr (Some s)"
      unfolding ok(2) g by auto
    then show "s \<in> {scanned_of d dir (dat ''rev'' num) |num. plain_num num \<and> num \<noteq> [] \<and> num \<in> nums
      \<and> d (path_Join dir (dat ''rev'' num)) \<noteq> None}"
      using scan_rev_Some [of env d nums "path_Join dir (dat ''rev'' num)" s]
        scanned_of_dat [of num "''rev''"] number_dat [of num "''rev''"] by auto
  next
    fix s
    assume "s \<in> {scanned_of d dir (dat ''rev'' num) |num. plain_num num \<and> num \<noteq> [] \<and> num \<in> nums
      \<and> d (path_Join dir (dat ''rev'' num)) \<noteq> None}"
    then obtain num where n: "plain_num num" "num \<noteq> []" "num \<in> nums" "d (path_Join dir (dat ''rev'' num)) \<noteq> None"
      "s = scanned_of d dir (dat ''rev'' num)" by auto
    then have m: "path_Join dir (dat ''rev'' num) \<in> set (Glob_dat env d dir ''rev'')"
      unfolding g by blast
    then obtain v where "scan_rev env d nums (path_Join dir (dat ''rev'' num)) = Inr v" using ok(1) by blast
    then have "scan_rev env d nums (path_Join dir (dat ''rev'' num)) = Inr (Some s)"
      using scan_rev_kept [of env d nums "path_Join dir (dat ''rev'' num)" v] n
        scanned_of_dat [of num "''rev''"] number_dat [of num "''rev''"] by simp
    then show "s \<in> set revs" unfolding ok(2) using m by blast
  qed
qed

lemma scan_set:
  assumes "finite (dom d)" "fault env (SysReadDir dir) = None" "ScanFinalizedFiles env d dir = Inr files"
  shows "set files = scanned_of d dir ` {n. finalized d dir n}" "sorted (map sf_Path files)"
proof -
  obtain blks revs where b: "filter_mapE (scan_blk env d) (Glob_dat env d dir ''blk'') = Inr blks"
    and r: "filter_mapE (scan_rev env d {n. n \<noteq> [] \<and> n \<in> set (map (\<lambda>s. extractFileNumber (sf_Name s)) blks)})
        (Glob_dat env d dir ''rev'') = Inr revs"
    and f: "files = sort_key sf_Path (blks @ revs)"
    using assms(3) by (auto simp: ScanFinalizedFiles_def result_iffs Let_def)
  note bs = blk_pass [OF assms(1,2) b]
  have num: "n \<in> set (map (\<lambda>s. extractFileNumber (sf_Name s)) blks) \<longleftrightarrow>
      plain_num n \<and> FinalizedFileThreshold \<le> file_size d (path_Join dir (dat ''blk'' n))" for n
  proof -
    have "extractFileNumber (dat ''blk'' m) = m" for m using extractFileNumber_name [of "''blk''" m] by (simp add: dat_def)
    then have "extractFileNumber (sf_Name (scanned_of d dir (dat ''blk'' m))) = m" for m by (simp add: scanned_of_def)
    moreover have "set blks = (\<lambda>m. scanned_of d dir (dat ''blk'' m)) ` {m. plain_num m
        \<and> FinalizedFileThreshold \<le> file_size d (path_Join dir (dat ''blk'' m))}"
      unfolding bs by blast
    ultimately show ?thesis by (simp add: image_image)
  qed
  have "set files = set blks \<union> set revs" unfolding f by simp
  also have "\<dots> = scanned_of d dir ` {n. finalized d dir n}"
  proof -
    have rs: "set revs = {scanned_of d dir (dat ''rev'' m) |m. plain_num m \<and> m \<noteq> []
        \<and> FinalizedFileThreshold \<le> file_size d (path_Join dir (dat ''blk'' m)) \<and> d (path_Join dir (dat ''rev'' m)) \<noteq> None}"
      unfolding rev_pass [OF assms(1,2) r] mem_Collect_eq num by (rule Collect_cong) blast
    have fs: "{n. finalized d dir n} =
        {dat ''blk'' m |m. plain_num m \<and> FinalizedFileThreshold \<le> file_size d (path_Join dir (dat ''blk'' m))}
        \<union> {dat ''rev'' m |m. plain_num m \<and> m \<noteq> []
          \<and> FinalizedFileThreshold \<le> file_size d (path_Join dir (dat ''blk'' m)) \<and> d (path_Join dir (dat ''rev'' m)) \<noteq> None}"
      unfolding finalized_dat using exists_sized by blast
    show ?thesis unfolding bs rs fs image_Un by blast
  qed
  finally show "set files = scanned_of d dir ` {n. finalized d dir n}" .
  show "sorted (map sf_Path files)" unfolding f by simp
qed

lemma filter_mapE_keys:
  assumes "filter_mapE f xs = Inr ys" "\<And>x y. f x = Inr (Some y) \<Longrightarrow> k y = x"
  shows "subseq (map k ys) xs"
  unfolding filter_mapE_Inr(3) [OF assms(1)]
proof (induction xs)
  case (Cons x xs)
  then show ?case
    using assms(2) [of x] by (auto simp: List.map_filter_simps split: option.split sum.splits)
qed (simp add: List.map_filter_simps)

lemma distinct_subseq: "subseq xs ys \<Longrightarrow> distinct ys \<Longrightarrow> distinct xs"
  by (induction rule: list_emb.induct) (auto dest: list_emb_set)

lemma scan_distinct:
  assumes "finite (dom d)" "fault env (SysReadDir dir) = None" "ScanFinalizedFiles env d dir = Inr files"
  shows "distinct (map sf_Path files)" "distinct (map sf_Name files)"
proof -
  obtain blks revs nums where b: "filter_mapE (scan_blk env d) (Glob_dat env d dir ''blk'') = Inr blks"
    and r: "filter_mapE (scan_rev env d nums) (Glob_dat env d dir ''rev'') = Inr revs"
    and f: "files = sort_key sf_Path (blks @ revs)"
    using assms(3) by (auto simp: ScanFinalizedFiles_def result_iffs Let_def)
  have "subseq (map sf_Path blks) (Glob_dat env d dir ''blk'')" "subseq (map sf_Path revs) (Glob_dat env d dir ''rev'')"
    by (auto intro!: filter_mapE_keys [OF b] filter_mapE_keys [OF r] dest!: scan_blk_Some scan_rev_Some)
  then have db: "distinct (map sf_Path blks)" "distinct (map sf_Path revs)"
    using Glob_dat_set(2) [OF assms(1,2)] by (auto intro: distinct_subseq)
  have "dat ''blk'' a \<noteq> dat ''rev'' c" for a c by (simp add: dat_def)
  then have dj: "set (map sf_Path blks) \<inter> set (map sf_Path revs) = {}"
    unfolding set_map blk_pass [OF assms(1,2) b] rev_pass [OF assms(1,2) r] by (auto simp: scanned_of_def)
  have m: "mset (map sf_Path files) = mset (map sf_Path blks @ map sf_Path revs)" unfolding f by simp
  then show d: "distinct (map sf_Path files)" using db dj mset_eq_imp_distinct_iff [OF m] by simp
  have "map sf_Path files = map (path_Join dir) (map sf_Name files)"
    using scan_set(1) [OF assms] by (auto simp: scanned_of_def)
  then show "distinct (map sf_Name files)" using d by (metis distinct_map)
qed

section \<open>Manifests\<close>

text \<open>A manifest's hashes of finalized files are those of the files on disk, as far as the sizes agree.\<close>

definition hashes_ok :: "disk \<Rightarrow> string \<Rightarrow> ManifestFile list \<Rightarrow> bool" where
  "hashes_ok d dir files \<longleftrightarrow>
     (\<forall>f \<in> set files. \<forall>c. finalized d dir (mf_Name f) \<longrightarrow> d (path_Join dir (mf_Name f)) = Some c \<longrightarrow>
        mf_Size f = int (length c) \<longrightarrow> mf_SHA256 f \<noteq> [] \<longrightarrow> mf_SHA256 f = EncodeToString (Sum256 c))"

lemma manifest_entry_ok:
  assumes "manifest_entry env d cfg cache (scanned_of d dir n) = Inr mf" "d (path_Join dir n) = Some c"
    and "\<And>p. cache n = Some p \<Longrightarrow> mf_Size p = int (length c) \<Longrightarrow> mf_SHA256 p \<noteq> [] \<Longrightarrow>
          mf_SHA256 p = EncodeToString (Sum256 c)"
  shows "mf_Name mf = n \<and> mf_Size mf = int (length c) \<and> mf_SHA256 mf = EncodeToString (Sum256 c) \<and> mf_Finalized mf"
proof -
  have fs: "file_size d (path_Join dir n) = int (length c)" using assms(2) by (simp add: file_size_def)
  show ?thesis
  proof (cases "\<exists>p. cache n = Some p \<and> mf_Size p = int (length c) \<and> mf_SHA256 p \<noteq> []")
    case True
    then show ?thesis using assms(1,3) by (auto simp: manifest_entry_def scanned_of_def Let_def fs)
  next
    case False
    then show ?thesis
      using assms(1,2)
      by (auto simp: manifest_entry_def scanned_of_def Let_def fs sha256File_def result_iffs split: option.splits if_splits sum.splits)
  qed
qed

lemma GenerateManifest_files:
  assumes "GenerateManifest env d cfg dir ch = Inr m"
  obtains scanned where "ScanFinalizedFiles env d dir = Inr scanned"
    "mapE (manifest_entry env d cfg (case cfg_prev cfg of None \<Rightarrow> Map.empty | Some p \<Rightarrow> file_map (mn_Files p))) scanned
       = Inr (mn_Files m)"
  using assms by (auto simp: GenerateManifest_def result_iffs Let_def split: if_splits sum.splits)

section \<open>Snapshots by height\<close>

definition snapshot_candidate :: "string \<Rightarrow> string \<Rightarrow> bool" where
  "snapshot_candidate pre n \<longleftrightarrow> HasPrefix n pre \<and> 0 \<le> parseHeightFromFilename n"

lemma latest_loop_spec:
  assumes "pre \<noteq> []" "latest_loop pre names (f, h) = (f', h')" "f = [] \<Longrightarrow> h = 0"
  shows "(f' = f \<and> h' = h \<and> (\<forall>n \<in> set names. snapshot_candidate pre n \<longrightarrow> f \<noteq> [] \<and> parseHeightFromFilename n \<le> h))
    \<or> (f' \<in> set names \<and> snapshot_candidate pre f' \<and> h' = parseHeightFromFilename f' \<and> (f \<noteq> [] \<longrightarrow> h < h')
        \<and> (\<forall>n \<in> set names. snapshot_candidate pre n \<longrightarrow> parseHeightFromFilename n \<le> h'))"
  using assms(2,3)
proof (induction names arbitrary: f h)
  case Nil
  then show ?case by simp
next
  case (Cons n names)
  let ?hn = "parseHeightFromFilename n"
  show ?case
  proof (cases "snapshot_candidate pre n \<and> (?hn > h \<or> f = [])")
    case True
    then have "n \<noteq> []" using assms(1) by (auto simp: snapshot_candidate_def HasPrefix_def)
    moreover have "latest_loop pre names (n, ?hn) = (f', h')"
      using Cons.prems(1) True by (auto simp: snapshot_candidate_def Let_def)
    ultimately show ?thesis using Cons.IH [of n ?hn] True by fastforce
  next
    case False
    then have "latest_loop pre names (f, h) = (f', h')"
      using Cons.prems(1) by (auto simp: snapshot_candidate_def Let_def split: if_splits)
    moreover have "snapshot_candidate pre n \<longrightarrow> f \<noteq> [] \<and> ?hn \<le> h" using False by auto
    ultimately show ?thesis using Cons.IH [of f h] Cons.prems(2) by fastforce
  qed
qed

section \<open>Generated blockmaps\<close>

definition blockmap_path :: "string \<Rightarrow> string \<Rightarrow> string" where
  "blockmap_path outputDir name = path_Join outputDir (name @ ''.blockmap'')"

lemma last_tmp: "is_digit (last (p @ ''.tmp.'' @ tmp_suffix env))"
  using Itoa_nat_digits [of "tmp_rnd env"] by (auto simp: tmp_suffix_def list_all_iff)

lemma last_blockmap_path: "last (blockmap_path out n) = CHR ''p''"
  by (simp add: blockmap_path_def path_Join_def)

lemma last_not_digit: "\<not> is_digit CHR ''p''" "\<not> is_digit CHR ''t''"
  by (simp_all add: is_digit_def)

lemma tmp_fresh: "last q \<in> {CHR ''p'', CHR ''t''} \<Longrightarrow> q \<noteq> p @ ''.tmp.'' @ tmp_suffix env"
  using last_tmp [of p env] last_not_digit by auto

lemma generate_blockmap_ok:
  assumes "generate_blockmap env out magic (path_Join dir n) d = (Inr (n', h), d')" "n \<noteq> []" "CHR ''/'' \<notin> set n"
  shows "\<exists>bm. n' = n \<and> ScanBlkFile env d (path_Join dir n) magic = Inr bm
    \<and> d' (blockmap_path out n) = Some (blockmap_bytes bm) \<and> h = EncodeToString (Sum256 (blockmap_bytes bm))
    \<and> (\<forall>q. last q \<in> {CHR ''p'', CHR ''t''} \<longrightarrow> q \<noteq> blockmap_path out n \<longrightarrow> d' q = d q)"
proof -
  note base = path_Base_Join [OF assms(2,3), of dir]
  note gen = assms(1) [unfolded generate_blockmap_def base Let_def, folded blockmap_path_def]
  obtain bm where bm: "ScanBlkFile env d (path_Join dir n) magic = Inr bm"
    using gen by (cases "ScanBlkFile env d (path_Join dir n) magic") auto
  obtain err d1 where w: "WriteFile env (blockmap_path out n) (Some bm) d = (err, d1)" by fastforce
  have "err = None" using gen by (cases err) (simp_all add: bm w)
  then have sh: "sha256File env d' (blockmap_path out n) = Inr h" and n: "n' = n"
    and wr: "WriteFile env (blockmap_path out n) (Some bm) d = (None, d')"
    using gen w by (cases "sha256File env d1 (blockmap_path out n)"; simp add: bm)+
  have d': "d' = d(blockmap_path out n @ ''.tmp.'' @ tmp_suffix env := None, blockmap_path out n \<mapsto> blockmap_bytes bm)"
    using WriteFile_atomic [OF wr] by simp
  show ?thesis
    using bm n sh tmp_fresh unfolding d' by (auto simp: sha256File_def result_iffs)
qed

lemma ScanBlkFile_local: "d p = d' p \<Longrightarrow> ScanBlkFile env d p magic = ScanBlkFile env d' p magic"
  by (simp add: ScanBlkFile_def os_Open_def)

lemma generate_blockmaps_ok:
  assumes "generate_blockmaps env out magic (map (path_Join dir) names) res d = (Inr res', d')"
    and "distinct names" "\<forall>n \<in> set names. n \<noteq> [] \<and> CHR ''/'' \<notin> set n \<and> last n = CHR ''t''"
  shows "(\<forall>n \<in> set names. \<exists>bm. ScanBlkFile env d (path_Join dir n) magic = Inr bm
      \<and> d' (blockmap_path out n) = Some (blockmap_bytes bm) \<and> res' n = Some (EncodeToString (Sum256 (blockmap_bytes bm))))
    \<and> (\<forall>q. last q \<in> {CHR ''p'', CHR ''t''} \<longrightarrow> q \<notin> blockmap_path out ` set names \<longrightarrow> d' q = d q)
    \<and> (\<forall>n. n \<notin> set names \<longrightarrow> res' n = res n)"
  using assms
proof (induction names arbitrary: res d)
  case (Cons n names)
  obtain n' h d1 where g: "generate_blockmap env out magic (path_Join dir n) d = (Inr (n', h), d1)"
    and rest: "generate_blockmaps env out magic (map (path_Join dir) names) (res(n' \<mapsto> h)) d1 = (Inr res', d')"
    using Cons.prems(1) by (auto split: prod.splits sum.splits)
  obtain bm where bm: "n' = n" "ScanBlkFile env d (path_Join dir n) magic = Inr bm"
    "d1 (blockmap_path out n) = Some (blockmap_bytes bm)" "h = EncodeToString (Sum256 (blockmap_bytes bm))"
    "\<And>q. last q \<in> {CHR ''p'', CHR ''t''} \<Longrightarrow> q \<noteq> blockmap_path out n \<Longrightarrow> d1 q = d q"
    using generate_blockmap_ok [OF g] Cons.prems(3) by auto
  note IH = Cons.IH [OF rest]
  have in_dir: "last (path_Join dir m) = CHR ''t''" if "m \<in> set (n # names)" for m
    using that Cons.prems(3) by (auto simp: path_Join_def)
  have same: "ScanBlkFile env d1 (path_Join dir m) magic = ScanBlkFile env d (path_Join dir m) magic"
    if "m \<in> set names" for m
    using bm(5) [of "path_Join dir m"] in_dir [of m] last_blockmap_path [of out n] that
    by (intro ScanBlkFile_local) fastforce
  have new: "blockmap_path out n \<notin> blockmap_path out ` set names"
    using Cons.prems(2) by (auto simp: blockmap_path_def)
  show ?case
    using IH Cons.prems(2,3) bm same new last_blockmap_path [of out n] by auto
qed auto

lemma scan_total:
  assumes "finite (dom d)" "\<forall>c. fault env c = None"
  shows "\<exists>files. ScanFinalizedFiles env d dir = Inr files"
proof -
  have st: "os_Stat env d p = Inr (file_size d p)" if "p \<in> set (Glob_dat env d dir pre)" "pre \<in> {''blk'', ''rev''}" for p pre
    using that Glob_dat_set(1) [OF assms(1), of env dir pre] assms(2) by (auto simp: os_Stat_def file_size_def)
  have "\<exists>ys. filter_mapE f xs = Inr ys" if "\<And>x. x \<in> set xs \<Longrightarrow> \<exists>y. f x = Inr y" for f :: "string \<Rightarrow> ScannedFile option result" and xs
    using mapE_ok [of xs f "\<lambda>x. case f x of Inr y \<Rightarrow> y | Inl e \<Rightarrow> None"] that
    by (fastforce simp: filter_mapE_def)
  then have tot: "\<exists>ys. filter_mapE (scan_blk env d) (Glob_dat env d dir ''blk'') = Inr ys"
    "\<exists>ys. filter_mapE (scan_rev env d nums) (Glob_dat env d dir ''rev'') = Inr ys" for nums
    using st by (auto simp: scan_blk_def scan_rev_def Let_def)
  obtain blks where b: "filter_mapE (scan_blk env d) (Glob_dat env d dir ''blk'') = Inr blks" using tot(1) ..
  obtain revs where "filter_mapE (scan_rev env d {n. n \<noteq> [] \<and> n \<in> set (map (\<lambda>s. extractFileNumber (sf_Name s)) blks)})
      (Glob_dat env d dir ''rev'') = Inr revs" using tot(2) ..
  then show ?thesis using assms(2) by (simp add: ScanFinalizedFiles_def Let_def b)
qed

lemma ScanBlkFile_frames:
  assumes "ScanBlkFile env d path magic = Inr bm"
  shows "\<exists>bs. list_all valid_block bs \<and> d path = Some (frames magic bs) \<and> Entries bm = entries_of 0 bs"
proof -
  obtain f where f: "d path = Some f" "length f = 0 \<and> Entries bm = [] \<or> scan_loop env path f magic 0 = Inr (Entries bm)"
    using assms by (auto simp: ScanBlkFile_def result_iffs split: if_splits)
  from f(2) show ?thesis
  proof
    assume "length f = 0 \<and> Entries bm = []"
    then show ?thesis using f(1) by (intro exI [where x = "[]"]) (simp add: frames_def)
  next
    assume "scan_loop env path f magic 0 = Inr (Entries bm)"
    from scan_loop_sound [OF this] show ?thesis using f(1) by auto
  qed
qed

lemma entries_of_sorted: "sorted (map FileOffset (entries_of off bs)) \<and> (\<forall>e \<in> set (entries_of off bs). int off \<le> FileOffset e)"
proof (induction bs arbitrary: off)
  case (Cons b bs)
  show ?case using Cons [of "off + (8 + length b)"] by force
qed simp

lemma length_entries_of [simp]: "length (entries_of off bs) = length bs"
  by (induction bs arbitrary: off) auto

lemma entries_of_valid:
  assumes "list_all valid_block bs" "int (off + length (frames m bs)) < 2 ^ 63"
  shows "list_all valid_entry (entries_of off bs)"
proof -
  have "length (BlockHash e) = 32" if "e \<in> set (entries_of off bs)" for e
    using that by (induction bs arbitrary: off) (auto simp: block_hash_def)
  moreover have "in_int64 (FileOffset e)" if "e \<in> set (entries_of off bs)" for e
    using entries_of_stop [OF assms(1) that, of m] FileOffset_less_stop [of e] assms(2) by (auto simp: in_int64_def)
  ultimately show ?thesis by (auto simp: list_all_iff valid_entry_def)
qed

lemma Read_generated:
  assumes "list_all valid_block bs" "int (length (frames m bs)) < 2 ^ 63" "length bs < 1000000" "Entries bm = entries_of 0 bs"
  shows "Read (blockmap_bytes bm) = Inr (\<lparr>Filename = [], Entries = entries_of 0 bs\<rparr>, [])"
proof -
  have "list_all valid_entry (Entries bm)" using entries_of_valid [OF assms(1), of 0 m] assms(2,4) by simp
  moreover have "sort_entries (Entries bm) = entries_of 0 bs"
    using entries_of_sorted [of 0 bs] assms(4) by (simp add: sort_entries_def sort_key_id_if_sorted)
  ultimately show ?thesis
    using Read_blockmap_bytes [of bm "[]"] assms(3,4) by simp
qed

lemma GenerateBlockmaps_files:
  assumes "finite (dom d)" "fault env (SysReadDir dir) = None" "GenerateBlockmaps env dir out magic d = (Inr res, d')"
  shows "\<exists>names. generate_blockmaps env out magic (map (path_Join dir) names) Map.empty d = (Inr res, d')
    \<and> distinct names \<and> set names = {dat ''blk'' num |num. plain_num num
      \<and> FinalizedFileThreshold \<le> file_size d (path_Join dir (dat ''blk'' num))}"
proof -
  let ?f = "\<lambda>f. bindE (wrapE ''stat'' (os_Stat env d f)) (\<lambda>size.
      Inr (if size \<ge> FinalizedFileThreshold then Some f else None))"
  let ?g = "sort (Glob_dat env d dir ''blk'')"
  obtain fin where fin: "filter_mapE ?f ?g = Inr fin" and gen: "generate_blockmaps env out magic fin Map.empty d = (Inr res, d')"
    using assms(3) by (auto simp: GenerateBlockmaps_def split: sum.splits option.splits)
  note g = Glob_dat_set [OF assms(1,2), of "''blk''", folded dat_def plain_num_def, simplified]
  note ok = filter_mapE_Inr(1,2) [OF fin]
  have val: "?f p = Inr v \<Longrightarrow> v = (if FinalizedFileThreshold \<le> file_size d p then Some p else None)" for p v
    by (auto simp: result_iffs file_size_def)
  have "set fin = {p \<in> set ?g. FinalizedFileThreshold \<le> file_size d p}"
    unfolding ok(2) using ok(1) val by (fastforce split: if_splits)
  also have "\<dots> = path_Join dir ` {dat ''blk'' num |num. plain_num num
      \<and> FinalizedFileThreshold \<le> file_size d (path_Join dir (dat ''blk'' num))}"
    unfolding set_sort g(1) using exists_sized by auto
  finally have set_fin: "set fin = path_Join dir ` {dat ''blk'' num |num. plain_num num
      \<and> FinalizedFileThreshold \<le> file_size d (path_Join dir (dat ''blk'' num))}" .
  then obtain names where names: "fin = map (path_Join dir) names"
    by (metis (no_types, lifting) ex_map_conv image_iff)
  have "subseq (map id fin) ?g"
    by (rule filter_mapE_keys [OF fin]) (auto simp: result_iffs split: if_splits)
  then have "distinct fin" using g(2) distinct_subseq [of fin ?g] by simp
  then have "distinct names" unfolding names by (metis distinct_map)
  moreover have "set names = {dat ''blk'' num |num. plain_num num
      \<and> FinalizedFileThreshold \<le> file_size d (path_Join dir (dat ''blk'' num))}"
    using set_fin unfolding names set_map by (subst (asm) inj_image_eq_iff) (auto intro: injI)
  ultimately show ?thesis using gen names by blast
qed

section \<open>Heights in names\<close>

lemma LastIndexByte_absent: "c \<notin> set s \<Longrightarrow> LastIndexByte s c = None"
  by (induction s) auto

lemma LastIndexByte_last: "c \<notin> set t \<Longrightarrow> LastIndexByte (s @ c # t) c = Some (length s)"
  by (induction s) (auto simp: LastIndexByte_absent)

lemma height_of_name:
  assumes "int n < 2 ^ 63"
  shows "parseHeightFromFilename (pre @ ''-'' @ Itoa_nat n @ ''.dat'') = int n"
    and "parseHeightFromFilename (pre @ ''-'' @ Itoa_nat n @ ''.tar.zst'') = int n"
proof -
  define b where "b = pre @ ''-'' @ Itoa_nat n"
  have digits: "list_all is_digit (Itoa_nat n)" "digits_val (Itoa_nat n) = n" "Itoa_nat n \<noteq> []"
    using Itoa_nat_digits [of n] by auto
  then have "CHR ''-'' \<notin> set (Itoa_nat n)" by (auto simp: list_all_iff is_digit_def)
  then have idx: "LastIndexByte b CHR ''-'' = Some (length pre)"
    using LastIndexByte_last [of "CHR ''-''" "Itoa_nat n" pre] by (simp add: b_def)
  have val: "ParseInt (Itoa_nat n) = Some (int n)"
    using ParseInt_digits [OF digits(1,3)] digits(2) assms by (simp add: in_int64_def)
  have base: "(case LastIndexByte b CHR ''-'' of None \<Rightarrow> -1
      | Some idx \<Rightarrow> if idx + 1 \<ge> length b then -1
          else (case ParseInt (drop (idx + 1) b) of None \<Rightarrow> -1 | Some height \<Rightarrow> height)) = int n"
    unfolding idx using digits(3) val by (simp add: b_def)
  have no: "\<not> HasSuffix (b @ ''.dat'') ''.tar.zst''"
  proof
    assume "HasSuffix (b @ ''.dat'') ''.tar.zst''"
    then obtain t where "b @ ''.dat'' = t @ ''.tar.zst''" unfolding HasSuffix_iff by blast
    from arg_cong [OF this, of rev] show False by simp
  qed
  have t: "take (length (b @ ''.dat'') - 4) (b @ ''.dat'') = b" "take (length (b @ ''.tar.zst'') - 8) (b @ ''.tar.zst'') = b"
    by simp_all
  note s = HasSuffix_append [THEN if_P]
  have "parseHeightFromFilename (b @ ''.dat'') = int n"
    unfolding parseHeightFromFilename_def Let_def if_not_P [OF no] s t by (rule base)
  then show "parseHeightFromFilename (pre @ ''-'' @ Itoa_nat n @ ''.dat'') = int n" by (simp add: b_def)
  have "parseHeightFromFilename (b @ ''.tar.zst'') = int n"
    unfolding parseHeightFromFilename_def Let_def s t by (rule base)
  then show "parseHeightFromFilename (pre @ ''-'' @ Itoa_nat n @ ''.tar.zst'') = int n" by (simp add: b_def)
qed

section \<open>Properties\<close>

text \<open>
  The scan is exact: it returns the blk files that have reached the threshold and the rev
  files whose blk file has, each once, with its size, in the order of the paths; when no
  system call fails it succeeds.
\<close>

theorem scan_exact:
  assumes "finite (dom d)" "fault env (SysReadDir dir) = None"
  shows "(\<forall>files. ScanFinalizedFiles env d dir = Inr files \<longrightarrow>
      set files = (\<lambda>n. \<lparr>sf_Name = n, sf_Path = path_Join dir n, sf_Size = file_size d (path_Join dir n)\<rparr>) ` {n. finalized d dir n}
      \<and> distinct (map sf_Name files) \<and> sorted (map sf_Path files))
    \<and> ((\<forall>c. fault env c = None) \<longrightarrow> (\<exists>files. ScanFinalizedFiles env d dir = Inr files))"
  using scan_set [OF assms] scan_distinct(2) [OF assms] scan_total [OF assms(1)]
  by (simp add: scanned_of_def [abs_def])

text \<open>A directory with a finalized blk file, a small one, and their rev files.\<close>

definition example_blocks :: disk where
  "example_blocks = [''b/blk00000.dat'' \<mapsto> frames 1 [replicate 130023424 3], ''b/rev00000.dat'' \<mapsto> [1],
     ''b/blk00001.dat'' \<mapsto> [2], ''b/rev00001.dat'' \<mapsto> [3]]"

lemma example_blocks_finalized: "finalized example_blocks ''b'' n \<longleftrightarrow> n \<in> {''blk00000.dat'', ''rev00000.dat''}"
proof
  assume "finalized example_blocks ''b'' n"
  then obtain num where n: "n = ''blk'' @ num @ ''.dat'' \<or> n = ''rev'' @ num @ ''.dat''"
    "FinalizedFileThreshold \<le> file_size example_blocks (path_Join ''b'' (''blk'' @ num @ ''.dat''))"
    by (auto simp: finalized_def)
  then have "path_Join ''b'' (''blk'' @ num @ ''.dat'') = ''b/blk00000.dat''"
    using threshold_pos
    by (auto simp: file_size_def example_blocks_def FinalizedFileThreshold_def MaxBlockFileSize_def path_Join_def split: if_splits)
  then have "num @ ''.dat'' = ''00000'' @ ''.dat''" by (simp add: path_Join_def)
  then have "num = ''00000''" by (simp only: append_same_eq)
  then show "n \<in> {''blk00000.dat'', ''rev00000.dat''}" using n(1) by auto
next
  have "FinalizedFileThreshold \<le> file_size example_blocks (path_Join ''b'' (''blk'' @ ''00000'' @ ''.dat''))"
    by (simp add: file_size_def example_blocks_def FinalizedFileThreshold_def MaxBlockFileSize_def path_Join_def frames_def frame_def)
  moreover assume "n \<in> {''blk00000.dat'', ''rev00000.dat''}"
  ultimately show "finalized example_blocks ''b'' n"
    unfolding finalized_def by (intro exI [where x = "''00000''"]) (auto simp: example_blocks_def path_Join_def)
qed

theorem scan_exact_witness:
  "\<exists>files. ScanFinalizedFiles io_ok example_blocks ''b'' = Inr files \<and> sf_Name ` set files = {''blk00000.dat'', ''rev00000.dat''}"
proof -
  have "finite (dom example_blocks)" by (simp add: example_blocks_def)
  then obtain files where f: "ScanFinalizedFiles io_ok example_blocks ''b'' = Inr files"
    and "sf_Name ` set files = {n. finalized example_blocks ''b'' n}"
    using scan_exact [of example_blocks io_ok "''b''"] by (auto simp: image_image)
  then show ?thesis by (auto simp: example_blocks_finalized)
qed

lemma GenerateManifest_exact:
  assumes "finite (dom d)" "fault env (SysReadDir dir) = None"
    and "\<forall>p. cfg_prev cfg = Some p \<longrightarrow> hashes_ok d dir (mn_Files p)"
    and "GenerateManifest env d cfg dir ch = Inr m"
  shows "mf_Name ` set (mn_Files m) = {n. finalized d dir n} \<and> distinct (map mf_Name (mn_Files m))
    \<and> (\<forall>mf \<in> set (mn_Files m). \<exists>c. d (path_Join dir (mf_Name mf)) = Some c \<and> mf_Finalized mf
        \<and> mf_Size mf = int (length c) \<and> mf_SHA256 mf = EncodeToString (Sum256 c))
    \<and> hashes_ok d dir (mn_Files m)"
proof -
  let ?cache = "case cfg_prev cfg of None \<Rightarrow> Map.empty | Some p \<Rightarrow> file_map (mn_Files p)"
  obtain scanned where sc: "ScanFinalizedFiles env d dir = Inr scanned"
    and me: "list_all2 (\<lambda>s mf. manifest_entry env d cfg ?cache s = Inr mf) scanned (mn_Files m)"
    using GenerateManifest_files [OF assms(4)] unfolding mapE_Inr by blast
  note s = scan_set(1) [OF assms(1,2) sc] scan_distinct(2) [OF assms(1,2) sc]
  have one: "mf_Name mf = sf_Name s \<and> (\<exists>c. d (path_Join dir (sf_Name s)) = Some c \<and> mf_Finalized mf
        \<and> mf_Size mf = int (length c) \<and> mf_SHA256 mf = EncodeToString (Sum256 c))"
    if in_s: "s \<in> set scanned" and en: "manifest_entry env d cfg ?cache s = Inr mf" for s mf
  proof -
    obtain n where n: "s = scanned_of d dir n" "finalized d dir n" using in_s s(1) by auto
    then obtain c where c: "d (path_Join dir n) = Some c" by (auto simp: finalized_def)
    have "mf_SHA256 p = EncodeToString (Sum256 c)"
      if "?cache n = Some p" "mf_Size p = int (length c)" "mf_SHA256 p \<noteq> []" for p
      using that assms(3) c n(2) file_map_Some [of _ n p] by (auto simp: hashes_ok_def split: option.splits)
    from manifest_entry_ok [OF en [unfolded n(1)] c this] show ?thesis using c n(1) by (simp add: scanned_of_def)
  qed
  have rel: "list_all2 (\<lambda>s mf. mf_Name mf = sf_Name s \<and> (\<exists>c. d (path_Join dir (mf_Name mf)) = Some c \<and> mf_Finalized mf
        \<and> mf_Size mf = int (length c) \<and> mf_SHA256 mf = EncodeToString (Sum256 c))) scanned (mn_Files m)"
    by (rule list.rel_mono_strong [OF me]) (use one in force)
  then have names: "map mf_Name (mn_Files m) = map sf_Name scanned"
    by (induction rule: list_all2_induct) auto
  from rel have each: "\<forall>mf \<in> set (mn_Files m). \<exists>c. d (path_Join dir (mf_Name mf)) = Some c \<and> mf_Finalized mf
        \<and> mf_Size mf = int (length c) \<and> mf_SHA256 mf = EncodeToString (Sum256 c)"
    by (induction rule: list_all2_induct) auto
  have "mf_Name ` set (mn_Files m) = sf_Name ` set scanned" using names by (metis set_map)
  then have "mf_Name ` set (mn_Files m) = {n. finalized d dir n}"
    unfolding s(1) by (simp add: image_image scanned_of_def)
  then show ?thesis using names s(2) each by (auto simp: hashes_ok_def)
qed

lemma mapE_total: "\<forall>x \<in> set xs. \<exists>y. f x = Inr y \<Longrightarrow> \<exists>ys. mapE f xs = Inr ys"
  by (induction xs) auto

lemma GenerateManifest_total:
  assumes "finite (dom d)" "\<forall>c. fault env c = None" "d dir = None"
  shows "\<exists>m. GenerateManifest env d cfg dir ch = Inr m"
proof -
  obtain files where f: "ScanFinalizedFiles env d dir = Inr files" using scan_total [OF assms(1,2)] by blast
  let ?cache = "case cfg_prev cfg of None \<Rightarrow> Map.empty | Some p \<Rightarrow> file_map (mn_Files p)"
  have sha: "\<exists>h. sha256File env d p = Inr h" if "d p \<noteq> None" for p
    using that assms(2) by (auto simp: sha256File_def os_ReadFile_def os_Open_def)
  have "\<exists>mf. manifest_entry env d cfg ?cache s = Inr mf" if in_f: "s \<in> set files" for s
  proof -
    obtain n where n: "s = scanned_of d dir n" "finalized d dir n"
      using in_f scan_set(1) [OF assms(1) _ f] assms(2) by auto
    then have "d (sf_Path s) \<noteq> None" by (auto simp: finalized_def scanned_of_def)
    then obtain h where h: "sha256File env d (sf_Path s) = Inr h" using sha by blast
    let ?bm = "path_Join (cfg_blockmapDir cfg) (sf_Name s @ ''.blockmap'')"
    show ?thesis
    proof (cases "d ?bm")
      case None
      then show ?thesis
        using h assms(2) by (cases "?cache (sf_Name s)") (simp_all add: manifest_entry_def Let_def os_Stat_def)
    next
      case (Some raw)
      then obtain h' where "sha256File env d ?bm = Inr h'" using sha [of ?bm] by auto
      then show ?thesis
        using h Some assms(2) by (cases "?cache (sf_Name s)") (simp_all add: manifest_entry_def Let_def os_Stat_def)
    qed
  qed
  then have "\<forall>s \<in> set files. \<exists>mf. manifest_entry env d cfg ?cache s = Inr mf" ..
  from mapE_total [OF this] obtain ys where "mapE (manifest_entry env d cfg ?cache) files = Inr ys" ..
  then show ?thesis
    using f assms(2,3) by (auto simp: GenerateManifest_def Let_def split: sum.splits)
qed

text \<open>
  C15. A generated manifest describes the disk: it lists each finalized file once, with the size
  and the SHA-256 of its content, provided that the entries of the previous manifest whose
  name and size still match have the right hash. What it lists then meets that condition
  itself, so that a chain of incremental generations stays correct.
\<close>

theorem manifest_exact:
  assumes "finite (dom d)" "fault env (SysReadDir dir) = None"
    and "\<forall>p. cfg_prev cfg = Some p \<longrightarrow> hashes_ok d dir (mn_Files p)"
    and "GenerateManifest env d cfg dir ch = Inr m"
  shows "mf_Name ` set (mn_Files m) = {n. finalized d dir n} \<and> distinct (map mf_Name (mn_Files m))
    \<and> (\<forall>mf \<in> set (mn_Files m). \<exists>c. d (path_Join dir (mf_Name mf)) = Some c \<and> mf_Finalized mf
        \<and> mf_Size mf = int (length c) \<and> mf_SHA256 mf = EncodeToString (Sum256 c))
    \<and> hashes_ok d dir (mn_Files m)"
  using assms by (rule GenerateManifest_exact)

definition example_cfg :: manifestConfig where
  "example_cfg = \<lparr>cfg_blockmapDir = [], cfg_snapshotDir = [], cfg_baseURL = [], cfg_prev = None\<rparr>"

theorem manifest_exact_witness:
  "\<exists>m. GenerateManifest io_ok example_blocks example_cfg ''b'' ''mainnet'' = Inr m
     \<and> mf_Name ` set (mn_Files m) = {''blk00000.dat'', ''rev00000.dat''}"
proof -
  have fin: "finite (dom example_blocks)" "example_blocks ''b'' = None" by (simp_all add: example_blocks_def)
  obtain m where m: "GenerateManifest io_ok example_blocks example_cfg ''b'' ''mainnet'' = Inr m"
    using GenerateManifest_total [OF fin(1) _ fin(2), of io_ok] by auto
  from manifest_exact [OF fin(1) _ _ m] have "mf_Name ` set (mn_Files m) = {n. finalized example_blocks ''b'' n}"
    by (simp add: example_cfg_def)
  then show ?thesis using m by (auto simp: example_blocks_finalized)
qed

text \<open>
  The latest snapshot is the one of greatest height: of the files of the snapshot directory
  with the prefix and a height in their name, \<open>findLatestSnapshot\<close> returns one with the
  greatest height, and no name only when there is none; the height of a name is the number
  the generator printed into it.
\<close>

theorem latest_snapshot:
  assumes "finite (dom d)" "pre \<noteq> []" "findLatestSnapshot env d dir pre = Inr (f, h)"
  shows "(f = [] \<and> h = 0 \<and> \<not> (\<exists>g. g \<in> dir_names d dir \<and> HasPrefix g pre \<and> 0 \<le> parseHeightFromFilename g))
    \<or> (f \<in> dir_names d dir \<and> HasPrefix f pre \<and> h = parseHeightFromFilename f \<and> 0 \<le> h
       \<and> (\<forall>g \<in> dir_names d dir. HasPrefix g pre \<longrightarrow> parseHeightFromFilename g \<le> h))"
proof -
  have "latest_loop pre (sorted_list_of_set (dir_names d dir)) ([], 0) = (f, h)"
    using assms(3) by (auto simp: findLatestSnapshot_def os_ReadDir_def result_iffs)
  from latest_loop_spec [OF assms(2) this] show ?thesis
    using finite_dir_names [OF assms(1), of dir] by (auto simp: snapshot_candidate_def; force)
qed

theorem latest_snapshot_witness:
  "\<exists>f. findLatestSnapshot io_ok [''s/utxo-7.dat'' \<mapsto> [], ''s/utxo-30.dat'' \<mapsto> []] ''s'' ''utxo-'' = Inr (f, 30)"
proof -
  let ?d = "[''s/utxo-7.dat'' \<mapsto> [], ''s/utxo-30.dat'' \<mapsto> []] :: disk"
  have names: "dir_names ?d ''s'' = {''utxo-7.dat'', ''utxo-30.dat''}"
    by (auto simp: dir_names_def path_Join_def)
  have n: "Itoa_nat 7 = ''7''" "Itoa_nat 30 = ''30''" by (code_simp)+
  have h: "parseHeightFromFilename ''utxo-7.dat'' = 7" "parseHeightFromFilename ''utxo-30.dat'' = 30"
    using height_of_name(1) [of 7 "''utxo''"] height_of_name(1) [of 30 "''utxo''"] n by simp_all
  obtain f k where "findLatestSnapshot io_ok ?d ''s'' ''utxo-'' = Inr (f, k)"
    by (simp add: findLatestSnapshot_def os_ReadDir_def) (metis surj_pair)
  moreover have "finite (dom ?d)" "''utxo-'' \<noteq> ([] :: string)" by simp_all
  from latest_snapshot [OF this calculation] have "k = 30"
  proof (elim disjE)
    assume "f = [] \<and> k = 0 \<and> \<not> (\<exists>g. g \<in> dir_names ?d ''s'' \<and> HasPrefix g ''utxo-'' \<and> 0 \<le> parseHeightFromFilename g)"
    moreover have "''utxo-30.dat'' \<in> dir_names ?d ''s''" "HasPrefix ''utxo-30.dat'' ''utxo-''"
      by (simp_all add: names HasPrefix_def)
    ultimately show ?thesis using h(2) by (metis zero_le_numeral)
  qed (use h in \<open>auto simp: names HasPrefix_def\<close>)
  ultimately show ?thesis by blast
qed

lemma GenerateBlockmaps_exact:
  assumes "finite (dom d)" "fault env (SysReadDir dir) = None"
    and "GenerateBlockmaps env dir out magic d = (Inr res, d')"
  shows "dom res = {n. finalized d dir n \<and> HasPrefix n ''blk''}
    \<and> (\<forall>n \<in> dom res. \<exists>bs raw. list_all valid_block bs \<and> d (path_Join dir n) = Some (frames magic bs)
        \<and> d' (path_Join out (n @ ''.blockmap'')) = Some raw \<and> res n = Some (EncodeToString (Sum256 raw))
        \<and> (length bs < 1000000 \<longrightarrow> int (length (frames magic bs)) < 2 ^ 63 \<longrightarrow>
             Read raw = Inr (\<lparr>Filename = [], Entries = entries_of 0 bs\<rparr>, []))
        \<and> d' (path_Join dir n) = d (path_Join dir n))"
proof -
  let ?B = "{dat ''blk'' num |num. plain_num num \<and> FinalizedFileThreshold \<le> file_size d (path_Join dir (dat ''blk'' num))}"
  obtain names where gen: "generate_blockmaps env out magic (map (path_Join dir) names) Map.empty d = (Inr res, d')"
    and dn: "distinct names" and sn: "set names = ?B"
    using GenerateBlockmaps_files [OF assms] by blast
  have plain: "\<forall>n \<in> set names. n \<noteq> [] \<and> CHR ''/'' \<notin> set n \<and> last n = CHR ''t''"
    unfolding sn by (auto simp: dat_def plain_num_def)
  note ok = generate_blockmaps_ok [OF gen dn plain]
  have dom: "dom res = set names" using ok by fastforce
  have "{n. finalized d dir n \<and> HasPrefix n ''blk''} = ?B"
  proof -
    have "HasPrefix (dat ''blk'' num) ''blk''" "\<not> HasPrefix (dat ''rev'' num) ''blk''" for num
      by (simp_all add: dat_def HasPrefix_def)
    then show ?thesis unfolding finalized_dat using exists_sized by blast
  qed
  moreover have "\<exists>bs raw. list_all valid_block bs \<and> d (path_Join dir n) = Some (frames magic bs)
        \<and> d' (path_Join out (n @ ''.blockmap'')) = Some raw \<and> res n = Some (EncodeToString (Sum256 raw))
        \<and> (length bs < 1000000 \<longrightarrow> int (length (frames magic bs)) < 2 ^ 63 \<longrightarrow>
             Read raw = Inr (\<lparr>Filename = [], Entries = entries_of 0 bs\<rparr>, []))
        \<and> d' (path_Join dir n) = d (path_Join dir n)" if n: "n \<in> set names" for n
  proof -
    obtain bm where bm: "ScanBlkFile env d (path_Join dir n) magic = Inr bm"
      "d' (blockmap_path out n) = Some (blockmap_bytes bm)" "res n = Some (EncodeToString (Sum256 (blockmap_bytes bm)))"
      using ok n by blast
    obtain bs where bs: "list_all valid_block bs" "d (path_Join dir n) = Some (frames magic bs)" "Entries bm = entries_of 0 bs"
      using ScanBlkFile_frames [OF bm(1)] by blast
    have "last (path_Join dir n) = CHR ''t''" using plain n by (auto simp: path_Join_def)
    then have "path_Join dir n \<notin> blockmap_path out ` set names" using last_blockmap_path by fastforce
    then have "d' (path_Join dir n) = d (path_Join dir n)" using ok \<open>last (path_Join dir n) = CHR ''t''\<close> by blast
    then show ?thesis
      using bs bm(2,3) Read_generated [OF bs(1) _ _ bs(3)] unfolding blockmap_path_def by blast
  qed
  ultimately show ?thesis using dom sn by simp
qed

text \<open>A directory with one finalized block file that has a single block.\<close>

definition example_frames :: "32 word \<Rightarrow> disk" where
  "example_frames magic = [''b/blk00000.dat'' \<mapsto> frames magic [replicate 130023424 3]]"

lemma example_frames_finalized: "finalized (example_frames magic) ''b'' n \<longleftrightarrow> n = ''blk00000.dat''"
proof
  assume "finalized (example_frames magic) ''b'' n"
  then show "n = ''blk00000.dat''" by (auto simp: finalized_def example_frames_def path_Join_def split: if_splits)
next
  assume "n = ''blk00000.dat''"
  moreover have "FinalizedFileThreshold \<le> file_size (example_frames magic) (path_Join ''b'' (''blk'' @ ''00000'' @ ''.dat''))"
    by (simp add: example_frames_def file_size_def path_Join_def frames_def frame_def FinalizedFileThreshold_def MaxBlockFileSize_def)
  moreover have "example_frames magic (path_Join ''b'' ''blk00000.dat'') \<noteq> None"
    by (simp add: example_frames_def path_Join_def)
  ultimately show "finalized (example_frames magic) ''b'' n"
    unfolding finalized_def by (intro exI [where x = "''00000''"]) simp
qed

lemma example_frames_run: "\<exists>res d'. GenerateBlockmaps io_ok ''b'' ''m'' magic (example_frames magic) = (Inr res, d')"
proof -
  define c where "c = frames magic [replicate 130023424 3]"
  have len: "FinalizedFileThreshold \<le> int (length c)"
    by (simp add: c_def frames_def frame_def FinalizedFileThreshold_def MaxBlockFileSize_def)
  let ?d = "[''b/blk00000.dat'' \<mapsto> c] :: disk" and ?n = "''blk00000.dat''"
  have names: "dir_names ?d ''b'' = {?n}" by (auto simp: dir_names_def path_Join_def)
  have "HasSuffix (''blk00000'' @ ''.dat'') ''.dat''" by (rule HasSuffix_append)
  then have glob: "Glob_dat io_ok ?d ''b'' ''blk'' = [''b/blk00000.dat'']"
    by (simp add: Glob_dat_def os_ReadDir_def names HasPrefix_def path_Join_def)
  obtain bm where scan: "ScanBlkFile io_ok ?d ''b/blk00000.dat'' magic = Inr bm"
    using ScanBlkFile_accepts [of "[replicate 130023424 3]" ?d "''b/blk00000.dat''" magic io_ok] by (simp add: valid_block_def c_def)
  have base: "path_Base ''b/blk00000.dat'' = ?n"
    using path_Base_Join [of ?n "''b''"] by (simp add: path_Join_def)
  let ?p = "''m/blk00000.dat.blockmap''"
  obtain d1 where w: "WriteFile io_ok ?p (Some bm) ?d = (None, d1)"
  proof -
    have "fst (WriteFile io_ok ?p (Some bm) ?d) = None"
      unfolding WriteFile_def io_ok_simps option.case
      by (rule write_atomic_ok [OF emits_Write]) (simp_all add: io_ok_def)
    then show ?thesis using that by (metis prod.collapse)
  qed
  have "d1 ?p = Some (blockmap_bytes bm)" using WriteFile_atomic [OF w] by simp
  then have "generate_blockmap io_ok ''m'' magic ''b/blk00000.dat'' ?d =
      (Inr (?n, EncodeToString (Sum256 (blockmap_bytes bm))), d1)"
    using w by (simp add: generate_blockmap_def base scan Let_def path_Join_def sha256File_def os_ReadFile_def os_Open_def)
  then show ?thesis
    using len by (simp add: GenerateBlockmaps_def glob filter_mapE_def List.map_filter_simps os_Stat_def
        example_frames_def c_def [symmetric])
qed

text \<open>
  \<open>GenerateBlockmaps\<close>: when it succeeds, every finalized blk file is a sequence of whole
  frames and has a blockmap file whose SHA-256 is the one returned and which the client's
  reader turns into the index of the file (if it has less than a million blocks); the block
  files themselves are untouched.
\<close>

theorem blockmaps_generated:
  assumes "finite (dom d)" "fault env (SysReadDir dir) = None"
    and "GenerateBlockmaps env dir out magic d = (Inr res, d')"
  shows "dom res = {n. finalized d dir n \<and> HasPrefix n ''blk''}
    \<and> (\<forall>n \<in> dom res. \<exists>bs raw. list_all valid_block bs \<and> d (path_Join dir n) = Some (frames magic bs)
        \<and> d' (path_Join out (n @ ''.blockmap'')) = Some raw \<and> res n = Some (EncodeToString (Sum256 raw))
        \<and> (length bs < 1000000 \<longrightarrow> int (length (frames magic bs)) < 2 ^ 63 \<longrightarrow>
             Read raw = Inr (\<lparr>Filename = [], Entries = entries_of 0 bs\<rparr>, []))
        \<and> d' (path_Join dir n) = d (path_Join dir n))"
  using assms by (rule GenerateBlockmaps_exact)

theorem blockmaps_generated_witness:
  "\<exists>res d'. GenerateBlockmaps io_ok ''b'' ''m'' 1 (example_frames 1) = (Inr res, d') \<and> dom res = {''blk00000.dat''}"
proof -
  obtain res d' where r: "GenerateBlockmaps io_ok ''b'' ''m'' 1 (example_frames 1) = (Inr res, d')"
    using example_frames_run by blast
  have "dom res = {n. finalized (example_frames 1) ''b'' n \<and> HasPrefix n ''blk''}"
    using blockmaps_generated [OF _ _ r] by (simp add: example_frames_def)
  also have "\<dots> = {''blk00000.dat''}" by (auto simp: example_frames_finalized HasPrefix_def)
  finally show ?thesis using r by blast
qed

section \<open>Writing the manifest\<close>

text \<open>Writing a manifest under a name that does not end like a block file's leaves the block files alone.\<close>

lemma finalized_last: "finalized d dir n \<Longrightarrow> last (path_Join dir n) = CHR ''t''"
  by (auto simp: finalized_def path_Join_def)

lemma finalized_same:
  assumes "\<forall>q. last q = CHR ''t'' \<longrightarrow> d' q = d q"
  shows "finalized d' dir = finalized d dir"
proof
  fix n
  have blk: "d' (path_Join dir (''blk'' @ num @ ''.dat'')) = d (path_Join dir (''blk'' @ num @ ''.dat''))"
    and rv: "d' (path_Join dir (''rev'' @ num @ ''.dat'')) = d (path_Join dir (''rev'' @ num @ ''.dat''))" for num
    by (rule assms [rule_format]; simp add: path_Join_def)+
  show "finalized d' dir n = finalized d dir n"
    unfolding finalized_def file_size_def blk using blk rv by auto
qed

lemma hashes_ok_same:
  assumes "\<forall>q. last q = CHR ''t'' \<longrightarrow> d' q = d q"
  shows "hashes_ok d' dir files = hashes_ok d dir files"
proof -
  have "finalized d dir n \<Longrightarrow> d' (path_Join dir n) = d (path_Join dir n)" for n
    using finalized_last assms by blast
  then show ?thesis unfolding hashes_ok_def finalized_same [OF assms] by auto
qed

lemma WriteFile_manifest_ok:
  assumes "WriteFile_manifest enc env dir name m d = (None, d')" "dir @ ''/'' @ name \<noteq> path_Join dir (''.manifest-'' @ tmp_suffix env @ ''.tmp'')"
  shows "\<exists>bs. enc m = Inr bs \<and> d' (path_Join dir name) = Some bs"
proof (cases "enc m")
  case (Inl e)
  then have "fst (write_atomic env t p a b c x (Write_manifest enc m) d) \<noteq> None" for t p a b c x
    by (auto simp: write_atomic_def Write_manifest_def w_fail_def Let_def split: option.splits)
  then show ?thesis using assms(1) by (metis WriteFile_manifest_def fst_conv)
next
  case (Inr bs)
  then have "emits (Write_manifest enc m) bs" by (simp add: Write_manifest_def)
  from write_atomic_spec [OF this _ assms(1) [unfolded WriteFile_manifest_def]] show ?thesis
    using assms(2) Inr by (auto simp: path_Join_def)
qed

lemma manifest_written_same:
  assumes "WriteFile_manifest enc env dir name m d = (err, d1)" "name \<noteq> []" "last name \<notin> {CHR ''t'', CHR ''p''}"
  shows "\<forall>q. last q = CHR ''t'' \<longrightarrow> d1 q = d q" "err = None \<Longrightarrow> \<exists>bs. enc m = Inr bs \<and> d1 (path_Join dir name) = Some bs"
proof -
  let ?mp = "path_Join dir name" and ?tmp = "path_Join dir (''.manifest-'' @ tmp_suffix env @ ''.tmp'')"
  have lasts: "last ?mp \<notin> {CHR ''t'', CHR ''p''}" "last ?tmp = CHR ''p''"
    using assms(2,3) by (simp_all add: path_Join_def)
  show "\<forall>q. last q = CHR ''t'' \<longrightarrow> d1 q = d q"
  proof (intro allI impI)
    fix q :: string
    assume q: "last q = CHR ''t''"
    then have "q \<noteq> ?mp" "q \<noteq> ?tmp" using lasts by auto
    then show "d1 q = d q" using write_atomic_other [OF assms(1) [unfolded WriteFile_manifest_def]] by blast
  qed
  show "\<exists>bs. enc m = Inr bs \<and> d1 ?mp = Some bs" if "err = None"
    using WriteFile_manifest_ok [OF assms(1) [unfolded that]] lasts by (metis insertI1 insertI2 path_Join_def)
qed

end
