(* ===== verification/Remote.thy ===== *)
theory Remote
  imports Fusefs_State
begin

text \<open>
  \<open>internal/remote\<close>: the clients that fetch files, blockmaps, ranges, snapshots and the
  manifest over HTTP, from the archive server (\<open>client.go\<close>) or from a CDN (\<open>cdn.go\<close>), with
  retries and exponential backoff. The transport is a parameter: what the network answers to
  the \<open>n\<close>-th attempt of a request, which may be any response or any error. A response body
  is the bytes it delivers and the error that breaks it off, if one does. Requests carry the
  headers the clients set. Shown: what each operation returns for every answer, that the
  retry loop asks at most \<open>retryCount + 1\<close> times and gives up only when all attempts failed,
  the bounds of its waits, and that whatever the transport delivers, a file that
  \<open>FetchFile\<close> accepts has the hash of its header.
\<close>

section \<open>HTTP\<close>

record http_request =
  req_Method :: string
  req_URL :: string
  req_Range :: "string option"
  req_IfNoneMatch :: "string option"
  req_UserAgent :: "string option"

record http_response =
  StatusCode :: int
  Header :: "string \<rightharpoonup> string"
  Body :: bytes
  BodyErr :: "go_error option"

text \<open>\<open>Header.Get\<close>: the empty string when the header is absent.\<close>

definition Header_Get :: "http_response \<Rightarrow> string \<Rightarrow> string" where
  "Header_Get r k = (case Header r k of None \<Rightarrow> [] | Some v \<Rightarrow> v)"

text \<open>
  What happens around a call: the parser of URLs, the transport's answer to the \<open>n\<close>-th
  attempt, the cancellation of the context during the wait before attempt \<open>n\<close> and its error
  when attempt \<open>n\<close> has failed, and the random numbers of the jitter.
\<close>

record http_env =
  url_error :: "string \<Rightarrow> go_error option"
  transport :: "nat \<Rightarrow> http_request \<Rightarrow> http_response result"
  cancelled_wait :: "nat \<Rightarrow> go_error option"
  cancelled_do :: "nat \<Rightarrow> go_error option"
  rand_Int63n :: "nat \<Rightarrow> int \<Rightarrow> int"

definition NewRequest :: "http_env \<Rightarrow> string \<Rightarrow> string \<Rightarrow> http_request result" where
  "NewRequest env meth url =
     (case url_error env url of
        Some e \<Rightarrow> Inl e
      | None \<Rightarrow> Inr \<lparr>req_Method = meth, req_URL = url, req_Range = None, req_IfNoneMatch = None,
                     req_UserAgent = None\<rparr>)"

text \<open>\<open>io.Copy\<close> from a body, and \<open>io.ReadAll\<close> of a body limited to \<open>n\<close> bytes.\<close>

definition io_Copy :: "http_response \<Rightarrow> write_op" where
  "io_Copy r = w_seq (w_write (Body r)) (case BodyErr r of None \<Rightarrow> w_skip | Some e \<Rightarrow> w_fail e)"

definition ReadAll_limit :: "int \<Rightarrow> http_response \<Rightarrow> bytes result" where
  "ReadAll_limit n r =
     (if n \<le> int (length (Body r)) then Inr (take (nat n) (Body r))
      else case BodyErr r of Some e \<Rightarrow> Inl e | None \<Rightarrow> Inr (Body r))"

definition ErrServerUnavailable :: go_error where
  "ErrServerUnavailable = ErrNew ''archive server unavailable''"

definition remote_ErrHashMismatch :: go_error where
  "remote_ErrHashMismatch = ErrNew ''SHA-256 hash mismatch''"

definition ErrMissingHash :: go_error where
  "ErrMissingHash = ErrNew ''X-SHA256 response header missing''"

definition http_error :: "string \<Rightarrow> int \<Rightarrow> go_error" where
  "http_error s code = Errorf (s @ Itoa code) ErrServerUnavailable"

section \<open>The retry loop\<close>

record HTTPClient =
  baseURL :: string
  retryCount :: int
  retryBaseDelay :: int

text \<open>\<open>strings.TrimRight(s, "/")\<close>\<close>

definition TrimRight_slash :: "string \<Rightarrow> string" where
  "TrimRight_slash s = rev (dropWhile (\<lambda>c. c = CHR ''/'') (rev s))"

definition New_client :: "string \<Rightarrow> int \<Rightarrow> HTTPClient" where
  "New_client url retries =
     \<lparr>baseURL = TrimRight_slash url, retryCount = retries, retryBaseDelay = 1000000000\<rparr>"

definition SetRetryBaseDelay :: "int \<Rightarrow> HTTPClient \<Rightarrow> HTTPClient" where
  "SetRetryBaseDelay d c = c\<lparr>retryBaseDelay := d\<rparr>"

text \<open>
  The wait before attempt \<open>n > 0\<close>: \<open>base * 2 ^ (n - 1)\<close> nanoseconds in 64 bits, and a random
  part of a fifth of it.
\<close>

definition retry_wait :: "http_env \<Rightarrow> int \<Rightarrow> nat \<Rightarrow> int" where
  "retry_wait env delay attempt =
     (let base = wrap64 (wrap64 (2 ^ (attempt - 1)) * delay);
          j = (if base < 0 then - ((- base) div 5) else base div 5);
          jitter = (if j > 0 then rand_Int63n env attempt j else 0)
      in wrap64 (base + jitter))"

text \<open>
  One round of the loop: it returns (a response, or an error that ends the loop), or its
  error is kept and the loop goes on.
\<close>

datatype round = Return "http_response option result" | Continue go_error

definition retry_round :: "http_env \<Rightarrow> http_request result \<Rightarrow> nat \<Rightarrow> round" where
  "retry_round env req attempt =
     (case (if attempt > 0 then cancelled_wait env attempt else None) of
        Some e \<Rightarrow> Return (Inl e)
      | None \<Rightarrow>
          (case req of
             Inl e \<Rightarrow> Return (Inl e)
           | Inr r \<Rightarrow>
               (case transport env attempt (r\<lparr>req_UserAgent := Some ''slimnode''\<rparr>) of
                  Inl e \<Rightarrow> (case cancelled_do env attempt of Some e' \<Rightarrow> Return (Inl e') | None \<Rightarrow> Continue e)
                | Inr resp \<Rightarrow>
                    if StatusCode resp \<ge> 500 then Continue (ErrNew (''server error: '' @ Itoa (StatusCode resp)))
                    else Return (Inr (Some resp)))))"

text \<open>
  The loop over the attempts, with the waits it made. \<open>Inr None\<close> is the answer
  \<open>(nil, nil)\<close> of a loop without any attempt.
\<close>

fun retry_loop ::
  "http_env \<Rightarrow> int \<Rightarrow> http_request result \<Rightarrow> nat \<Rightarrow> nat \<Rightarrow> go_error option
     \<Rightarrow> http_response option result \<times> int list" where
  "retry_loop env delay req 0 attempt lastErr =
     ((case lastErr of None \<Rightarrow> Inr None | Some e \<Rightarrow> Inl e), [])"
| "retry_loop env delay req (Suc left) attempt lastErr =
     (let waits = (if attempt > 0 then [retry_wait env delay attempt] else [])
      in case retry_round env req attempt of
           Return r \<Rightarrow> (r, waits)
         | Continue e \<Rightarrow>
             (case retry_loop env delay req left (Suc attempt) (Some e) of (r, ws) \<Rightarrow> (r, waits @ ws)))"

definition doWithRetry ::
  "http_env \<Rightarrow> HTTPClient \<Rightarrow> http_request result \<Rightarrow> http_response option result \<times> int list" where
  "doWithRetry env c req = retry_loop env (retryBaseDelay c) req (nat (retryCount c + 1)) 0 None"

text \<open>
  What every operation does with the loop's answer: an error is joined to
  \<open>ErrServerUnavailable\<close>, and a nil response panics when its body is to be closed.
\<close>

definition with_response :: "http_response option result \<times> int list \<Rightarrow> (http_response \<Rightarrow> 'a result) \<Rightarrow> 'a result" where
  "with_response a f =
     (case fst a of
        Inl e \<Rightarrow> Inl (errors_Join ErrServerUnavailable e)
      | Inr None \<Rightarrow> Inl (Panic ''nil pointer dereference'')
      | Inr (Some r) \<Rightarrow> f r)"

section \<open>The client of the archive server\<close>

definition stream_verified :: "string \<Rightarrow> http_response \<Rightarrow> write_op" where
  "stream_verified what r w =
     (let expectedHash = Header_Get r ''X-SHA256'' in
      if expectedHash = [] then (Some ErrMissingHash, w)
      else case io_Copy r w of
        (Some e, w') \<Rightarrow> (Some (Errorf (''failed to stream '' @ what) e), w')
      | (None, w') \<Rightarrow>
          if EncodeToString (Sum256 (Body r)) \<noteq> expectedHash then (Some remote_ErrHashMismatch, w') else (None, w'))"

definition fetch_stream :: "http_response option result \<times> int list \<Rightarrow> (http_response \<Rightarrow> write_op) \<Rightarrow> write_op" where
  "fetch_stream a body w =
     (case with_response a (\<lambda>r.
             if StatusCode r = 404 then Inl remote_ErrFileNotFound
             else if StatusCode r \<noteq> 200 then Inl (http_error ''HTTP '' (StatusCode r))
             else Inr r) of
        Inl e \<Rightarrow> (Some e, w)
      | Inr r \<Rightarrow> body r w)"

definition HTTPClient_FetchFile :: "http_env \<Rightarrow> HTTPClient \<Rightarrow> string \<Rightarrow> write_op" where
  "HTTPClient_FetchFile env c filename =
     fetch_stream (doWithRetry env c (NewRequest env ''GET'' (baseURL c @ ''/v1/file/'' @ filename)))
       (stream_verified ''file'')"

definition HTTPClient_FetchSnapshot :: "http_env \<Rightarrow> HTTPClient \<Rightarrow> string \<Rightarrow> write_op" where
  "HTTPClient_FetchSnapshot env c name =
     fetch_stream (doWithRetry env c (NewRequest env ''GET'' (baseURL c @ ''/v1/snapshot/'' @ name)))
       (stream_verified ''snapshot'')"

text \<open>
  The manifest's decoder reads from a stream: it gets the bytes and the error at which the
  stream breaks off.
\<close>

type_synonym 'a json_stream = "go_error option \<Rightarrow> bytes \<Rightarrow> 'a result"

definition manifest_response ::
  "Manifest json_stream \<Rightarrow> string \<Rightarrow> http_response \<Rightarrow> (Manifest option \<times> string) result" where
  "manifest_response dec etag r =
     (if StatusCode r = 304 then Inr (None, etag)
      else if StatusCode r \<noteq> 200 then Inl (http_error ''HTTP '' (StatusCode r))
      else bindE (wrapE ''failed to parse manifest'' (Parse (dec (BodyErr r)) (Body r)))
             (\<lambda>m. Inr (Some m, Header_Get r ''ETag'')))"

definition manifest_request :: "http_env \<Rightarrow> string \<Rightarrow> string \<Rightarrow> http_request result" where
  "manifest_request env url etag =
     bindE (NewRequest env ''GET'' url) (\<lambda>req. Inr (if etag \<noteq> [] then req\<lparr>req_IfNoneMatch := Some etag\<rparr> else req))"

definition HTTPClient_FetchManifest ::
  "http_env \<Rightarrow> Manifest json_stream \<Rightarrow> HTTPClient \<Rightarrow> string \<Rightarrow> (Manifest option \<times> string) result" where
  "HTTPClient_FetchManifest env dec c etag =
     bindE (wrapE ''failed to create manifest request'' (manifest_request env (baseURL c @ ''/v1/manifest'') etag))
       (\<lambda>req. case transport env 0 req of
          Inl e \<Rightarrow> Inl (errors_Join ErrServerUnavailable e)
        | Inr resp \<Rightarrow> manifest_response dec etag resp)"

definition HTTPClient_HealthCheck :: "http_env \<Rightarrow> string json_stream \<Rightarrow> HTTPClient \<Rightarrow> go_error option" where
  "HTTPClient_HealthCheck env dec c =
     (case NewRequest env ''GET'' (baseURL c @ ''/v1/health'') of
        Inl e \<Rightarrow> Some (Errorf ''failed to create health request'' e)
      | Inr req \<Rightarrow>
          (case transport env 0 req of
             Inl e \<Rightarrow> Some (errors_Join ErrServerUnavailable e)
           | Inr resp \<Rightarrow>
               if StatusCode resp \<noteq> 200 then Some (http_error ''HTTP '' (StatusCode resp))
               else (case dec (BodyErr resp) (Body resp) of
                       Inl e \<Rightarrow> Some (Errorf ''failed to decode health response'' e)
                     | Inr status \<Rightarrow>
                         if status \<noteq> ''ok'' then Some (Errorf (''status='' @ status) ErrServerUnavailable)
                         else None)))"

definition maxBlockmapSize :: int where
  "maxBlockmapSize = 67108864"

definition blockmap_response :: "http_response \<Rightarrow> bytes result" where
  "blockmap_response r =
     (if StatusCode r = 404 then Inl remote_ErrFileNotFound
      else if StatusCode r \<noteq> 200 then Inl (http_error ''HTTP '' (StatusCode r))
      else ReadAll_limit maxBlockmapSize r)"

definition HTTPClient_FetchBlockmap :: "http_env \<Rightarrow> HTTPClient \<Rightarrow> string \<Rightarrow> bytes result" where
  "HTTPClient_FetchBlockmap env c filename =
     with_response (doWithRetry env c (NewRequest env ''GET'' (baseURL c @ ''/v1/blockmap/'' @ filename)))
       blockmap_response"

definition range_request :: "http_env \<Rightarrow> string \<Rightarrow> int \<Rightarrow> int \<Rightarrow> http_request result" where
  "range_request env url offset len =
     bindE (NewRequest env ''GET'' url)
       (\<lambda>req. Inr (req\<lparr>req_Range := Some (''bytes='' @ Itoa offset @ ''-'' @ Itoa (wrap64 (wrap64 (offset + len) - 1)))\<rparr>))"

definition range_response :: "int \<Rightarrow> http_response \<Rightarrow> bytes result" where
  "range_response len r =
     (if StatusCode r = 404 then Inl remote_ErrFileNotFound
      else if StatusCode r \<noteq> 206 then Inl (http_error ''expected 206, got HTTP '' (StatusCode r))
      else ReadAll_limit len r)"

definition HTTPClient_FetchBlock :: "http_env \<Rightarrow> HTTPClient \<Rightarrow> string \<Rightarrow> int \<Rightarrow> int \<Rightarrow> bytes result" where
  "HTTPClient_FetchBlock env c filename offset len =
     (if len \<le> 0 then Inl (ErrNew ''FetchBlock: length must be positive'')
      else if offset < 0 then Inl (ErrNew ''FetchBlock: offset must be non-negative'')
      else with_response (doWithRetry env c (range_request env (baseURL c @ ''/v1/file/'' @ filename) offset len))
             (range_response len))"

section \<open>The client of a CDN\<close>

record CDNClient =
  cdn_baseURL :: string
  cdn_retryCount :: int
  cdn_retryBaseDelay :: int

definition NewCDN :: "string \<Rightarrow> int \<Rightarrow> CDNClient" where
  "NewCDN url retries =
     \<lparr>cdn_baseURL = TrimRight_slash url, cdn_retryCount = retries, cdn_retryBaseDelay = 1000000000\<rparr>"

definition CDNClient_SetRetryBaseDelay :: "int \<Rightarrow> CDNClient \<Rightarrow> CDNClient" where
  "CDNClient_SetRetryBaseDelay d c = c\<lparr>cdn_retryBaseDelay := d\<rparr>"

definition CDNClient_doWithRetry ::
  "http_env \<Rightarrow> CDNClient \<Rightarrow> http_request result \<Rightarrow> http_response option result \<times> int list" where
  "CDNClient_doWithRetry env c req =
     retry_loop env (cdn_retryBaseDelay c) req (nat (cdn_retryCount c + 1)) 0 None"

definition CDNClient_FetchFile :: "http_env \<Rightarrow> CDNClient \<Rightarrow> string \<Rightarrow> write_op" where
  "CDNClient_FetchFile env c filename =
     fetch_stream (CDNClient_doWithRetry env c (NewRequest env ''GET'' (cdn_baseURL c @ ''/'' @ filename)))
       (\<lambda>r. w_wrap ''failed to stream file'' (io_Copy r))"

definition CDNClient_FetchManifest ::
  "http_env \<Rightarrow> Manifest json_stream \<Rightarrow> CDNClient \<Rightarrow> string \<Rightarrow> (Manifest option \<times> string) result" where
  "CDNClient_FetchManifest env dec c etag =
     with_response (CDNClient_doWithRetry env c (manifest_request env (cdn_baseURL c @ ''/manifest.json'') etag))
       (manifest_response dec etag)"

definition CDNClient_FetchBlockmap :: "http_env \<Rightarrow> CDNClient \<Rightarrow> string \<Rightarrow> bytes result" where
  "CDNClient_FetchBlockmap env c filename =
     with_response (CDNClient_doWithRetry env c (NewRequest env ''GET'' (cdn_baseURL c @ ''/'' @ filename @ ''.blockmap'')))
       blockmap_response"

definition CDNClient_FetchBlock :: "http_env \<Rightarrow> CDNClient \<Rightarrow> string \<Rightarrow> int \<Rightarrow> int \<Rightarrow> bytes result" where
  "CDNClient_FetchBlock env c filename offset len =
     (if len \<le> 0 then Inl (ErrNew ''FetchBlock: length must be positive'')
      else if offset < 0 then Inl (ErrNew ''FetchBlock: offset must be non-negative'')
      else with_response (CDNClient_doWithRetry env c (range_request env (cdn_baseURL c @ ''/'' @ filename) offset len))
             (range_response len))"

definition CDNClient_HealthCheck :: "http_env \<Rightarrow> CDNClient \<Rightarrow> go_error option" where
  "CDNClient_HealthCheck env c =
     (case NewRequest env ''HEAD'' (cdn_baseURL c) of
        Inl e \<Rightarrow> Some (Errorf ''failed to create health request'' e)
      | Inr req \<Rightarrow>
          (case transport env 0 req of
             Inl e \<Rightarrow> Some (errors_Join ErrServerUnavailable e)
           | Inr resp \<Rightarrow>
               if StatusCode resp \<noteq> 200 then Some (http_error ''HTTP '' (StatusCode resp)) else None))"

text \<open>The two clients as the interface \<open>RemoteClient\<close> of the file system, which reads files into a buffer.\<close>

definition HTTPClient_remote :: "http_env \<Rightarrow> HTTPClient \<Rightarrow> remote" where
  "HTTPClient_remote env c =
     \<lparr>FetchFile = (\<lambda>f. run_buffer (HTTPClient_FetchFile env c f)),
      FetchBlockmap = HTTPClient_FetchBlockmap env c, FetchBlock = HTTPClient_FetchBlock env c\<rparr>"

definition CDNClient_remote :: "http_env \<Rightarrow> CDNClient \<Rightarrow> remote" where
  "CDNClient_remote env c =
     \<lparr>FetchFile = (\<lambda>f. run_buffer (CDNClient_FetchFile env c f)),
      FetchBlockmap = CDNClient_FetchBlockmap env c, FetchBlock = CDNClient_FetchBlock env c\<rparr>"

section \<open>The retry loop: first answer, giving up, waits\<close>

definition sent :: "http_request \<Rightarrow> http_request" where
  "sent rq = rq\<lparr>req_UserAgent := Some ''slimnode''\<rparr>"

text \<open>An attempt that the loop repeats: the transport fails or the server answers 5xx.\<close>

definition attempt_fails :: "http_env \<Rightarrow> http_request \<Rightarrow> nat \<Rightarrow> bool" where
  "attempt_fails env rq i =
     (case transport env i (sent rq) of Inl e \<Rightarrow> True | Inr r \<Rightarrow> StatusCode r \<ge> 500)"

definition never_cancelled :: "http_env \<Rightarrow> bool" where
  "never_cancelled env \<longleftrightarrow> (\<forall>i. cancelled_wait env i = None \<and> cancelled_do env i = None)"

lemma retry_round_answer:
  "retry_round env req i = Return (Inr a) \<longleftrightarrow>
     (\<exists>rq r. req = Inr rq \<and> a = Some r \<and> transport env i (sent rq) = Inr r \<and> StatusCode r < 500
        \<and> (0 < i \<longrightarrow> cancelled_wait env i = None))"
  by (auto simp: retry_round_def sent_def split: option.split sum.split)

lemma retry_loop_answer:
  assumes "fst (retry_loop env delay req n k le) = Inr (Some r)"
  shows "\<exists>rq i. req = Inr rq \<and> k \<le> i \<and> i < k + n \<and> transport env i (sent rq) = Inr r \<and> StatusCode r < 500"
  using assms
proof (induction n arbitrary: k le)
  case 0
  then show ?case by (simp split: option.splits)
next
  case (Suc n)
  show ?case
  proof (cases "retry_round env req k")
    case (Return a)
    with Suc.prems have "retry_round env req k = Return (Inr (Some r))" by (simp add: Let_def)
    then show ?thesis unfolding retry_round_answer by fastforce
  next
    case (Continue e)
    with Suc.prems have "fst (retry_loop env delay req n (Suc k) (Some e)) = Inr (Some r)"
      by (simp add: Let_def case_prod_beta)
    from Suc.IH [OF this] show ?thesis by (metis Suc_leD add_Suc_shift)
  qed
qed

text \<open>The error an attempt leaves.\<close>

definition attempt_error :: "http_env \<Rightarrow> http_request \<Rightarrow> nat \<Rightarrow> go_error" where
  "attempt_error env rq i =
     (case transport env i (sent rq) of
        Inl e \<Rightarrow> e
      | Inr r \<Rightarrow> ErrNew (''server error: '' @ Itoa (StatusCode r)))"

lemma retry_round_fails_with:
  assumes "never_cancelled env" "attempt_fails env rq k"
  shows "retry_round env (Inr rq) k = Continue (attempt_error env rq k)"
proof -
  have "cancelled_wait env k = None" "cancelled_do env k = None" using assms(1) by (auto simp: never_cancelled_def)
  then show ?thesis
    using assms(2) by (cases k) (auto simp: attempt_fails_def attempt_error_def retry_round_def sent_def split: sum.splits)
qed

lemma retry_loop_skip:
  assumes "never_cancelled env" "attempt_fails env rq k"
  obtains e where "retry_loop env delay (Inr rq) (Suc n) k le =
     (fst (retry_loop env delay (Inr rq) n (Suc k) (Some e)),
      (if k > 0 then [retry_wait env delay k] else []) @ snd (retry_loop env delay (Inr rq) n (Suc k) (Some e)))"
  using that [of "attempt_error env rq k"] retry_round_fails_with [OF assms] by (simp add: Let_def case_prod_beta)

lemma retry_loop_first:
  assumes "never_cancelled env" "\<forall>j < i. attempt_fails env rq (k + j)" "i < n"
    and "transport env (k + i) (sent rq) = Inr r" "StatusCode r < 500"
  shows "retry_loop env delay (Inr rq) n k le =
    (Inr (Some r), map (retry_wait env delay) (filter (\<lambda>a. 0 < a) [k ..< Suc (k + i)]))"
  using assms
proof (induction i arbitrary: k n le)
  case 0
  then obtain m where "n = Suc m" by (cases n) auto
  moreover have "retry_round env (Inr rq) k = Return (Inr (Some r))"
    using 0 by (auto simp: retry_round_answer never_cancelled_def)
  ultimately show ?case by (simp add: Let_def)
next
  case (Suc i)
  then obtain m where n: "n = Suc m" by (cases n) auto
  have "attempt_fails env rq k" using Suc.prems(2) by (metis add.right_neutral zero_less_Suc)
  then obtain e where
    e: "retry_loop env delay (Inr rq) n k le =
     (fst (retry_loop env delay (Inr rq) m (Suc k) (Some e)),
      (if k > 0 then [retry_wait env delay k] else []) @ snd (retry_loop env delay (Inr rq) m (Suc k) (Some e)))"
    unfolding n by (rule retry_loop_skip [OF Suc.prems(1)])
  have "retry_loop env delay (Inr rq) m (Suc k) (Some e) =
      (Inr (Some r), map (retry_wait env delay) (filter (\<lambda>a. 0 < a) [Suc k ..< Suc (Suc k + i)]))"
    using Suc.prems n by (intro Suc.IH) (auto dest: spec [where x = "Suc _"])
  moreover have "[k ..< Suc (k + Suc i)] = k # [Suc k ..< Suc (Suc k + i)]"
    by (simp add: upt_rec)
  ultimately show ?case unfolding e by (auto simp del: upt_Suc)
qed

lemma retry_loop_gives_up:
  assumes "never_cancelled env" "\<forall>j < Suc n. attempt_fails env rq (k + j)"
  shows "retry_loop env delay (Inr rq) (Suc n) k le =
    (Inl (attempt_error env rq (k + n)), map (retry_wait env delay) (filter (\<lambda>a. 0 < a) [k ..< Suc (k + n)]))"
  using assms
proof (induction n arbitrary: k le)
  case 0
  then show ?case using retry_round_fails_with [of env rq k] by (simp add: Let_def)
next
  case (Suc n)
  have "attempt_fails env rq k" using Suc.prems(2) by (metis add.right_neutral zero_less_Suc)
  then have "retry_round env (Inr rq) k = Continue (attempt_error env rq k)"
    using retry_round_fails_with [OF Suc.prems(1)] by blast
  moreover have "\<forall>j < Suc n. attempt_fails env rq (Suc k + j)"
    using Suc.prems(2) by (metis Suc_mono add_Suc_shift)
  moreover have "[k ..< Suc (k + Suc n)] = k # [Suc k ..< Suc (Suc k + n)]" by (simp add: upt_rec)
  ultimately show ?case
    using Suc.IH [OF Suc.prems(1), of "Suc k" "Some (attempt_error env rq k)"]
    by (auto simp: Let_def retry_loop.simps(2) [of env delay _ "Suc n"] simp del: retry_loop.simps upt_Suc)
qed

text \<open>At most one wait per attempt after the first, each for the attempt it precedes.\<close>

lemma retry_loop_waits:
  "\<exists>m \<le> n. snd (retry_loop env delay req n k le) = map (retry_wait env delay) (filter (\<lambda>a. 0 < a) [k ..< k + m])"
proof (induction n arbitrary: k le)
  case 0
  show ?case by simp
next
  case (Suc n)
  let ?w = "if k > 0 then [retry_wait env delay k] else []"
  have one: "?w = map (retry_wait env delay) (filter (\<lambda>a. 0 < a) [k ..< k + 1])" by simp
  have more: "\<exists>m \<le> Suc n. ?w @ snd (retry_loop env delay req n (Suc k) (Some e)) =
      map (retry_wait env delay) (filter (\<lambda>a. 0 < a) [k ..< k + m])" for e
  proof -
    obtain m where "m \<le> n" and m: "snd (retry_loop env delay req n (Suc k) (Some e)) =
        map (retry_wait env delay) (filter (\<lambda>a. 0 < a) [Suc k ..< Suc k + m])"
      using Suc.IH [of "Suc k" "Some e"] by blast
    moreover have "[k ..< k + Suc m] = k # [Suc k ..< Suc k + m]" by (simp add: upt_rec)
    ultimately show ?thesis by (intro exI [where x = "Suc m"]) (auto simp del: upt_Suc)
  qed
  have "snd (retry_loop env delay req (Suc n) k le) = ?w
      \<or> (\<exists>e. snd (retry_loop env delay req (Suc n) k le) = ?w @ snd (retry_loop env delay req n (Suc k) (Some e)))"
    by (cases "retry_round env req k") (auto simp: Let_def case_prod_beta)
  then show ?case
  proof
    assume "snd (retry_loop env delay req (Suc n) k le) = ?w"
    then show ?thesis using one by (intro exI [where x = 1]) simp
  qed (use more in force)
qed

section \<open>Clients over a retrying transport\<close>

text \<open>
  What the operations of both clients rely on: an answer is the transport's answer to one of
  the attempts, the first attempt that does not fail is the answer, and when all fail the
  error is the last one.
\<close>

locale retrying =
  fixes ask :: "http_env \<Rightarrow> http_request result \<Rightarrow> http_response option result \<times> int list"
    and last_try :: nat
  assumes ask_answer: "fst (ask env req) = Inr (Some r) \<Longrightarrow>
      \<exists>rq i. req = Inr rq \<and> i \<le> last_try \<and> transport env i (sent rq) = Inr r \<and> StatusCode r < 500"
    and ask_first: "never_cancelled env \<Longrightarrow> i \<le> last_try \<Longrightarrow> \<forall>j < i. attempt_fails env rq j \<Longrightarrow>
      transport env i (sent rq) = Inr r \<Longrightarrow> StatusCode r < 500 \<Longrightarrow> fst (ask env (Inr rq)) = Inr (Some r)"
    and ask_gives_up: "never_cancelled env \<Longrightarrow> \<forall>j \<le> last_try. attempt_fails env rq j \<Longrightarrow>
      fst (ask env (Inr rq)) = Inl (attempt_error env rq last_try)"
begin

lemma answered:
  assumes "with_response (ask env req) f = Inr y"
  shows "\<exists>rq i r. req = Inr rq \<and> i \<le> last_try \<and> transport env i (sent rq) = Inr r \<and> f r = Inr y"
proof -
  obtain r where "fst (ask env req) = Inr (Some r)" "f r = Inr y"
    using assms by (auto simp: with_response_def split: sum.splits option.splits)
  then show ?thesis using ask_answer by blast
qed

lemma first_answer:
  assumes "never_cancelled env" "i \<le> last_try" "\<forall>j < i. attempt_fails env rq j"
    and "transport env i (sent rq) = Inr r" "StatusCode r < 500"
  shows "with_response (ask env (Inr rq)) f = f r"
  using ask_first [OF assms] by (simp add: with_response_def)

lemma unavailable:
  assumes "never_cancelled env" "\<forall>j \<le> last_try. attempt_fails env rq j"
  shows "with_response (ask env (Inr rq)) f = Inl (errors_Join ErrServerUnavailable (attempt_error env rq last_try))"
  using ask_gives_up [OF assms] by (simp add: with_response_def)

text \<open>A range that is returned is what a 206 answer to the range request carried, cut to the length.\<close>

lemma range_from_transport:
  assumes "with_response (ask env (range_request env url x n)) (range_response n) = Inr data"
  shows "\<exists>rq i r. range_request env url x n = Inr rq \<and> i \<le> last_try \<and> transport env i (sent rq) = Inr r
    \<and> StatusCode r = 206 \<and> data = take (nat n) (Body r) \<and> (BodyErr r = None \<or> n \<le> int (length (Body r)))"
  using answered [OF assms]
  by (fastforce simp: range_response_def ReadAll_limit_def split: if_splits option.splits)

text \<open>A download that succeeds wrote the whole body of a 200 answer to the request.\<close>

lemma stream_from_transport:
  assumes "fetch_stream (ask env req) body w = (None, w')"
  shows "\<exists>rq i r. req = Inr rq \<and> i \<le> last_try \<and> transport env i (sent rq) = Inr r
    \<and> StatusCode r = 200 \<and> body r w = (None, w')"
proof -
  obtain r where "with_response (ask env req) (\<lambda>r. if StatusCode r = 404 then Inl remote_ErrFileNotFound
      else if StatusCode r \<noteq> 200 then Inl (http_error ''HTTP '' (StatusCode r)) else Inr r) = Inr r" "body r w = (None, w')"
    using assms by (auto simp: fetch_stream_def split: sum.splits)
  then show ?thesis using answered by (fastforce split: if_splits)
qed

end

lemma retry_loop_retrying:
  assumes "0 \<le> n"
  shows "retrying (\<lambda>env req. retry_loop env delay req (nat (n + 1)) 0 None) (nat n)"
proof -
  have n: "nat (n + 1) = Suc (nat n)" using assms by simp
  show ?thesis
  proof (unfold_locales, unfold n)
    fix env req r
    assume "fst (retry_loop env delay req (Suc (nat n)) 0 None) = Inr (Some r)"
    from retry_loop_answer [OF this] show "\<exists>rq i. req = Inr rq \<and> i \<le> nat n
        \<and> transport env i (sent rq) = Inr r \<and> StatusCode r < 500" by (auto simp: less_Suc_eq_le)
  next
    fix env i rq r
    assume "never_cancelled env" "i \<le> nat n" "\<forall>j < i. attempt_fails env rq j"
      "transport env i (sent rq) = Inr r" "StatusCode r < 500"
    then show "fst (retry_loop env delay (Inr rq) (Suc (nat n)) 0 None) = Inr (Some r)"
      using retry_loop_first [of env i rq 0 "Suc (nat n)" r delay None] by simp
  next
    fix env rq
    assume "never_cancelled env" "\<forall>j \<le> nat n. attempt_fails env rq j"
    then show "fst (retry_loop env delay (Inr rq) (Suc (nat n)) 0 None) = Inl (attempt_error env rq (nat n))"
      using retry_loop_gives_up [of env "nat n" rq 0 delay None] by (simp add: less_Suc_eq_le)
  qed
qed

text \<open>The two clients, with their configured number of retries (a negative one counts as none here).\<close>

interpretation http: retrying "\<lambda>env. doWithRetry env (c\<lparr>retryCount := int k\<rparr>)" k for c k
  unfolding doWithRetry_def using retry_loop_retrying [of "int k" "retryBaseDelay c"] by simp

interpretation cdn: retrying "\<lambda>env. CDNClient_doWithRetry env (c\<lparr>cdn_retryCount := int k\<rparr>)" k for c k
  unfolding CDNClient_doWithRetry_def using retry_loop_retrying [of "int k" "cdn_retryBaseDelay c"] by simp

lemma client_tries: "0 \<le> retryCount c \<Longrightarrow> c\<lparr>retryCount := int (nat (retryCount c))\<rparr> = c"
  by simp

lemma cdn_tries: "0 \<le> cdn_retryCount c \<Longrightarrow> c\<lparr>cdn_retryCount := int (nat (cdn_retryCount c))\<rparr> = c"
  by simp

lemma io_Copy_None:
  "io_Copy r w = (None, w') \<Longrightarrow> written w' = written w @ Body r \<and> BodyErr r = None"
  by (auto simp: io_Copy_def w_seq_def w_skip_def w_fail_def w_write_def split: option.splits if_splits)

section \<open>Waiting\<close>

lemma retry_wait_bounds:
  assumes "0 \<le> delay" "0 < n" "6 * (delay * 2 ^ (n - 1)) < 5 * 2 ^ 63" "delay > 0"
    and "\<forall>j. 0 < j \<longrightarrow> 0 \<le> rand_Int63n env n j \<and> rand_Int63n env n j < j"
  shows "delay * 2 ^ (n - 1) \<le> retry_wait env delay n \<and> 5 * retry_wait env delay n \<le> 6 * (delay * 2 ^ (n - 1))"
proof -
  define b where "b = delay * 2 ^ (n - 1)"
  have "(2 :: int) ^ (n - 1) \<le> b" unfolding b_def using assms(4) by simp
  moreover have b: "0 \<le> b" "6 * b < 5 * 2 ^ 63" using assms(1,3) by (simp_all add: b_def)
  ultimately have p: "wrap64 (2 ^ (n - 1)) = 2 ^ (n - 1)"
    using zero_le_power [of "2 :: int" "n - 1"] by (intro wrap64_id) (unfold in_int64_def, linarith)
  have base: "wrap64 (wrap64 (2 ^ (n - 1)) * delay) = b"
    unfolding p using b by (simp add: b_def mult.commute in_int64_def)
  define j where "j = b div 5"
  define jit where "jit = (if j > 0 then rand_Int63n env n j else 0)"
  have jit: "0 \<le> jit" "5 * jit \<le> b"
    using assms(5) b by (auto simp: jit_def j_def dest: spec [where x = "b div 5"])
  have "retry_wait env delay n = wrap64 (b + jit)"
    unfolding retry_wait_def base Let_def jit_def j_def using b by simp
  also have "\<dots> = b + jit" using jit b by (intro wrap64_id) (simp add: in_int64_def)
  finally show ?thesis using jit by (simp add: b_def)
qed

lemma filter_pos_upt: "filter (\<lambda>a. 0 < a) [0 ..< m] = [1 ..< m]"
  by (induction m) auto

lemma sum_doubling: "(\<Sum>i \<leftarrow> [1 ..< Suc n]. (delay :: int) * 2 ^ (i - 1)) = delay * (2 ^ n - 1)"
  by (induction n) (simp_all add: algebra_simps)

section \<open>Properties\<close>

text \<open>
  C16. The outcome of a request with retries, in full: the answer to the first attempt that
  neither fails in the transport nor is a 5xx, after exactly the waits before the attempts
  made, or, when the configured number of retries is used up, the error of the last attempt.
\<close>

theorem retry_outcome:
  assumes "never_cancelled env" "0 \<le> retryCount c"
  shows "doWithRetry env c (Inr rq) =
    (case find (\<lambda>i. \<not> attempt_fails env rq i) [0 ..< nat (retryCount c) + 1] of
       Some i \<Rightarrow> (map_sum id Some (transport env i (sent rq)), map (retry_wait env (retryBaseDelay c)) [1 ..< Suc i])
     | None \<Rightarrow> (Inl (attempt_error env rq (nat (retryCount c))),
               map (retry_wait env (retryBaseDelay c)) [1 ..< Suc (nat (retryCount c))]))"
proof -
  have n: "nat (retryCount c + 1) = Suc (nat (retryCount c))" using assms(2) by simp
  show ?thesis
  proof (cases "find (\<lambda>i. \<not> attempt_fails env rq i) [0 ..< nat (retryCount c) + 1]")
    case None
    then have "\<forall>j < Suc (nat (retryCount c)). attempt_fails env rq (0 + j)"
      by (auto simp: find_None_iff simp del: upt_Suc)
    from retry_loop_gives_up [OF assms(1) this] show ?thesis
      unfolding doWithRetry_def n None by (simp add: filter_pos_upt del: upt_Suc retry_loop.simps)
  next
    case (Some i)
    then have i: "i < Suc (nat (retryCount c))" "\<not> attempt_fails env rq i" "\<forall>j < i. attempt_fails env rq (0 + j)"
      by (auto simp: find_Some_iff simp del: upt_Suc)
    then obtain r where "transport env (0 + i) (sent rq) = Inr r" "StatusCode r < 500"
      by (auto simp: attempt_fails_def split: sum.splits)
    from retry_loop_first [OF assms(1) i(3,1) this] this(1) show ?thesis
      unfolding doWithRetry_def n Some by (simp add: filter_pos_upt del: upt_Suc retry_loop.simps)
  qed
qed

definition example_response :: "int \<Rightarrow> bytes \<Rightarrow> http_response" where
  "example_response code data = \<lparr>StatusCode = code,
     Header = [''X-SHA256'' \<mapsto> EncodeToString (Sum256 data)], Body = data, BodyErr = None\<rparr>"

text \<open>A server that answers 503 twice and then delivers.\<close>

definition example_net :: "int \<Rightarrow> bytes \<Rightarrow> http_env" where
  "example_net code data = \<lparr>url_error = (\<lambda>_. None),
     transport = (\<lambda>i _. Inr (if i < 2 then example_response 503 [] else example_response code data)),
     cancelled_wait = (\<lambda>_. None), cancelled_do = (\<lambda>_. None), rand_Int63n = (\<lambda>_ _. 0)\<rparr>"

lemma example_net_simps [simp]:
  "never_cancelled (example_net code data)"
  "attempt_fails (example_net code data) rq i \<longleftrightarrow> i < 2 \<or> 500 \<le> code"
  "NewRequest (example_net code data) m u = Inr \<lparr>req_Method = m, req_URL = u, req_Range = None,
     req_IfNoneMatch = None, req_UserAgent = None\<rparr>"
  by (auto simp: never_cancelled_def attempt_fails_def example_net_def example_response_def NewRequest_def)

theorem retry_outcome_witness:
  "doWithRetry (example_net 206 [7, 8]) (New_client ''http://a/'' 3) (NewRequest (example_net 206 [7, 8]) ''GET'' ''u'') =
     (Inr (Some (example_response 206 [7, 8])), [1000000000, 2000000000])"
proof -
  have w: "map (retry_wait (example_net 206 [7, 8]) 1000000000) [1 ..< Suc 2] = [1000000000, 2000000000]"
    by (simp add: retry_wait_def example_net_def Let_def wrap64_def numeral_2_eq_2)
  let ?env = "example_net 206 [7, 8]" and ?c = "New_client ''http://a/'' 3"
  have f: "find (\<lambda>i. \<not> attempt_fails ?env rq i) [0 ..< nat (retryCount ?c) + 1] = Some 2" for rq
    by (simp add: New_client_def upt_rec)
  have t: "transport ?env 2 rq = Inr (example_response 206 [7, 8])" for rq by (simp add: example_net_def)
  have nc: "never_cancelled ?env" and rc: "0 \<le> retryCount ?c" and d: "retryBaseDelay ?c = 1000000000"
    by (simp_all add: New_client_def)
  show ?thesis
    unfolding example_net_simps(3)
    by (simp only: retry_outcome [OF nc rc] f option.case t map_sum.simps d w)
qed

text \<open>
  C31. The time spent waiting between attempts is bounded: the \<open>k\<close>-th wait is at least the base
  delay doubled \<open>k - 1\<close> times and at most a fifth more, so that all of them together are at
  most 1.2 times the base delay times \<open>2 ^ retryCount - 1\<close>; no wait overflows.
\<close>

theorem retry_waits_bounded:
  assumes "0 < retryBaseDelay c" "0 \<le> retryCount c"
    and "6 * (retryBaseDelay c * 2 ^ nat (retryCount c)) < 5 * 2 ^ 63"
    and "\<forall>n j. 0 < j \<longrightarrow> 0 \<le> rand_Int63n env n j \<and> rand_Int63n env n j < j"
  shows "(\<forall>k < length (snd (doWithRetry env c req)).
      retryBaseDelay c * 2 ^ k \<le> snd (doWithRetry env c req) ! k
      \<and> 5 * snd (doWithRetry env c req) ! k \<le> 6 * (retryBaseDelay c * 2 ^ k))
    \<and> length (snd (doWithRetry env c req)) \<le> nat (retryCount c)
    \<and> 5 * sum_list (snd (doWithRetry env c req)) \<le> 6 * (retryBaseDelay c * (2 ^ nat (retryCount c) - 1))"
proof -
  let ?d = "retryBaseDelay c" and ?n = "nat (retryCount c)"
  have n: "nat (retryCount c + 1) = Suc ?n" using assms(2) by simp
  obtain m0 where m0: "m0 \<le> Suc ?n"
    and ws0: "snd (doWithRetry env c req) = map (retry_wait env ?d) (filter (\<lambda>a. 0 < a) [0 ..< 0 + m0])"
    unfolding doWithRetry_def n using retry_loop_waits by blast
  define m where "m = m0 - 1"
  have "[1 ..< m0] = [1 ..< Suc m]" unfolding m_def by (cases m0) (simp_all del: upt_Suc)
  then have ws: "snd (doWithRetry env c req) = map (retry_wait env ?d) [1 ..< Suc m]" and m: "m \<le> ?n"
    using ws0 m0 by (simp_all add: m_def filter_pos_upt del: upt_Suc)
  have mono: "?d * 2 ^ k \<le> ?d * 2 ^ ?n" if "k \<le> ?n" for k
    using that assms(1) by (simp add: power_increasing)
  have b: "?d * 2 ^ k \<le> retry_wait env ?d (Suc k) \<and> 5 * retry_wait env ?d (Suc k) \<le> 6 * (?d * 2 ^ k)" if "k < m" for k
  proof -
    have "?d * 2 ^ k \<le> ?d * 2 ^ ?n" using that m mono [of k] by linarith
    then have "6 * (?d * 2 ^ k) < 5 * 2 ^ 63" using assms(3) by linarith
    then show ?thesis using retry_wait_bounds [of ?d "Suc k" env] assms(1,4) by simp
  qed
  have "(\<Sum>w \<leftarrow> map (\<lambda>i. 5 * retry_wait env ?d i) [1 ..< Suc m]. w) \<le> (\<Sum>i \<leftarrow> [1 ..< Suc m]. 6 * (?d * 2 ^ (i - 1)))"
    unfolding map_map comp_def
  proof (intro sum_list_mono)
    fix i
    assume "i \<in> set [1 ..< Suc m]"
    then have "1 \<le> i" "i < Suc m" by (simp_all del: upt_Suc)
    then obtain k where "i = Suc k" "k < m" by (cases i) auto
    then show "5 * retry_wait env ?d i \<le> 6 * (?d * 2 ^ (i - 1))" using b by simp
  qed
  also have "\<dots> = 6 * (\<Sum>i \<leftarrow> [1 ..< Suc m]. ?d * 2 ^ (i - 1))" by (simp add: sum_list_const_mult)
  also have "\<dots> = 6 * (?d * (2 ^ m - 1))" by (simp only: sum_doubling)
  also have "\<dots> \<le> 6 * (?d * (2 ^ ?n - 1))"
  proof -
    have "(2 :: int) ^ m - 1 \<le> 2 ^ ?n - 1" using power_increasing [OF m, of "2 :: int"] by linarith
    then show ?thesis using assms(1) by (intro mult_left_mono) simp_all
  qed
  finally have "5 * sum_list (snd (doWithRetry env c req)) \<le> 6 * (?d * (2 ^ ?n - 1))"
    unfolding ws by (simp add: sum_list_const_mult del: upt_Suc)
  then show ?thesis using b m unfolding ws by (simp del: upt_Suc)
qed

theorem retry_waits_bounded_witness:
  "5 * sum_list (snd (doWithRetry (example_net 500 []) (New_client ''http://a/'' 3)
     (NewRequest (example_net 500 []) ''GET'' ''u''))) \<le> 6 * (1000000000 * 7)"
  using retry_waits_bounded [of "New_client ''http://a/'' 3" "example_net 500 []"
      "NewRequest (example_net 500 []) ''GET'' ''u''"]
  by (simp add: New_client_def example_net_def)

text \<open>
  Whatever the network delivers, a file that the client of the archive server accepts is
  complete and has the SHA-256 that the server announced: it is the whole body of a 200
  answer to one of the attempts, and nothing but it was written.
\<close>

theorem fetched_hash_verified:
  assumes "HTTPClient_FetchFile env c f w = (None, w')" "0 \<le> retryCount c"
  shows "\<exists>i rq r. int i \<le> retryCount c \<and> req_URL rq = baseURL c @ ''/v1/file/'' @ f \<and> transport env i rq = Inr r
    \<and> StatusCode r = 200 \<and> BodyErr r = None \<and> written w' = written w @ Body r
    \<and> Header r ''X-SHA256'' = Some (EncodeToString (Sum256 (Body r)))"
proof -
  let ?req = "NewRequest env ''GET'' (baseURL c @ ''/v1/file/'' @ f)"
  obtain rq i r where a: "?req = Inr rq" "i \<le> nat (retryCount c)" "transport env i (sent rq) = Inr r"
      "StatusCode r = 200" "stream_verified ''file'' r w = (None, w')"
    using http.stream_from_transport [where c = c and k = "nat (retryCount c)" and env = env and req = ?req
        and body = "stream_verified ''file''" and w = w and w' = w']
      assms by (auto simp: HTTPClient_FetchFile_def)
  have h: "Header_Get r ''X-SHA256'' \<noteq> []" "io_Copy r w = (None, w')"
    "EncodeToString (Sum256 (Body r)) = Header_Get r ''X-SHA256''"
    using a(5) by (auto simp: stream_verified_def Let_def split: if_splits prod.splits option.splits)
  then have "Header r ''X-SHA256'' = Some (EncodeToString (Sum256 (Body r)))"
    by (auto simp: Header_Get_def split: option.splits)
  moreover have "req_URL (sent rq) = baseURL c @ ''/v1/file/'' @ f"
    using a(1) by (auto simp: NewRequest_def sent_def split: option.splits)
  ultimately show ?thesis using a(2-4) io_Copy_None [OF h(2)] assms(2) by (metis le_nat_iff)
qed

theorem fetched_hash_verified_witness:
  "\<exists>i rq r. int i \<le> 3 \<and> transport (example_net 200 [7, 8]) i rq = Inr r \<and> Body r = [7, 8]
     \<and> Header r ''X-SHA256'' = Some (EncodeToString (Sum256 [7, 8]))"
proof -
  let ?env = "example_net 200 [7, 8]" and ?c = "New_client ''http://a/'' 3"
    and ?w = "\<lparr>written = [], room = None\<rparr>"
  have ne: "EncodeToString (Sum256 [7, 8]) \<noteq> []"
    by (metis length_EncodeToString length_Sum256 list.size(3) mult_eq_0_iff zero_neq_numeral)
  have t: "transport ?env 2 rq = Inr (example_response 200 [7, 8])" for rq by (simp add: example_net_def)
  have "fst (doWithRetry ?env ?c (NewRequest ?env ''GET'' u)) = Inr (Some (example_response 200 [7, 8]))" for u
    using http.ask_first [where c = ?c and k = 3 and i = 2 and env = ?env and r = "example_response 200 [7, 8]"] t
    by (simp add: New_client_def example_response_def)
  then have "HTTPClient_FetchFile ?env ?c ''f'' ?w = (None, \<lparr>written = [7, 8], room = None\<rparr>)"
    using ne by (simp add: HTTPClient_FetchFile_def fetch_stream_def with_response_def stream_verified_def
        example_response_def Header_Get_def io_Copy_def w_seq_def w_write_def w_skip_def Let_def)
  from fetched_hash_verified [OF this] obtain i rq r where "int i \<le> retryCount ?c" "transport ?env i rq = Inr r"
      "Body r = [7, 8]" "Header r ''X-SHA256'' = Some (EncodeToString (Sum256 (Body r)))"
    by (auto simp: New_client_def)
  moreover have "retryCount ?c = 3" by (simp add: New_client_def)
  ultimately show ?thesis by metis
qed



end
