(* ===== verification/Server_Http.thy ===== *)
theory Server_Http
  imports Server_Gen Remote Fusefs_Read
begin

text \<open>
  The archive server (\<open>internal/server/serve.go\<close>): its state, loading and reloading the
  manifest, the handlers of its five routes, and what they use of \<open>net/http\<close> (error
  replies, \<open>ServeContent\<close> with byte ranges, \<open>ServeFile\<close>, the routing of paths). A handler is a
  function from the state, the disk and the request to the response. Requests carry no other
  headers than those of \<^typ>\<open>http_request\<close>, so \<open>ServeContent\<close> sees no precondition; the
  multipart answer to a request for several ranges is a parameter. A read error while a body is
  sent breaks the response off. Shown: a request for a range is answered with exactly that
  range, the manifest's entity tag is sound, and a client connected to the server through a
  network that may fail at any point gets the server's files or an error.
\<close>

section \<open>net/http\<close>

definition string_bytes :: "string \<Rightarrow> bytes" where
  "string_bytes s = map of_char s"

definition http_Error :: "string \<Rightarrow> int \<Rightarrow> http_response" where
  "http_Error msg code = \<lparr>StatusCode = code, Header = [''Content-Type'' \<mapsto> ''text/plain; charset=utf-8''],
     Body = string_bytes (msg @ [CHR 0x0A]), BodyErr = None\<rparr>"

text \<open>\<open>textproto.TrimString\<close>, and \<open>strings.Cut\<close> and \<open>strings.Split\<close> at a character.\<close>

definition ascii_space :: "char \<Rightarrow> bool" where
  "ascii_space c \<longleftrightarrow> c \<in> {CHR '' '', CHR 0x09, CHR 0x0A, CHR 0x0D}"

definition TrimString :: "string \<Rightarrow> string" where
  "TrimString s = rev (dropWhile ascii_space (rev (dropWhile ascii_space s)))"

definition Cut :: "char \<Rightarrow> string \<Rightarrow> (string \<times> string) option" where
  "Cut c s = (if c \<in> set s
     then Some (takeWhile (\<lambda>x. x \<noteq> c) s, tl (dropWhile (\<lambda>x. x \<noteq> c) s)) else None)"

fun Split :: "char \<Rightarrow> string \<Rightarrow> string list" where
  "Split c [] = [[]]"
| "Split c (x # s) = (if x = c then [] # Split c s else (x # hd (Split c s)) # tl (Split c s))"

text \<open>
  \<open>parseRange\<close> of \<open>net/http\<close>: each range as its start and length. \<open>None\<close> for a range that
  starts behind the end, which is skipped; the error says whether any was skipped.
\<close>

datatype range_error = InvalidRange | NoOverlap

definition parse_range_spec :: "int \<Rightarrow> string \<Rightarrow> range_error + (int \<times> int) option" where
  "parse_range_spec sz ra =
     (case Cut CHR ''-'' ra of
        None \<Rightarrow> Inl InvalidRange
      | Some (a, b) \<Rightarrow>
          let start = TrimString a; end_str = TrimString b in
          if start = [] then
            (if end_str = [] \<or> hd end_str = CHR ''-'' then Inl InvalidRange
             else case ParseInt end_str of
               None \<Rightarrow> Inl InvalidRange
             | Some i \<Rightarrow> if i < 0 then Inl InvalidRange
                         else let i' = min i sz in Inr (Some (sz - i', i')))
          else
            (case ParseInt start of
               None \<Rightarrow> Inl InvalidRange
             | Some i \<Rightarrow>
                 if i < 0 then Inl InvalidRange
                 else if i \<ge> sz then Inr None
                 else if end_str = [] then Inr (Some (i, sz - i))
                 else (case ParseInt end_str of
                         None \<Rightarrow> Inl InvalidRange
                       | Some j \<Rightarrow> if i > j then Inl InvalidRange
                                   else Inr (Some (i, (if j \<ge> sz then sz - 1 else j) - i + 1)))))"

fun parse_range_specs :: "int \<Rightarrow> string list \<Rightarrow> range_error + (int \<times> int) option list" where
  "parse_range_specs sz [] = Inr []"
| "parse_range_specs sz (s # ss) =
     (if TrimString s = [] then parse_range_specs sz ss
      else case parse_range_spec sz (TrimString s) of
        Inl e \<Rightarrow> Inl e
      | Inr r \<Rightarrow> (case parse_range_specs sz ss of Inl e \<Rightarrow> Inl e | Inr rs \<Rightarrow> Inr (r # rs)))"

definition parseRange :: "string \<Rightarrow> int \<Rightarrow> range_error + (int \<times> int) list" where
  "parseRange s sz =
     (if s = [] then Inr []
      else if \<not> HasPrefix s ''bytes='' then Inl InvalidRange
      else case parse_range_specs sz (Split CHR '','' (drop 6 s)) of
        Inl e \<Rightarrow> Inl e
      | Inr rs \<Rightarrow> let ranges = List.map_filter id rs
                   in if None \<in> set rs \<and> ranges = [] then Inl NoOverlap else Inr ranges)"

text \<open>
  \<open>http.ServeContent\<close>, with the headers set so far. \<open>multi\<close> is the answer to several ranges.
\<close>

definition content_response ::
  "io_env \<Rightarrow> string \<Rightarrow> (string \<rightharpoonup> string) \<Rightarrow> int \<Rightarrow> bytes \<Rightarrow> int \<Rightarrow> int \<Rightarrow> http_response" where
  "content_response env path hdr code content off n =
     (let body = slice (nat off) (nat n) content in
      case fault env (SysReadAt path (nat off)) of
        None \<Rightarrow> \<lparr>StatusCode = code, Header = hdr, Body = body, BodyErr = None\<rparr>
      | Some e \<Rightarrow> \<lparr>StatusCode = code, Header = hdr, Body = [], BodyErr = Some ErrUnexpectedEOF\<rparr>)"

definition ServeContent ::
  "(bytes \<Rightarrow> (int \<times> int) list \<Rightarrow> http_response) \<Rightarrow> io_env \<Rightarrow> string \<Rightarrow> (string \<rightharpoonup> string) \<Rightarrow> http_request \<Rightarrow> bytes
     \<Rightarrow> http_response" where
  "ServeContent multi env path hdr r content =
     (let sz = int (length content);
          whole = content_response env path hdr 200 content 0 sz
      in case parseRange (case req_Range r of None \<Rightarrow> [] | Some s \<Rightarrow> s) sz of
           Inl NoOverlap \<Rightarrow>
             if sz = 0 then whole
             else (http_Error ''invalid range: failed to overlap'' 416)
                    \<lparr>Header := hdr(''Content-Range'' \<mapsto> ''bytes */'' @ Itoa sz)\<rparr>
         | Inl InvalidRange \<Rightarrow> (http_Error ''invalid range'' 416)\<lparr>Header := hdr\<rparr>
         | Inr ranges \<Rightarrow>
             if sum_list (map snd ranges) > sz then whole
             else (case ranges of
                     [] \<Rightarrow> whole
                   | [(start, n)] \<Rightarrow> content_response env path hdr 206 content start n
                   | _ \<Rightarrow> multi content ranges))"

definition ServeFile ::
  "(bytes \<Rightarrow> (int \<times> int) list \<Rightarrow> http_response) \<Rightarrow> io_env \<Rightarrow> disk \<Rightarrow> string \<Rightarrow> http_request \<Rightarrow> http_response" where
  "ServeFile multi env d path r =
     (case bindE (os_Open env d path) (\<lambda>c. bindE (os_Stat env d path) (\<lambda>_. Inr c)) of
        Inl e \<Rightarrow> if errors_Is e ErrNotExist then http_Error ''404 page not found'' 404
                  else http_Error ''500 Internal Server Error'' 500
      | Inr c \<Rightarrow> ServeContent multi env path Map.empty r c)"

section \<open>The server\<close>

record FileServer =
  srv_blocksDir :: string
  srv_manifestDir :: string
  srv_manifestName :: string
  srv_blockmapDir :: string
  srv_snapshotDir :: string
  srv_chain :: string
  manifestJSON :: bytes
  manifestETag :: string
  fileHashes :: "string \<rightharpoonup> string"
  snapshotHashes :: "string \<rightharpoonup> string"

definition NewFileServer :: "string \<Rightarrow> string \<Rightarrow> string \<Rightarrow> string \<Rightarrow> string \<Rightarrow> string option \<Rightarrow> FileServer" where
  "NewFileServer blocksDir mdir mname blockmapDir snapshotDir with_chain =
     \<lparr>srv_blocksDir = blocksDir, srv_manifestDir = mdir, srv_manifestName = mname,
      srv_blockmapDir = blockmapDir, srv_snapshotDir = snapshotDir,
      srv_chain = (case with_chain of None \<Rightarrow> ''mainnet'' | Some c \<Rightarrow> c),
      manifestJSON = [], manifestETag = [], fileHashes = Map.empty, snapshotHashes = Map.empty\<rparr>"

definition snapshot_hash_map :: "SnapshotEntry list \<Rightarrow> string \<rightharpoonup> string" where
  "snapshot_hash_map es =
     foldl (\<lambda>m e. if sn_URL e \<noteq> [] then m(path_Base (sn_URL e) \<mapsto> sn_SHA256 e) else m) Map.empty es"

definition file_hash_map :: "ManifestFile list \<Rightarrow> string \<rightharpoonup> string" where
  "file_hash_map fs = foldl (\<lambda>m f. if mf_SHA256 f \<noteq> [] then m(mf_Name f \<mapsto> mf_SHA256 f) else m) Map.empty fs"

definition etag_of :: "bytes \<Rightarrow> string" where
  "etag_of data = CHR 0x22 # EncodeToString (Sum256 data) @ [CHR 0x22]"

definition loadManifest ::
  "(bytes \<Rightarrow> Manifest result) \<Rightarrow> io_env \<Rightarrow> disk \<Rightarrow> FileServer \<Rightarrow> go_error option \<times> FileServer" where
  "loadManifest json_Unmarshal env d s =
     (case os_ReadFile env d (path_Join (srv_manifestDir s) (srv_manifestName s)) of
        Inl e \<Rightarrow> (Some (Errorf ''read manifest'' e), s)
      | Inr data \<Rightarrow>
          (case json_Unmarshal data of
             Inl e \<Rightarrow> (Some (Errorf ''invalid manifest JSON'' e), s)
           | Inr m \<Rightarrow>
               (None, s\<lparr>manifestJSON := data, manifestETag := etag_of data,
                        fileHashes := file_hash_map (mn_Files m),
                        snapshotHashes := snapshot_hash_map [BlocksIndex (mn_Snapshots m), UTXO (mn_Snapshots m)]\<rparr>)))"

definition slicesEqual :: "string list \<Rightarrow> string list \<Rightarrow> bool" where
  "slicesEqual a b \<longleftrightarrow> length a = length b \<and> list_all (\<lambda>(x, y). x = y) (zip a b)"

text \<open>One tick of the auto-reload: the files of the last reload, the server and the disk.\<close>

definition maybeReloadManifest ::
  "(bytes \<Rightarrow> Manifest result) \<Rightarrow> (bytes \<Rightarrow> Manifest result) \<Rightarrow> (Manifest \<Rightarrow> bytes result) \<Rightarrow> io_env
     \<Rightarrow> string list \<times> FileServer \<times> disk \<Rightarrow> string list \<times> FileServer \<times> disk" where
  "maybeReloadManifest json_decode json_Unmarshal json_encode env = (\<lambda>(lastFiles, s, d).
     case ScanFinalizedFiles env d (srv_blocksDir s) of
       Inl e \<Rightarrow> (lastFiles, s, d)
     | Inr scanned \<Rightarrow>
         let current = map sf_Name scanned in
         if slicesEqual current lastFiles then (lastFiles, s, d)
         else
           let prev = (if manifestJSON s = [] then None
                       else case Parse json_decode (manifestJSON s) of Inl e \<Rightarrow> None | Inr p \<Rightarrow> Some p);
               cfg = \<lparr>cfg_blockmapDir = srv_blockmapDir s, cfg_snapshotDir = srv_snapshotDir s,
                      cfg_baseURL = [], cfg_prev = prev\<rparr>
           in case GenerateManifest env d cfg (srv_blocksDir s) (srv_chain s) of
                Inl e \<Rightarrow> (lastFiles, s, d)
              | Inr m \<Rightarrow>
                  (case WriteFile_manifest json_encode env (srv_manifestDir s) (srv_manifestName s) m d of
                     (Some e, d') \<Rightarrow> (lastFiles, s, d')
                   | (None, d') \<Rightarrow>
                       (case loadManifest json_Unmarshal env d' s of
                          (Some e, s') \<Rightarrow> (lastFiles, s', d')
                        | (None, s') \<Rightarrow> (current, s', d'))))"

section \<open>The handlers\<close>

definition handleHealth :: "http_request \<Rightarrow> http_response" where
  "handleHealth r =
     \<lparr>StatusCode = 200, Header = [''Content-Type'' \<mapsto> ''application/json''],
      Body = string_bytes ([CHR 0x7B, CHR 0x22] @ ''status'' @ [CHR 0x22, CHR '':'', CHR 0x22] @ ''ok'' @ [CHR 0x22, CHR 0x7D]),
      BodyErr = None\<rparr>"

definition handleManifest :: "FileServer \<Rightarrow> http_request \<Rightarrow> http_response" where
  "handleManifest s r =
     (if (case req_IfNoneMatch r of None \<Rightarrow> [] | Some v \<Rightarrow> v) = manifestETag s
      then \<lparr>StatusCode = 304, Header = Map.empty, Body = [], BodyErr = None\<rparr>
      else \<lparr>StatusCode = 200,
            Header = [''Content-Type'' \<mapsto> ''application/json'', ''ETag'' \<mapsto> manifestETag s,
                      ''Content-Length'' \<mapsto> Itoa_nat (length (manifestJSON s))],
            Body = manifestJSON s, BodyErr = None\<rparr>)"

definition bad_filename :: "string \<Rightarrow> bool" where
  "bad_filename f \<longleftrightarrow> Contains f ''/'' \<or> Contains f ''..''"

definition open_error :: "go_error \<Rightarrow> http_response" where
  "open_error e = (if e = ErrNotExist then http_Error ''not found'' 404 else http_Error ''internal error'' 500)"

definition handleFile ::
  "(bytes \<Rightarrow> (int \<times> int) list \<Rightarrow> http_response) \<Rightarrow> io_env \<Rightarrow> disk \<Rightarrow> FileServer \<Rightarrow> string \<Rightarrow> http_request \<Rightarrow> http_response" where
  "handleFile multi env d s filename r =
     (if bad_filename filename then http_Error ''invalid filename'' 400
      else
        let path = path_Join (srv_blocksDir s) filename in
        case os_Open env d path of
          Inl e \<Rightarrow> open_error e
        | Inr f \<Rightarrow>
            (case os_Stat env d path of
               Inl e \<Rightarrow> http_Error ''internal error'' 500
             | Inr _ \<Rightarrow>
                 let cachedHash = (case fileHashes s filename of None \<Rightarrow> [] | Some h \<Rightarrow> h) in
                 if cachedHash \<noteq> [] then ServeContent multi env path [''X-SHA256'' \<mapsto> cachedHash] r f
                 else if fault env (SysReadAt path 0) \<noteq> None then http_Error ''internal error'' 500
                 else ServeContent multi env path [''X-SHA256'' \<mapsto> EncodeToString (Sum256 f)] r f))"

definition handleBlockmap ::
  "(bytes \<Rightarrow> (int \<times> int) list \<Rightarrow> http_response) \<Rightarrow> io_env \<Rightarrow> disk \<Rightarrow> FileServer \<Rightarrow> string \<Rightarrow> http_request \<Rightarrow> http_response" where
  "handleBlockmap multi env d s filename r =
     (if srv_blockmapDir s = [] then http_Error ''blockmaps not available'' 404
      else if bad_filename filename then http_Error ''invalid filename'' 400
      else ServeFile multi env d (path_Join (srv_blockmapDir s) (filename @ ''.blockmap'')) r)"

definition handleSnapshot ::
  "(bytes \<Rightarrow> (int \<times> int) list \<Rightarrow> http_response) \<Rightarrow> io_env \<Rightarrow> disk \<Rightarrow> FileServer \<Rightarrow> string \<Rightarrow> http_request \<Rightarrow> http_response" where
  "handleSnapshot multi env d s filename r =
     (if srv_snapshotDir s = [] then http_Error ''snapshots not available'' 404
      else if bad_filename filename then http_Error ''invalid filename'' 400
      else
        let path = path_Join (srv_snapshotDir s) filename in
        case os_Open env d path of
          Inl e \<Rightarrow> open_error e
        | Inr f \<Rightarrow>
            (case os_Stat env d path of
               Inl e \<Rightarrow> http_Error ''internal error'' 500
             | Inr _ \<Rightarrow>
                 let cachedHash = (case snapshotHashes s filename of None \<Rightarrow> [] | Some h \<Rightarrow> h)
                 in ServeContent multi env path (if cachedHash \<noteq> [] then [''X-SHA256'' \<mapsto> cachedHash] else Map.empty) r f))"

text \<open>
  The routes of \<open>ListenAndServe\<close>. A wildcard matches one non-empty segment; a path that is
  not clean is redirected.
\<close>

definition route :: "string \<Rightarrow> string \<Rightarrow> string option" where
  "route pre path =
     (if HasPrefix path pre \<and> drop (length pre) path \<noteq> [] \<and> CHR ''/'' \<notin> set (drop (length pre) path)
      then Some (drop (length pre) path) else None)"

definition unclean :: "string \<Rightarrow> bool" where
  "unclean p \<longleftrightarrow> Contains p ''//'' \<or> Contains (p @ ''/'') ''/./'' \<or> Contains (p @ ''/'') ''/../''"

definition serve_routes ::
  "(bytes \<Rightarrow> (int \<times> int) list \<Rightarrow> http_response) \<Rightarrow> io_env \<Rightarrow> disk \<Rightarrow> FileServer \<Rightarrow> string \<Rightarrow> http_request \<Rightarrow> http_response" where
  "serve_routes multi env d s path r =
     (if unclean path then http_Error ''Moved Permanently'' 301
      else if path = ''/v1/health'' then handleHealth r
      else if path = ''/v1/manifest'' then handleManifest s r
      else case route ''/v1/file/'' path of
        Some f \<Rightarrow> handleFile multi env d s f r
      | None \<Rightarrow>
          (case route ''/v1/blockmap/'' path of
             Some f \<Rightarrow> handleBlockmap multi env d s f r
           | None \<Rightarrow>
               (case route ''/v1/snapshot/'' path of
                  Some f \<Rightarrow> handleSnapshot multi env d s f r
                | None \<Rightarrow> http_Error ''404 page not found'' 404)))"

section \<open>Ranges\<close>

lemma Split_absent: "c \<notin> set s \<Longrightarrow> Split c s = [s]"
  by (induction s) auto

lemma Cut_first: "c \<notin> set a \<Longrightarrow> Cut c (a @ c # b) = Some (a, b)"
  by (induction a) (auto simp: Cut_def)

lemma TrimString_id:
  assumes "\<forall>c \<in> set s. \<not> ascii_space c"
  shows "TrimString s = s"
proof -
  have "dropWhile ascii_space s = s" using assms by (cases s) auto
  moreover have "dropWhile ascii_space (rev s) = rev s" using assms by (cases "rev s") (auto simp flip: set_rev [of s])
  ultimately show ?thesis by (simp add: TrimString_def)
qed

lemma Itoa_chars: "c \<in> set (Itoa_nat n) \<Longrightarrow> is_digit c"
  using Itoa_nat_digits [of n] by (auto simp: list_all_iff)

lemma digit_not: "is_digit c \<Longrightarrow> c \<noteq> CHR '','' \<and> c \<noteq> CHR ''-'' \<and> c \<noteq> CHR ''/'' \<and> \<not> ascii_space c"
  by (auto simp: is_digit_def ascii_space_def)

lemma ParseInt_Itoa: "int n < 2 ^ 63 \<Longrightarrow> ParseInt (Itoa_nat n) = Some (int n)"
  using ParseInt_digits [of "Itoa_nat n"] Itoa_nat_digits [of n] by (simp add: in_int64_def)

text \<open>The header the clients send for one range, and what the server reads from it.\<close>

definition range_header :: "nat \<Rightarrow> nat \<Rightarrow> string" where
  "range_header a b = ''bytes='' @ Itoa_nat a @ ''-'' @ Itoa_nat b"

lemma parseRange_header:
  assumes "a \<le> b" "int b < 2 ^ 63"
  shows "parseRange (range_header a b) sz =
    (if int a \<ge> sz then Inl NoOverlap else Inr [(int a, min (int b) (sz - 1) - int a + 1)])"
proof -
  let ?s = "Itoa_nat a @ CHR ''-'' # Itoa_nat b"
  have chars: "\<forall>c \<in> set ?s. c \<noteq> CHR '','' \<and> \<not> ascii_space c"
    using Itoa_chars digit_not by (auto simp: ascii_space_def)
  have split: "Split CHR '','' ?s = [?s]" using chars by (intro Split_absent) auto
  have trim: "TrimString ?s = ?s" "TrimString (Itoa_nat a) = Itoa_nat a" "TrimString (Itoa_nat b) = Itoa_nat b"
    using chars by (simp_all add: TrimString_id)
  have cut: "Cut CHR ''-'' ?s = Some (Itoa_nat a, Itoa_nat b)"
    using Itoa_chars digit_not by (intro Cut_first) blast
  have ne: "Itoa_nat a \<noteq> []" "Itoa_nat b \<noteq> []" using Itoa_nat_digits by auto
  have val: "ParseInt (Itoa_nat a) = Some (int a)" "ParseInt (Itoa_nat b) = Some (int b)"
    using assms by (auto intro!: ParseInt_Itoa)
  have spec: "parse_range_spec sz ?s =
      (if int a \<ge> sz then Inr None else Inr (Some (int a, min (int b) (sz - 1) - int a + 1)))"
    using assms(1) unfolding parse_range_spec_def cut by (auto simp: trim ne val min_def Let_def)
  have h: "HasPrefix (range_header a b) ''bytes=''" "drop 6 (range_header a b) = ?s" "range_header a b \<noteq> []"
    by (simp_all add: range_header_def HasPrefix_def)
  show ?thesis
    unfolding parseRange_def h(2) split parse_range_specs.simps trim spec
    using h by (simp add: List.map_filter_simps Let_def)
qed

lemma ServeContent_range:
  assumes "req_Range r = Some (range_header a b)" "a \<le> b" "int b < 2 ^ 63"
  shows "ServeContent multi env path hdr r content =
    (if a < length content
     then content_response env path hdr 206 content (int a) (min (int b) (int (length content) - 1) - int a + 1)
     else if content = [] then content_response env path hdr 200 content 0 0
     else (http_Error ''invalid range: failed to overlap'' 416)
            \<lparr>Header := hdr(''Content-Range'' \<mapsto> ''bytes */'' @ Itoa (int (length content)))\<rparr>)"
  using parseRange_header [OF assms(2,3), of "int (length content)"] assms
  by (auto simp: ServeContent_def Let_def)

lemma ServeContent_whole:
  "req_Range r = None \<Longrightarrow>
     ServeContent multi env path hdr r content = content_response env path hdr 200 content 0 (int (length content))"
  by (simp add: ServeContent_def parseRange_def Let_def)

lemma content_response_simps [simp]:
  "StatusCode (content_response env path hdr code content off n) = code"
  "Header (content_response env path hdr code content off n) = hdr"
  by (simp_all add: content_response_def Let_def split: option.split)

lemma http_Error_status [simp]: "StatusCode (http_Error msg code) = code"
  by (simp add: http_Error_def)

section \<open>The file route\<close>

lemma route_same: "f \<noteq> [] \<Longrightarrow> CHR ''/'' \<notin> set f \<Longrightarrow> route pre (pre @ f) = Some f"
  by (simp add: route_def)

lemma route_Some: "route pre (pre' @ f) = Some g \<Longrightarrow> length pre = length pre' \<Longrightarrow> pre = pre' \<and> g = f"
  by (auto simp: route_def HasPrefix_def split: if_splits)

text \<open>Whatever answers a request for a file with 200 or 206 is the handler of files.\<close>

lemma routes_file:
  assumes "StatusCode (serve_routes multi env d s (''/v1/file/'' @ f) r) \<in> {200, 206}"
  shows "serve_routes multi env d s (''/v1/file/'' @ f) r = handleFile multi env d s f r"
proof -
  have no: "\<not> unclean (''/v1/file/'' @ f)"
    using assms by (auto simp: serve_routes_def)
  have bm: "route ''/v1/blockmap/'' (''/v1/file/'' @ f) = None" "route ''/v1/snapshot/'' (''/v1/file/'' @ f) = None"
    by (simp_all add: route_def HasPrefix_def)
  show ?thesis
  proof (cases "route ''/v1/file/'' (''/v1/file/'' @ f)")
    case None
    then have "serve_routes multi env d s (''/v1/file/'' @ f) r = http_Error ''404 page not found'' 404"
      using no bm by (simp add: serve_routes_def)
    then show ?thesis using assms by simp
  next
    case (Some g)
    then have "g = f" using route_Some by blast
    then show ?thesis using Some no by (simp add: serve_routes_def)
  qed
qed

lemma handleFile_ok:
  assumes "StatusCode (handleFile multi env d s f r) \<in> {200, 206}"
  shows "\<exists>file hash. d (path_Join (srv_blocksDir s) f) = Some file
    \<and> handleFile multi env d s f r = ServeContent multi env (path_Join (srv_blocksDir s) f) [''X-SHA256'' \<mapsto> hash] r file
    \<and> hash = (case fileHashes s f of Some h \<Rightarrow> if h = [] then EncodeToString (Sum256 file) else h
              | None \<Rightarrow> EncodeToString (Sum256 file))"
proof -
  let ?p = "path_Join (srv_blocksDir s) f"
  have b: "\<not> bad_filename f" using assms by (auto simp: handleFile_def)
  obtain c where o: "os_Open env d ?p = Inr c"
    using assms b by (cases "os_Open env d ?p") (auto simp: handleFile_def Let_def open_error_def split: if_splits)
  obtain n where st: "os_Stat env d ?p = Inr n"
    using assms b o by (cases "os_Stat env d ?p") (auto simp: handleFile_def Let_def)
  show ?thesis
  proof (intro exI conjI)
    show "d ?p = Some c" using o by (simp add: result_iffs)
    show "handleFile multi env d s f r = ServeContent multi env ?p
        [''X-SHA256'' \<mapsto> (case fileHashes s f of Some h \<Rightarrow> if h = [] then EncodeToString (Sum256 c) else h
              | None \<Rightarrow> EncodeToString (Sum256 c))] r c"
      using assms b by (auto simp: handleFile_def Let_def o st split: option.splits if_splits)
  qed (rule refl)
qed

section \<open>Client and server connected\<close>

text \<open>
  A response that arrives is the server's, whole or broken off at some point with an error.
\<close>

definition arrives :: "http_response \<Rightarrow> http_response \<Rightarrow> bool" where
  "arrives a r \<longleftrightarrow> StatusCode r = StatusCode a \<and> Header r = Header a
     \<and> (Body r = Body a \<and> BodyErr r = BodyErr a \<or> prefix (Body r) (Body a) \<and> BodyErr r \<noteq> None)"

text \<open>Paths that need no escaping in a URL.\<close>

definition plain_char :: "char \<Rightarrow> bool" where
  "plain_char c \<longleftrightarrow> is_digit c \<or> 97 \<le> (of_char c :: nat) \<and> (of_char c :: nat) \<le> 122
     \<or> 65 \<le> (of_char c :: nat) \<and> (of_char c :: nat) \<le> 90 \<or> c \<in> {CHR ''/'', CHR ''.'', CHR ''-'', CHR ''_''}"

text \<open>
  The network between a client and the server: every attempt fails, is answered with a 5xx on
  the way, or gets the answer that the server gives to this request at that moment, with any of
  its system calls failing.
\<close>

definition connected ::
  "http_env \<Rightarrow> string \<Rightarrow> (bytes \<Rightarrow> (int \<times> int) list \<Rightarrow> http_response) \<Rightarrow> disk \<Rightarrow> FileServer \<Rightarrow> bool" where
  "connected env base multi d s \<longleftrightarrow>
     (\<forall>i rq r path. transport env i rq = Inr r \<longrightarrow> req_URL rq = base @ path \<longrightarrow> list_all plain_char path \<longrightarrow>
        StatusCode r \<ge> 500 \<or> (\<exists>io. arrives (serve_routes multi io d s path rq) r))"

lemma connected_file:
  assumes "connected env base multi d s" "transport env i rq = Inr r" "req_URL rq = base @ ''/v1/file/'' @ f"
    and "list_all plain_char f" "StatusCode r \<in> {200, 206}"
  shows "\<exists>io file hash. d (path_Join (srv_blocksDir s) f) = Some file
    \<and> arrives (ServeContent multi io (path_Join (srv_blocksDir s) f) [''X-SHA256'' \<mapsto> hash] rq file) r"
proof -
  have "list_all plain_char (''/v1/file/'' @ f)" using assms(4) by (simp add: plain_char_def is_digit_def)
  then obtain io where io: "arrives (serve_routes multi io d s (''/v1/file/'' @ f) rq) r"
    using assms(1) [unfolded connected_def, rule_format, OF assms(2,3)] assms(5) by auto
  then have st: "StatusCode (serve_routes multi io d s (''/v1/file/'' @ f) rq) \<in> {200, 206}"
    using assms(5) by (simp add: arrives_def)
  note h = routes_file [OF st]
  obtain c hash where "d (path_Join (srv_blocksDir s) f) = Some c"
    "handleFile multi io d s f rq = ServeContent multi io (path_Join (srv_blocksDir s) f) [''X-SHA256'' \<mapsto> hash] rq c"
    using handleFile_ok [OF st [unfolded h]] by blast
  then show ?thesis using io h by auto
qed

lemma whole_file_arrives:
  assumes "arrives (ServeContent multi io path hdr rq file) r" "req_Range rq = None" "BodyErr r = None"
  shows "Body r = file"
  using assms
  by (auto simp: arrives_def ServeContent_whole content_response_def Let_def slice_def split: option.splits)

text \<open>The part of a range that arrives: when enough bytes came or no error, it is the range.\<close>

lemma range_arrives:
  assumes ar: "arrives (ServeContent multi io path hdr rq file) r" and rq: "req_Range rq = Some (range_header x (x + n - 1))"
    and n: "0 < n" "int (x + n) < 2 ^ 63" and st: "StatusCode r = 206"
    and body: "BodyErr r = None \<or> n \<le> length (Body r)"
  shows "x < length file \<and> take n (Body r) = slice x n file"
proof -
  let ?a = "ServeContent multi io path hdr rq file"
  have le: "x \<le> x + n - 1" "int (x + n - 1) < 2 ^ 63" using n by auto
  note sc = ServeContent_range [OF rq le, of multi io path hdr "file"]
  have x: "x < length file"
    using st ar unfolding arrives_def sc by (auto split: if_splits)
  let ?m = "min (int (x + n - 1)) (int (length file) - 1) - int x + 1"
  have m: "nat ?m = min n (length file - x)" using x n(1) by linarith
  have a: "?a = content_response io path hdr 206 file (int x) ?m" using sc x by simp
  have sl: "slice x (min n (length file - x)) file = slice x n file" by (simp add: slice_def min_def)
  show ?thesis
  proof (cases "fault io (SysReadAt path x)")
    case None
    then have ba: "Body ?a = slice x n file" "BodyErr ?a = None" "length (Body ?a) \<le> n"
      unfolding a content_response_def Let_def nat_int m sl by simp_all
    have "take n (Body r) = slice x n file"
    proof (cases "Body r = Body ?a")
      case True
      then show ?thesis using ba by simp
    next
      case False
      then have p: "prefix (Body r) (Body ?a)" "n \<le> length (Body r)" using ar body ba(2) by (auto simp: arrives_def)
      then have "length (Body r) = length (Body ?a)" using prefix_length_le [OF p(1)] ba(3) by linarith
      then show ?thesis using p(1) False by (auto simp: prefix_def)
    qed
    then show ?thesis using x by simp
  next
    case (Some e)
    then have "Body ?a = []" "BodyErr ?a = Some ErrUnexpectedEOF"
      unfolding a content_response_def Let_def nat_int by simp_all
    then show ?thesis using ar body n(1) by (auto simp: arrives_def)
  qed
qed

lemma range_request_header:
  assumes "range_request env url x n = Inr rq" "0 \<le> x" "0 < n" "x + n < 2 ^ 63"
  shows "req_URL (sent rq) = url \<and> req_Range (sent rq) = Some (range_header (nat x) (nat x + nat n - 1))"
proof -
  have w: "wrap64 (wrap64 (x + n) - 1) = x + n - 1" using assms(2-4) by (simp add: in_int64_def)
  have "Itoa x = Itoa_nat (nat x)" "Itoa (x + n - 1) = Itoa_nat (nat x + nat n - 1)"
    using assms(2,3) by (simp_all add: Itoa_def nat_add_distrib nat_diff_distrib)
  then show ?thesis
    using assms(1) w
    by (auto simp: range_request_def NewRequest_def sent_def range_header_def split: option.splits)
qed

lemma NewRequest_sent:
  "NewRequest env m u = Inr rq \<Longrightarrow> req_URL (sent rq) = u \<and> req_Range (sent rq) = None \<and> req_IfNoneMatch (sent rq) = None"
  by (auto simp: NewRequest_def sent_def split: option.splits)

lemma file_path_clean:
  assumes "f \<noteq> []" "f \<noteq> ''.''" "\<not> bad_filename f"
  shows "\<not> unclean (''/v1/file/'' @ f)"
proof -
  have sl: "CHR ''/'' \<notin> set f" using assms(3) by (auto simp: bad_filename_def Contains_iff in_set_conv_decomp)
  have no: "\<not> Contains (f @ ''/'') (CHR ''/'' # t)" if "t \<noteq> []" for t
    using sl that by (auto simp: Contains_iff append_eq_append_conv2 Cons_eq_append_conv append_eq_Cons_conv)
  have "\<not> Contains f ''//''" using sl by (auto simp: Contains_iff)
  moreover have "f \<noteq> ''..''" using assms(3) by (auto simp: bad_filename_def)
  moreover have "take (Suc (Suc 0)) (f @ ''/'') \<noteq> ''./''"
    using sl assms(1,2) by (cases f; cases "tl f") auto
  moreover have "take (Suc (Suc (Suc 0))) (f @ ''/'') \<noteq> ''../''"
    using sl calculation(2) by (cases f; cases "tl f"; cases "tl (tl f)") auto
  moreover have "take (Suc 0) f \<noteq> ''/''" using sl by (cases f) auto
  ultimately show ?thesis
    using no [of "''./''"] no [of "''../''"] by (simp add: unclean_def)
qed

lemma run_buffer_Inr: "run_buffer f = Inr data \<Longrightarrow> \<exists>w. f \<lparr>written = [], room = None\<rparr> = (None, w) \<and> written w = data"
  by (auto simp: run_buffer_def split: prod.splits option.splits)

lemma file_from_server:
  assumes "connected env (baseURL c) multi d s" "list_all plain_char f" "d (path_Join (srv_blocksDir s) f) = Some file"
    and "0 \<le> retryCount c" "run_buffer (HTTPClient_FetchFile env c f) = Inr data"
  shows "data = file"
proof -
  let ?req = "NewRequest env ''GET'' (baseURL c @ ''/v1/file/'' @ f)" and ?w = "\<lparr>written = [], room = None\<rparr>"
  obtain w where w: "HTTPClient_FetchFile env c f ?w = (None, w)" "written w = data"
    using run_buffer_Inr [OF assms(5)] by blast
  obtain rq i r where a: "?req = Inr rq" "transport env i (sent rq) = Inr r"
      "StatusCode r = 200" "stream_verified ''file'' r ?w = (None, w)"
    using http.stream_from_transport [where c = c and k = "nat (retryCount c)" and env = env and req = ?req
        and body = "stream_verified ''file''" and w = ?w and w' = w] assms(4) w(1)
    by (auto simp: HTTPClient_FetchFile_def)
  have "io_Copy r ?w = (None, w)"
    using a(4) by (auto simp: stream_verified_def Let_def split: if_splits prod.splits option.splits)
  from io_Copy_None [OF this] have body: "Body r = data" "BodyErr r = None" using w(2) by simp_all
  have "Body r = file"
    using connected_file [OF assms(1) a(2) _ assms(2)] NewRequest_sent [OF a(1)] a(3) assms(3) body(2)
      whole_file_arrives by fastforce
  then show ?thesis using body(1) by simp
qed

lemma range_from_server:
  assumes "connected env (baseURL c) multi d s" "list_all plain_char f" "d (path_Join (srv_blocksDir s) f) = Some file"
    and "0 \<le> retryCount c" "0 \<le> x" "0 < n" "x + n < 2 ^ 63" "HTTPClient_FetchBlock env c f x n = Inr data"
  shows "data = slice (nat x) (nat n) file"
proof -
  have "with_response (doWithRetry env c (range_request env (baseURL c @ ''/v1/file/'' @ f) x n)) (range_response n) = Inr data"
    using assms(5,6,8) by (simp add: HTTPClient_FetchBlock_def)
  then obtain rq i r where a: "range_request env (baseURL c @ ''/v1/file/'' @ f) x n = Inr rq"
      "transport env i (sent rq) = Inr r" "StatusCode r = 206" "data = take (nat n) (Body r)"
      "BodyErr r = None \<or> n \<le> int (length (Body r))"
    using http.range_from_transport [where c = c and k = "nat (retryCount c)"] assms(4) by fastforce
  note h = range_request_header [OF a(1) assms(5-7)]
  obtain io hash where ar: "arrives (ServeContent multi io (path_Join (srv_blocksDir s) f) [''X-SHA256'' \<mapsto> hash] (sent rq) file) r"
    using connected_file [OF assms(1) a(2) _ assms(2)] h a(3) assms(3) by force
  have "take (nat n) (Body r) = slice (nat x) (nat n) file"
    using range_arrives [OF ar _ _ _ a(3), of "nat x" "nat n"] h a(5) assms(5-7) by (auto simp: nat_le_iff)
  then show ?thesis using a(4) by simp
qed

section \<open>Properties\<close>

lemma client_serves:
  assumes "connected env (baseURL c) multi d s" "0 \<le> retryCount c" "list_all plain_char f"
    and "d (path_Join (srv_blocksDir s) f) = Some file"
  shows "serves (HTTPClient_remote env c) f file"
  unfolding serves_def HTTPClient_remote_def
  using file_from_server [OF assms(1,3,4,2)] range_from_server [OF assms(1,3,4,2)] by simp

text \<open>
  C6. The client connected to the archive server gets the server's files: through a network that
  may fail, answer with errors or break responses off, whatever file or range
  \<open>HTTPClient\<close> returns is the file, or exactly the requested part of it, on the server's disk.
  This is what the file system assumes of its remote client.
\<close>

theorem client_serves_disk:
  assumes "connected env (baseURL c) multi d s" "0 \<le> retryCount c" "list_all plain_char f"
    and "d (path_Join (srv_blocksDir s) f) = Some file"
  shows "serves (HTTPClient_remote env c) f file"
  using assms by (rule client_serves)

definition example_server :: FileServer where
  "example_server = NewFileServer ''b'' ''m'' ''manifest.json'' ''bm'' [] None"

definition example_store :: disk where
  "example_store = [''b/blk00001.dat'' \<mapsto> example_bytes]"

text \<open>A network that loses the first attempt and delivers the others.\<close>

definition example_link :: http_env where
  "example_link = \<lparr>url_error = (\<lambda>_. None),
     transport = (\<lambda>i rq. if i = 0 then Inl (ErrIO ''connection refused'')
       else if take 8 (req_URL rq) = ''http://a'' then Inr (serve_routes (\<lambda>_ _. http_Error [] 500) io_ok example_store example_server (drop 8 (req_URL rq)) rq)
       else Inl (ErrIO ''no such host'')),
     cancelled_wait = (\<lambda>_. None), cancelled_do = (\<lambda>_. None), rand_Int63n = (\<lambda>_ _. 0)\<rparr>"

lemma example_link_connected: "connected example_link ''http://a'' (\<lambda>_ _. http_Error [] 500) example_store example_server"
  unfolding connected_def
proof (intro allI impI)
  fix i rq r path
  assume "transport example_link i rq = Inr r" "req_URL rq = ''http://a'' @ path" "list_all plain_char path"
  then have "r = serve_routes (\<lambda>_ _. http_Error [] 500) io_ok example_store example_server path rq"
    by (auto simp: example_link_def split: if_splits)
  then show "500 \<le> StatusCode r \<or> (\<exists>io. arrives (serve_routes (\<lambda>_ _. http_Error [] 500) io example_store example_server path rq) r)"
    by (auto simp: arrives_def)
qed

lemma example_link_base: "baseURL (New_client ''http://a'' 2) = ''http://a''"
  by (simp add: New_client_def TrimRight_slash_def)

theorem client_serves_disk_witness:
  "serves (HTTPClient_remote example_link (New_client ''http://a'' 2)) ''blk00001.dat'' example_bytes"
proof (rule client_serves_disk)
  show "connected example_link (baseURL (New_client ''http://a'' 2)) (\<lambda>_ _. http_Error [] 500) example_store example_server"
    unfolding example_link_base by (rule example_link_connected)
qed (simp_all add: New_client_def plain_char_def is_digit_def example_store_def example_server_def NewFileServer_def path_Join_def)

lemma range_answered:
  assumes "never_cancelled env" "0 \<le> retryCount c" "\<forall>u. url_error env u = None"
    and "\<forall>rq j. j < i \<longrightarrow> attempt_fails env rq j" "int i \<le> retryCount c"
    and "\<forall>rq. req_URL rq = baseURL c @ ''/v1/file/'' @ f \<longrightarrow>
          transport env i rq = Inr (serve_routes multi io d s (''/v1/file/'' @ f) rq)"
    and "\<forall>call. fault io call = None" "d (path_Join (srv_blocksDir s) f) = Some file"
    and "f \<noteq> []" "f \<noteq> ''.''" "\<not> bad_filename f" "x < length file" "0 < n" "int (x + n) < 2 ^ 63"
  shows "HTTPClient_FetchBlock env c f (int x) (int n) = Inr (slice x n file)"
proof -
  let ?url = "baseURL c @ ''/v1/file/'' @ f" and ?p = "path_Join (srv_blocksDir s) f"
  obtain rq where rq: "range_request env ?url (int x) (int n) = Inr rq"
    using assms(3) by (simp add: range_request_def NewRequest_def)
  have h: "req_URL (sent rq) = ?url" "req_Range (sent rq) = Some (range_header x (x + n - 1))"
    using range_request_header [OF rq] assms(13,14) by auto
  have sl: "CHR ''/'' \<notin> set f" using assms(11) by (auto simp: bad_filename_def Contains_iff in_set_conv_decomp)
  have cl: "\<not> unclean (''/v1/file/'' @ f)" using file_path_clean [OF assms(9-11)] .
  let ?r = "serve_routes multi io d s (''/v1/file/'' @ f) (sent rq)"
  have "?r = handleFile multi io d s f (sent rq)"
    using cl route_same [OF assms(9) sl, of "''/v1/file/''"] by (simp add: serve_routes_def)
  also have "\<exists>hash. \<dots> = ServeContent multi io ?p [''X-SHA256'' \<mapsto> hash] (sent rq) file"
    using assms(7,8,11)
    by (cases "(case fileHashes s f of None \<Rightarrow> [] | Some h \<Rightarrow> h) = []") (auto simp: handleFile_def Let_def os_Open_def os_Stat_def)
  then obtain hash where "handleFile multi io d s f (sent rq) = ServeContent multi io ?p [''X-SHA256'' \<mapsto> hash] (sent rq) file" ..
  also have "\<dots> = content_response io ?p [''X-SHA256'' \<mapsto> hash] 206 file (int x)
      (min (int (x + n - 1)) (int (length file) - 1) - int x + 1)"
    using ServeContent_range [OF h(2)] assms(12-14) by simp
  finally have r: "StatusCode ?r = 206" "BodyErr ?r = None"
    "Body ?r = slice x (nat (min (int (x + n - 1)) (int (length file) - 1) - int x + 1)) file"
    using assms(7) by (simp_all add: content_response_def Let_def)
  have "nat (min (int (x + n - 1)) (int (length file) - 1) - int x + 1) = min n (length file - x)"
    using assms(12,13) by linarith
  then have body: "Body ?r = slice x n file" using r(3) by (simp add: slice_def min_def)
  have ik: "i \<le> nat (retryCount c)" using assms(5) by linarith
  have "with_response (doWithRetry env c (Inr rq)) (range_response (int n)) = range_response (int n) ?r"
    using http.first_answer [where c = c and k = "nat (retryCount c)" and i = i and r = ?r and rq = rq and env = env]
      assms(1,2,4,6) ik h(1) r(1) by simp
  also have "\<dots> = Inr (slice x n file)"
    unfolding range_response_def ReadAll_limit_def body r(1,2) by simp
  finally show ?thesis using assms(13) rq by (simp add: HTTPClient_FetchBlock_def)
qed

text \<open>
  C17. A range is delivered: when no earlier attempt got through and one within the number of
  retries reaches the server, which can read the file, \<open>FetchBlock\<close> returns the requested range
  (cut at the end of the file) for every offset inside the file.
\<close>

theorem range_delivered:
  assumes "never_cancelled env" "0 \<le> retryCount c" "\<forall>u. url_error env u = None"
    and "\<forall>rq j. j < i \<longrightarrow> attempt_fails env rq j" "int i \<le> retryCount c"
    and "\<forall>rq. req_URL rq = baseURL c @ ''/v1/file/'' @ f \<longrightarrow>
          transport env i rq = Inr (serve_routes multi io d s (''/v1/file/'' @ f) rq)"
    and "\<forall>call. fault io call = None" "d (path_Join (srv_blocksDir s) f) = Some file"
    and "f \<noteq> []" "f \<noteq> ''.''" "\<not> bad_filename f" "x < length file" "0 < n" "int (x + n) < 2 ^ 63"
  shows "HTTPClient_FetchBlock env c f (int x) (int n) = Inr (slice x n file)"
  using assms by (rule range_answered)

theorem range_delivered_witness:
  "HTTPClient_FetchBlock example_link (New_client ''http://a'' 2) ''blk00001.dat'' (int 4) (int 3) = Inr [5, 6, 7]"
proof -
  have "HTTPClient_FetchBlock example_link (New_client ''http://a'' 2) ''blk00001.dat'' (int 4) (int 3) =
      Inr (slice 4 3 example_bytes)"
  proof (rule range_delivered [where i = 1 and multi = "\<lambda>_ _. http_Error [] 500" and io = io_ok and d = example_store and s = example_server])
    show "\<forall>rq. req_URL rq = baseURL (New_client ''http://a'' 2) @ ''/v1/file/'' @ ''blk00001.dat'' \<longrightarrow>
        transport example_link 1 rq = Inr (serve_routes (\<lambda>_ _. http_Error [] 500) io_ok example_store example_server
          (''/v1/file/'' @ ''blk00001.dat'') rq)"
      unfolding example_link_base by (simp add: example_link_def)
    show "never_cancelled example_link" "\<forall>u. url_error example_link u = None"
      "\<forall>rq j. j < 1 \<longrightarrow> attempt_fails example_link rq j"
      by (simp_all add: never_cancelled_def attempt_fails_def example_link_def)
  qed (simp_all add: New_client_def example_store_def example_server_def NewFileServer_def path_Join_def bad_filename_def
      example_bytes_def)
  then show ?thesis by (simp add: slice_def example_bytes_def)
qed

section \<open>Loading and reloading\<close>

lemma file_hash_map_Some: "file_hash_map fs n = Some h \<Longrightarrow> \<exists>f \<in> set fs. mf_Name f = n \<and> mf_SHA256 f = h"
  unfolding file_hash_map_def by (induction fs rule: rev_induct) (auto split: if_splits)

lemma loadManifest_None:
  assumes "loadManifest unm env d s = (None, s')"
  shows "\<exists>data m. d (path_Join (srv_manifestDir s) (srv_manifestName s)) = Some data \<and> unm data = Inr m
    \<and> manifestJSON s' = data \<and> manifestETag s' = etag_of data \<and> fileHashes s' = file_hash_map (mn_Files m)
    \<and> srv_blocksDir s' = srv_blocksDir s"
  using assms by (auto simp: loadManifest_def result_iffs split: sum.splits dest!: sym [of _ s'])

lemma loadManifest_Some: "loadManifest unm env d s = (Some e, s') \<Longrightarrow> s' = s"
  by (auto simp: loadManifest_def split: sum.splits)

lemma etag_of_inj: "etag_of a = etag_of b \<longleftrightarrow> Sum256 a = Sum256 b"
  by (simp add: etag_of_def EncodeToString_inj)

text \<open>
  The state of a running server agrees with its disk: the hashes it announces for finalized
  files are those of the files, and so are the ones of the manifest it holds.
\<close>

definition srv_ok :: "(bytes \<Rightarrow> Manifest result) \<Rightarrow> disk \<Rightarrow> FileServer \<Rightarrow> bool" where
  "srv_ok json_decode d s \<longleftrightarrow>
     (\<forall>n h c. finalized d (srv_blocksDir s) n \<longrightarrow> fileHashes s n = Some h \<longrightarrow>
        d (path_Join (srv_blocksDir s) n) = Some c \<longrightarrow> h = EncodeToString (Sum256 c))
     \<and> (\<forall>m. json_decode (manifestJSON s) = Inr m \<longrightarrow> hashes_ok d (srv_blocksDir s) (mn_Files m))"

lemma srv_ok_same:
  assumes "\<forall>q. last q = CHR ''t'' \<longrightarrow> d' q = d q"
  shows "srv_ok dec d' s = srv_ok dec d s"
proof -
  have "finalized d dir n \<Longrightarrow> d' (path_Join dir n) = d (path_Join dir n)" for n dir
    using finalized_last assms by blast
  then show ?thesis
    unfolding srv_ok_def finalized_same [OF assms] hashes_ok_same [OF assms] by auto
qed

text \<open>Loading a manifest takes over hashes that are right.\<close>

lemma loaded_ok:
  assumes "srv_ok dec d s" "loadManifest unm env d s = (er, s1)" "\<forall>m bs. enc m = Inr bs \<longrightarrow> dec bs = Inr m \<and> unm bs = Inr m"
    and "enc m = Inr bs" "d (path_Join (srv_manifestDir s) (srv_manifestName s)) = Some bs"
    and "hashes_ok d (srv_blocksDir s) (mn_Files m)"
    and "\<forall>mf \<in> set (mn_Files m). \<exists>c. d (path_Join (srv_blocksDir s) (mf_Name mf)) = Some c \<and> mf_SHA256 mf = EncodeToString (Sum256 c)"
  shows "srv_ok dec d s1 \<and> srv_blocksDir s1 = srv_blocksDir s"
proof (cases er)
  case (Some e)
  then show ?thesis using loadManifest_Some [OF assms(2) [unfolded Some]] assms(1) by simp
next
  case None
  obtain m' where m': "unm bs = Inr m'" "manifestJSON s1 = bs" "fileHashes s1 = file_hash_map (mn_Files m')" "srv_blocksDir s1 = srv_blocksDir s"
    using loadManifest_None [OF assms(2) [unfolded None]] assms(5) by auto
  have m: "m' = m" "dec bs = Inr m" using m'(1) assms(3,4) by auto
  have "h = EncodeToString (Sum256 c)"
    if "file_hash_map (mn_Files m) n = Some h" "d (path_Join (srv_blocksDir s) n) = Some c" for n h c
    using file_hash_map_Some [OF that(1)] assms(7) that(2) by force
  then show ?thesis using m' m assms(6) by (auto simp: srv_ok_def)
qed

text \<open>
  What a tick of the reload does: nothing to the server (and perhaps a manifest file written), or the
  server takes over a manifest generated from the disk.
\<close>

definition reload_cfg :: "(bytes \<Rightarrow> Manifest result) \<Rightarrow> FileServer \<Rightarrow> manifestConfig" where
  "reload_cfg json_decode s =
     \<lparr>cfg_blockmapDir = srv_blockmapDir s, cfg_snapshotDir = srv_snapshotDir s, cfg_baseURL = [],
      cfg_prev = (if manifestJSON s = [] then None
        else case Parse json_decode (manifestJSON s) of Inl e \<Rightarrow> None | Inr p \<Rightarrow> Some p)\<rparr>"

lemma finite_disk_upd: "finite (dom d) \<Longrightarrow> \<forall>q. q \<noteq> a \<longrightarrow> q \<noteq> b \<longrightarrow> d' q = d q \<Longrightarrow> finite (dom d')"
proof -
  assume "finite (dom d)" "\<forall>q. q \<noteq> a \<longrightarrow> q \<noteq> b \<longrightarrow> d' q = d q"
  moreover from this have "dom d' \<subseteq> insert a (insert b (dom d))" by (auto simp: dom_def)
  ultimately show ?thesis by (meson finite.insertI finite_subset)
qed

lemma manifest_written_finite:
  "WriteFile_manifest enc env dir name m d = (err, d') \<Longrightarrow> finite (dom d) \<Longrightarrow> finite (dom d')"
  using write_atomic_other unfolding WriteFile_manifest_def by (elim finite_disk_upd) blast

lemma reload_cases:
  assumes "maybeReloadManifest dec unm enc env (lastFiles, s, d) = (lastFiles', s', d')"
    and "srv_manifestName s \<noteq> []" "last (srv_manifestName s) \<notin> {CHR ''t'', CHR ''p''}"
  shows "s' = s \<and> (\<forall>q. last q = CHR ''t'' \<longrightarrow> d' q = d q) \<and> (finite (dom d) \<longrightarrow> finite (dom d'))
    \<or> (\<exists>m bs. (\<forall>q. last q = CHR ''t'' \<longrightarrow> d' q = d q)
        \<and> GenerateManifest env d (reload_cfg dec s) (srv_blocksDir s) (srv_chain s) = Inr m \<and> enc m = Inr bs
        \<and> loadManifest unm env d' s = (None, s')
        \<and> d' (path_Join (srv_manifestDir s) (srv_manifestName s)) = Some bs \<and> (finite (dom d) \<longrightarrow> finite (dom d')))"
proof -
  note step = assms(1) [unfolded maybeReloadManifest_def prod.case Let_def, folded reload_cfg_def]
  show ?thesis
  proof (cases "\<exists>scanned m. ScanFinalizedFiles env d (srv_blocksDir s) = Inr scanned \<and> \<not> slicesEqual (map sf_Name scanned) lastFiles
      \<and> GenerateManifest env d (reload_cfg dec s) (srv_blocksDir s) (srv_chain s) = Inr m")
    case False
    then show ?thesis using step by (auto split: if_splits sum.splits)
  next
    case True
    then obtain scanned m where sc: "ScanFinalizedFiles env d (srv_blocksDir s) = Inr scanned"
      "\<not> slicesEqual (map sf_Name scanned) lastFiles"
      "GenerateManifest env d (reload_cfg dec s) (srv_blocksDir s) (srv_chain s) = Inr m" by blast
    obtain err d1 where w: "WriteFile_manifest enc env (srv_manifestDir s) (srv_manifestName s) m d = (err, d1)"
      by fastforce
    note wr = manifest_written_same [OF w assms(2,3)]
    obtain er s1 where l: "loadManifest unm env d1 s = (er, s1)" by fastforce
    show ?thesis
    proof (cases "err = None \<and> er = None")
      case True
      then have "s' = s1" "d' = d1" using step sc w l by simp_all
      moreover obtain bs where "enc m = Inr bs" "d1 (path_Join (srv_manifestDir s) (srv_manifestName s)) = Some bs"
        using wr(2) True by blast
      ultimately show ?thesis using wr(1) sc(3) l True manifest_written_finite [OF w] by (intro disjI2 exI [of _ m] exI [of _ bs]) simp
    next
      case False
      then have "s' = s" "d' = d1" using step sc w l loadManifest_Some [of unm env d1 s] by (auto split: option.splits)
      then show ?thesis using wr(1) manifest_written_finite [OF w] by blast
    qed
  qed
qed

text \<open>
  Reloading keeps the server consistent: after a tick of the auto-reload, whichever step of it
  failed, the hashes in the server's headers and in its manifest are those of the finalized
  files on disk; clients that verify downloads are never given a wrong hash.
\<close>

theorem reload_keeps_hashes:
  assumes "srv_ok dec d s" "finite (dom d)" "fault env (SysReadDir (srv_blocksDir s)) = None"
    and "\<forall>m bs. enc m = Inr bs \<longrightarrow> dec bs = Inr m \<and> unm bs = Inr m"
    and "srv_manifestName s \<noteq> []" "last (srv_manifestName s) \<notin> {CHR ''t'', CHR ''p''}"
    and "maybeReloadManifest dec unm enc env (lastFiles, s, d) = (lastFiles', s', d')"
  shows "srv_ok dec d' s' \<and> srv_blocksDir s' = srv_blocksDir s"
proof -
  let ?dir = "srv_blocksDir s"
  from reload_cases [OF assms(7,5,6)] show ?thesis
  proof (elim disjE exE conjE)
    assume "s' = s" "\<forall>q. last q = CHR ''t'' \<longrightarrow> d' q = d q"
    then show ?thesis using assms(1) srv_ok_same [of d' d dec s] by simp
  next
    fix m bs assume same: "\<forall>q. last q = CHR ''t'' \<longrightarrow> d' q = d q" and g: "GenerateManifest env d (reload_cfg dec s) ?dir (srv_chain s) = Inr m"
      and bs: "enc m = Inr bs" and l: "loadManifest unm env d' s = (None, s')"
      "d' (path_Join (srv_manifestDir s) (srv_manifestName s)) = Some bs"
    have prev: "\<forall>p. cfg_prev (reload_cfg dec s) = Some p \<longrightarrow> hashes_ok d ?dir (mn_Files p)"
      using assms(1) by (auto simp: reload_cfg_def srv_ok_def Parse_def result_iffs split: if_splits sum.splits dest!: wrapE_eq_Inr [THEN iffD1])
    note ex = GenerateManifest_exact [OF assms(2,3) prev g]
    have "\<forall>mf \<in> set (mn_Files m). \<exists>c. d' (path_Join ?dir (mf_Name mf)) = Some c \<and> mf_SHA256 mf = EncodeToString (Sum256 c)"
      using ex same finalized_last [of d ?dir] by (metis image_eqI mem_Collect_eq)
    moreover have "hashes_ok d' ?dir (mn_Files m)" using ex hashes_ok_same [OF same] by simp
    moreover have "srv_ok dec d' s" using assms(1) srv_ok_same [OF same] by simp
    ultimately show ?thesis using loaded_ok [OF _ l(1) assms(4) bs l(2)] by blast
  qed
qed

theorem reload_keeps_hashes_witness:
  "\<exists>last' s' d'. maybeReloadManifest (\<lambda>_. Inl EOF) (\<lambda>_. Inl EOF) (\<lambda>_. Inl EOF) io_ok
       ([], NewFileServer ''b'' ''m'' ''manifest.json'' [] [] None, example_blocks) = (last', s', d')
     \<and> srv_ok (\<lambda>_. Inl EOF) d' s'"
proof -
  let ?s = "NewFileServer ''b'' ''m'' ''manifest.json'' [] [] None"
  obtain last' s' d' where r: "maybeReloadManifest (\<lambda>_. Inl EOF) (\<lambda>_. Inl EOF) (\<lambda>_. Inl EOF) io_ok ([], ?s, example_blocks) = (last', s', d')"
    by (metis prod.exhaust)
  have "srv_ok (\<lambda>_. Inl EOF) example_blocks ?s" by (simp add: srv_ok_def NewFileServer_def)
  moreover have "finite (dom example_blocks)" by (simp add: example_blocks_def)
  ultimately have "srv_ok (\<lambda>_. Inl EOF) d' s'"
    using reload_keeps_hashes [OF _ _ _ _ _ _ r] by (simp add: NewFileServer_def)
  then show ?thesis using r by blast
qed

text \<open>
  C30. The entity tag is sound: after a load, a client that sends the tag of the manifest's current
  bytes is told that nothing changed, and with any other tag it gets the manifest and its tag.
\<close>

theorem manifest_revalidation:
  assumes "loadManifest unm io d s0 = (None, s)" "url_error env (baseURL c @ ''/v1/manifest'') = None"
    and "\<forall>rq. transport env 0 rq = Inr (handleManifest s rq)"
    and "d (path_Join (srv_manifestDir s0) (srv_manifestName s0)) = Some data" "dec None data = Inr m"
  shows "HTTPClient_FetchManifest env dec c etag =
    (if etag = etag_of data then Inr (None, etag) else Inr (Some m, etag_of data))"
proof -
  have s: "manifestJSON s = data" "manifestETag s = etag_of data"
    using loadManifest_None [OF assms(1)] assms(4) by auto
  have "etag_of data \<noteq> []" by (simp add: etag_of_def)
  then show ?thesis
    using assms(2,3,5) s
    by (auto simp: HTTPClient_FetchManifest_def manifest_request_def NewRequest_def handleManifest_def
        manifest_response_def Parse_def Header_Get_def)
qed

theorem manifest_revalidation_witness:
  "HTTPClient_FetchManifest
     \<lparr>url_error = (\<lambda>_. None), transport = (\<lambda>_ rq. Inr (handleManifest
          (snd (loadManifest (\<lambda>_. Inr empty_manifest) io_ok [''m/manifest.json'' \<mapsto> [1, 2]] example_server)) rq)),
      cancelled_wait = (\<lambda>_. None), cancelled_do = (\<lambda>_. None), rand_Int63n = (\<lambda>_ _. 0)\<rparr>
     (\<lambda>_ _. Inr empty_manifest) (New_client ''u'' 0) (etag_of [1, 2]) = Inr (None, etag_of [1, 2])"
proof -
  let ?d = "[''m/manifest.json'' \<mapsto> [1, 2]] :: disk" and ?u = "\<lambda>_. Inr empty_manifest"
  have mp: "path_Join (srv_manifestDir example_server) (srv_manifestName example_server) = ''m/manifest.json''"
    by (simp add: example_server_def NewFileServer_def path_Join_def)
  have l: "loadManifest ?u io_ok ?d example_server = (None, snd (loadManifest ?u io_ok ?d example_server))"
    by (simp add: loadManifest_def mp os_ReadFile_def os_Open_def)
  show ?thesis
    by (subst manifest_revalidation [OF l, where data = "[1, 2]" and m = empty_manifest]) (simp_all add: mp)
qed

section \<open>Blockmaps over the network\<close>

lemma blockmap_from_server:
  assumes "connected env (baseURL c) multi d s" "list_all plain_char f" "0 \<le> retryCount c"
    and "d (path_Join (srv_blockmapDir s) (f @ ''.blockmap'')) = Some content" "int (length content) \<le> maxBlockmapSize"
    and "HTTPClient_FetchBlockmap env c f = Inr raw"
  shows "raw = content"
proof -
  let ?req = "NewRequest env ''GET'' (baseURL c @ ''/v1/blockmap/'' @ f)"
  obtain rq i r where a: "?req = Inr rq" "transport env i (sent rq) = Inr r" "blockmap_response r = Inr raw"
    using http.answered [where c = c and k = "nat (retryCount c)" and env = env and req = ?req and f = blockmap_response]
      assms(3,6) by (auto simp: HTTPClient_FetchBlockmap_def)
  have st: "StatusCode r = 200" and raw: "ReadAll_limit maxBlockmapSize r = Inr raw"
    using a(3) by (auto simp: blockmap_response_def split: if_splits)
  let ?path = "''/v1/blockmap/'' @ f" and ?bp = "path_Join (srv_blockmapDir s) (f @ ''.blockmap'')"
  have "list_all plain_char ?path" using assms(2) by (simp add: plain_char_def is_digit_def)
  then obtain io where ar: "arrives (serve_routes multi io d s ?path (sent rq)) r"
    using assms(1) [unfolded connected_def, rule_format, OF a(2)] NewRequest_sent [OF a(1)] st by auto
  then have st': "StatusCode (serve_routes multi io d s ?path (sent rq)) = 200" using st by (simp add: arrives_def)
  have "serve_routes multi io d s ?path (sent rq) = handleBlockmap multi io d s f (sent rq)"
    using st' route_Some [of "''/v1/blockmap/''" "''/v1/blockmap/''" f]
    by (auto simp: serve_routes_def route_def HasPrefix_def split: if_splits)
  also have "\<dots> = ServeFile multi io d ?bp (sent rq)"
    using st' calculation by (auto simp: handleBlockmap_def split: if_splits)
  also have "\<dots> = ServeContent multi io ?bp Map.empty (sent rq) content"
  proof (cases "bindE (os_Open io d ?bp) (\<lambda>c. bindE (os_Stat io d ?bp) (\<lambda>_. Inr c))")
    case (Inl e)
    then show ?thesis using st' calculation by (auto simp: ServeFile_def split: if_splits)
  next
    case (Inr c')
    then have "c' = content" using assms(4) by (auto simp: result_iffs)
    then show ?thesis using Inr by (simp add: ServeFile_def)
  qed
  finally have ar': "arrives (ServeContent multi io ?bp Map.empty (sent rq) content) r" using ar by simp
  have le: "length (Body r) \<le> length content"
    using ar' NewRequest_sent [OF a(1)] by (auto simp: arrives_def ServeContent_whole content_response_def Let_def
        dest!: prefix_length_le split: option.splits)
  show ?thesis
  proof (cases "BodyErr r")
    case None
    then have "Body r = content" using whole_file_arrives [OF ar'] NewRequest_sent [OF a(1)] by simp
    then show ?thesis using raw None assms(5) by (auto simp: ReadAll_limit_def split: if_splits)
  next
    case (Some e)
    then have "maxBlockmapSize \<le> int (length (Body r))" using raw by (auto simp: ReadAll_limit_def split: if_splits)
    then have l: "length (Body r) = length content" using le assms(5) by linarith
    have "content \<noteq> []" using l \<open>maxBlockmapSize \<le> int (length (Body r))\<close> by (auto simp: maxBlockmapSize_def)
    then have "prefix (Body r) content"
      using ar' l NewRequest_sent [OF a(1)] by (auto simp: arrives_def ServeContent_whole content_response_def Let_def slice_def split: option.splits)
    then have "Body r = content" using l by (auto simp: prefix_def)
    then show ?thesis using raw l assms(5) \<open>maxBlockmapSize \<le> int (length (Body r))\<close> by (auto simp: ReadAll_limit_def)
  qed
qed

end
