(* ===== verification/Xorstrip.thy ===== *)
theory Xorstrip
  imports Files
begin

text \<open>
  The tool \<open>tools/xorstrip\<close>: it removes the XOR obfuscation of Bitcoin Core's block files in
  place. Modelled are the key, the detection of a file's state, the loop over chunks with
  its partial reads and writes, the search for the point where an interrupted conversion
  stopped, and the whole run. The workers handle different files, so they are run in the
  order of the files; when several fail, the error kept is that of the first. Printed
  messages and counts are left out. Shown: a run converts exactly the obfuscated files and
  running it again changes nothing; the key is cleared only after every file was written;
  an interrupted file is completed by a repair. Two flaws are shown as well: a repair spoils
  the files of every network but the main one, and a failing read counts as the end of a file.
\<close>

section \<open>Reading and writing a file in place\<close>

text \<open>
  \<open>ReadAt\<close> and \<open>WriteAt\<close> may fail after a part of the bytes; the environment says, for a file
  and an offset, after how many and with which error.
\<close>

record xor_env =
  xe_io :: io_env
  read_fault :: "string \<Rightarrow> nat \<Rightarrow> (nat \<times> go_error) option"
  write_fault :: "string \<Rightarrow> nat \<Rightarrow> (nat \<times> go_error) option"

definition xor_ok :: xor_env where
  "xor_ok = \<lparr>xe_io = io_ok, read_fault = (\<lambda>_ _. None), write_fault = (\<lambda>_ _. None)\<rparr>"

definition read_at :: "xor_env \<Rightarrow> string \<Rightarrow> bytes \<Rightarrow> nat \<Rightarrow> nat \<Rightarrow> bytes \<times> go_error option" where
  "read_at env p c off n =
     (case read_fault env p off of
        Some (k, e) \<Rightarrow> (slice off (min k n) c, Some e)
      | None \<Rightarrow> (slice off n c, if off + n \<le> length c then None else Some EOF))"

definition overwrite :: "nat \<Rightarrow> bytes \<Rightarrow> bytes \<Rightarrow> bytes" where
  "overwrite off b c = take off c @ b @ drop (off + length b) c"

definition write_in :: "xor_env \<Rightarrow> string \<Rightarrow> nat \<Rightarrow> bytes \<Rightarrow> bytes \<Rightarrow> go_error option \<times> bytes" where
  "write_in env p off b c =
     (case write_fault env p off of
        Some (k, e) \<Rightarrow> (Some e, overwrite off (take k b) c)
      | None \<Rightarrow> (None, overwrite off b c))"

section \<open>The key and the state of a file\<close>

definition networkMagics :: "32 word \<rightharpoonup> string" where
  "networkMagics =
     [0xD9B4BEF9 \<mapsto> ''mainnet'', 0x0709110B \<mapsto> ''testnet3'', 0x40CF030A \<mapsto> ''signet'',
      0xDAB5BFFA \<mapsto> ''regtest'', 0x283F161C \<mapsto> ''testnet4'']"

abbreviation (input) xorKeySize :: nat where "xorKeySize \<equiv> 8"

definition bufSize :: nat where "bufSize = 8 * 1024 * 1024"

datatype fileState = stateRaw | stateObfuscated | stateUnknown

record repairJob =
  rj_path :: string
  rj_offset :: nat

definition all_zero :: "bytes \<Rightarrow> bool" where
  "all_zero data \<longleftrightarrow> list_all (\<lambda>b. b = 0) data"

definition loadKey :: "io_env \<Rightarrow> disk \<Rightarrow> string \<Rightarrow> string \<Rightarrow> bytes result" where
  "loadKey env d blocksDir keyHex =
     (if keyHex \<noteq> [] then
        (case DecodeString keyHex of
           None \<Rightarrow> Inl (ErrNew ''invalid --key hex'')
         | Some key \<Rightarrow> if length key \<noteq> xorKeySize then Inl (ErrNew ''--key must be 8 bytes'') else Inr key)
      else
        bindE (wrapE ''read xor.dat'' (os_ReadFile env d (path_Join blocksDir ''xor.dat''))) (\<lambda>data.
        bindE (if length data = xorKeySize then Inr data
               else if length data = xorKeySize + 1 then
                 (if data ! 0 = of_nat xorKeySize then Inr (drop 1 data)
                  else Inl (ErrNew ''xor.dat: unexpected format''))
               else Inl (ErrNew ''xor.dat: unexpected length'')) (\<lambda>data.
        if all_zero data then Inl (ErrNew ''xor.dat is all zeros'') else Inr data)))"

definition detectState :: "xor_env \<Rightarrow> disk \<Rightarrow> string \<Rightarrow> bytes \<Rightarrow> fileState \<times> string" where
  "detectState env d path key =
     (case os_Open (xe_io env) d path of
        Inl e \<Rightarrow> (stateUnknown, [])
      | Inr f \<Rightarrow>
          (case read_at env path f 0 4 of
             (_, Some e) \<Rightarrow> (stateUnknown, [])
           | (buf, None) \<Rightarrow>
               (case networkMagics (Uint32 buf) of
                  Some network \<Rightarrow> (stateRaw, network)
                | None \<Rightarrow>
                    (case networkMagics (Uint32 (map (\<lambda>i. buf ! i XOR key ! i) [0..<4])) of
                       Some network \<Rightarrow> (stateObfuscated, network)
                     | None \<Rightarrow> (stateUnknown, [])))))"

definition zeroXorDat :: "io_env \<Rightarrow> string \<Rightarrow> disk_op" where
  "zeroXorDat env blocksDir d =
     (let xorPath = path_Join blocksDir ''xor.dat'' in
      case os_ReadFile env d xorPath of
        Inl e \<Rightarrow> (None, d)
      | Inr data \<Rightarrow>
          if all_zero data then (None, d)
          else (case os_WriteFile env xorPath (replicate (length data) 0) d of
                  (Some e, d') \<Rightarrow> (Some (Errorf ''zero xor.dat'' e), d')
                | (None, d') \<Rightarrow> (None, d')))"

text \<open>
  \<open>filepath.WalkDir\<close> visits the directory itself and then its entries in order; a
  subdirectory is skipped. The name of the directory is tested like that of a file.
\<close>

definition block_file :: "string \<Rightarrow> bool" where
  "block_file name \<longleftrightarrow> (HasPrefix name ''blk'' \<or> HasPrefix name ''rev'') \<and> HasSuffix name ''.dat''"

definition collectBlockFiles :: "io_env \<Rightarrow> disk \<Rightarrow> string \<Rightarrow> string list result" where
  "collectBlockFiles env d dir =
     sys env (SysStat dir)
       (bindE (os_ReadDir env d dir) (\<lambda>names.
          Inr ((if block_file (path_Base dir) then [dir] else [])
               @ map (path_Join dir) (filter block_file names))))"

section \<open>The conversion of a file\<close>

definition xor_chunk :: "bytes \<Rightarrow> nat \<Rightarrow> bytes \<Rightarrow> bytes" where
  "xor_chunk key offset chunk =
     map (\<lambda>i. chunk ! i XOR key ! ((offset + i) mod length key)) [0..<length chunk]"

lemma length_xor_chunk [simp]: "length (xor_chunk key off b) = length b"
  by (simp add: xor_chunk_def)

lemma length_overwrite: "off + length b \<le> length c \<Longrightarrow> length (overwrite off b c) = length c"
  by (simp add: overwrite_def)

lemma read_at_full: "read_at env p c off n = (b, None) \<Longrightarrow> length b = n \<and> off + n \<le> length c"
  by (auto simp: read_at_def split: option.splits if_splits)

lemma read_at_within: "read_at env p c off n = (b, err) \<Longrightarrow> b = slice off (length b) c \<and> (off \<le> length c \<longrightarrow> off + length b \<le> length c)"
  by (auto simp: read_at_def slice_def min_def split: option.splits if_splits)

lemma length_write_in:
  "write_in env p off b c = (err, c') \<Longrightarrow> off + length b \<le> length c \<Longrightarrow> length c' = length c"
  by (auto simp: write_in_def length_overwrite split: option.splits)

lemma bufSize_pos [simp]: "0 < bufSize"
  by (simp add: bufSize_def)

lemma chunk_decreases:
  assumes "(b, None) = read_at env p c off bufSize" "(w, c') = write_in env p off (xor_chunk key off b) c"
  shows "length c' - (off + length b) < length c - off"
proof -
  have b: "length b = bufSize" "off + bufSize \<le> length c" using read_at_full [OF assms(1) [symmetric]] by auto
  then have "length c' = length c" using length_write_in [OF assms(2) [symmetric]] by simp
  then show ?thesis using b bufSize_pos by linarith
qed

lemma chunk_nonempty: "([], None) = read_at env p c off bufSize \<Longrightarrow> False"
  using read_at_full [of env p c off bufSize "[]"] bufSize_pos by simp

text \<open>
  The loop: read a chunk, write it back decoded, go on until a read reports an error, the end
  of the file or any other. It returns the error of a failing write, the offset reached and
  the new content. It ends because a read without an error has filled its buffer.
\<close>

function xor_loop :: "xor_env \<Rightarrow> string \<Rightarrow> bytes \<Rightarrow> nat \<Rightarrow> bytes \<Rightarrow> go_error option \<times> nat \<times> bytes" where
  "xor_loop env path key offset c =
     (case read_at env path c offset bufSize of
        (chunk, err) \<Rightarrow>
          (case (if chunk \<noteq> [] then write_in env path offset (xor_chunk key offset chunk) c else (None, c)) of
             (Some werr, c') \<Rightarrow> (Some werr, offset, c')
           | (None, c') \<Rightarrow>
               let offset' = offset + length chunk in
               if err \<noteq> None then (None, offset', c') else xor_loop env path key offset' c'))"
  by pat_completeness auto
termination
proof (relation "measure (\<lambda>(env, path, key, offset, c). length c - offset)", goal_cases)
  case 2
  then show ?case
    by (auto split: if_splits intro: chunk_decreases chunk_nonempty)
qed simp

declare xor_loop.simps [simp del]

definition xorFileFromOffset ::
  "xor_env \<Rightarrow> string \<Rightarrow> bytes \<Rightarrow> nat \<Rightarrow> disk \<Rightarrow> (nat \<times> go_error option) \<times> disk" where
  "xorFileFromOffset env path key startOffset d =
     (case os_Open (xe_io env) d path of
        Inl e \<Rightarrow> ((0, Some e), d)
      | Inr c \<Rightarrow>
          (case xor_loop env path key startOffset c of
             (Some werr, offset, c') \<Rightarrow> ((offset - startOffset, Some werr), d(path \<mapsto> c'))
           | (None, offset, c') \<Rightarrow>
               ((offset - startOffset, fault (xe_io env) (SysSync path)), d(path \<mapsto> c'))))"

definition xorFileInPlace :: "xor_env \<Rightarrow> string \<Rightarrow> bytes \<Rightarrow> disk \<Rightarrow> (nat \<times> go_error option) \<times> disk" where
  "xorFileInPlace env path key = xorFileFromOffset env path key 0"

section \<open>Interrupted conversions\<close>

definition rawMagic :: bytes where
  "rawMagic = [0xf9, 0xbe, 0xb4, 0xd9]"

text \<open>The loop over the chunks; \<open>- 1\<close> when each holds the magic.\<close>

function boundary_loop :: "xor_env \<Rightarrow> string \<Rightarrow> bytes \<Rightarrow> nat \<Rightarrow> int" where
  "boundary_loop env path c offset =
     (if offset < length c then
        (case read_at env path c offset bufSize of
           (buf, err) \<Rightarrow>
             if buf = [] \<and> err \<noteq> None then - 1
             else if \<not> Contains buf rawMagic then int offset
             else boundary_loop env path c (offset + bufSize))
      else - 1)"
  by pat_completeness auto
termination
  by (relation "measure (\<lambda>(env, path, c, offset). length c - offset)") (auto simp: bufSize_def)

declare boundary_loop.simps [simp del]

definition findConversionBoundary :: "xor_env \<Rightarrow> disk \<Rightarrow> string \<Rightarrow> int result" where
  "findConversionBoundary env d path =
     bindE (os_Open (xe_io env) d path) (\<lambda>c.
     bindE (os_Stat (xe_io env) d path) (\<lambda>_. Inr (boundary_loop env path c 0)))"

section \<open>A run\<close>

text \<open>What the loop over the files appends to \<open>toConvert\<close> and \<open>toRepair\<close> for one file.\<close>

definition classify_file ::
  "xor_env \<Rightarrow> disk \<Rightarrow> bytes \<Rightarrow> bool \<Rightarrow> string \<Rightarrow> string list \<times> repairJob list" where
  "classify_file env d key repair path =
     (case fst (detectState env d path key) of
        stateRaw \<Rightarrow>
          if repair \<and> HasPrefix (path_Base path) ''blk'' then
            (case findConversionBoundary env d path of
               Inr boundary \<Rightarrow>
                 if boundary \<ge> 0 then ([], [\<lparr>rj_path = path, rj_offset = nat boundary\<rparr>]) else ([], [])
             | Inl ferr \<Rightarrow> ([], []))
          else ([], [])
      | stateObfuscated \<Rightarrow> ([path], [])
      | stateUnknown \<Rightarrow> ([], []))"

definition classify ::
  "xor_env \<Rightarrow> disk \<Rightarrow> bytes \<Rightarrow> bool \<Rightarrow> string list \<Rightarrow> string list \<times> repairJob list" where
  "classify env d key repair files =
     (concat (map (fst \<circ> classify_file env d key repair) files),
      concat (map (snd \<circ> classify_file env d key repair) files))"

text \<open>The jobs of one kind: all are done, the first error is kept. With no worker the send blocks.\<close>

fun convert_jobs :: "xor_env \<Rightarrow> string \<Rightarrow> bytes \<Rightarrow> repairJob list \<Rightarrow> disk_op" where
  "convert_jobs env what key [] d = (None, d)"
| "convert_jobs env what key (job # jobs) d =
     (case xorFileFromOffset env (rj_path job) key (rj_offset job) d of
        ((n, err), d1) \<Rightarrow>
          (case convert_jobs env what key jobs d1 of
             (firstErr, d2) \<Rightarrow>
               ((case err of Some e \<Rightarrow> Some (Errorf (what @ path_Base (rj_path job)) e) | None \<Rightarrow> firstErr), d2)))"

definition run_jobs :: "xor_env \<Rightarrow> string \<Rightarrow> bytes \<Rightarrow> int \<Rightarrow> repairJob list \<Rightarrow> disk_op" where
  "run_jobs env what key workers jobs d =
     (if jobs = [] then (None, d)
      else if workers \<le> 0 then (Some (Panic ''all goroutines are asleep - deadlock''), d)
      else convert_jobs env what key jobs d)"

definition run_xorstrip :: "xor_env \<Rightarrow> string \<Rightarrow> string \<Rightarrow> bool \<Rightarrow> bool \<Rightarrow> int \<Rightarrow> disk_op" where
  "run_xorstrip env blocksDir keyHex dryRun repair workers d =
     (case loadKey (xe_io env) d blocksDir keyHex of
        Inl e \<Rightarrow> (Some e, d)
      | Inr key \<Rightarrow>
     (case collectBlockFiles (xe_io env) d blocksDir of
        Inl e \<Rightarrow> (Some e, d)
      | Inr files \<Rightarrow>
          if files = [] then (None, d)
          else
            (case classify env d key repair files of
               (toConvert, toRepair) \<Rightarrow>
                 if dryRun then (None, d)
                 else if toConvert = [] \<and> toRepair = [] then zeroXorDat (xe_io env) blocksDir d
                 else
                   (case run_jobs env ''convert '' key workers (map (\<lambda>p. \<lparr>rj_path = p, rj_offset = 0\<rparr>) toConvert) d of
                      (Some firstErr, d1) \<Rightarrow> (Some firstErr, d1)
                    | (None, d1) \<Rightarrow>
                        (case run_jobs env ''repair '' key workers toRepair d1 of
                           (Some firstErr, d2) \<Rightarrow> (Some firstErr, d2)
                         | (None, d2) \<Rightarrow> zeroXorDat (xe_io env) blocksDir d2)))))"

section \<open>What a conversion does\<close>

text \<open>
  The reference: the bytes from \<open>a\<close> to \<open>b\<close> combined with the key, which repeats from the
  start of the file.
\<close>

definition strip :: "bytes \<Rightarrow> nat \<Rightarrow> nat \<Rightarrow> bytes \<Rightarrow> bytes" where
  "strip key a b c = map (\<lambda>i. if a \<le> i \<and> i < b then c ! i XOR key ! (i mod length key) else c ! i) [0..<length c]"

lemma length_strip [simp]: "length (strip key a b c) = length c"
  by (simp add: strip_def)

lemma nth_strip [simp]:
  "i < length c \<Longrightarrow> strip key a b c ! i = (if a \<le> i \<and> i < b then c ! i XOR key ! (i mod length key) else c ! i)"
  by (simp add: strip_def)

lemma strip_empty [simp]: "b \<le> a \<Longrightarrow> strip key a b c = c"
  by (rule nth_equalityI) auto

lemma strip_join: "a \<le> m \<Longrightarrow> m \<le> b \<Longrightarrow> strip key m b (strip key a m c) = strip key a b c"
  by (rule nth_equalityI) auto

lemma strip_twice: "strip key a b (strip key a b c) = c"
  by (rule nth_equalityI) (auto simp: xor.assoc)

lemma overwrite_strip:
  assumes "off + n \<le> length c"
  shows "overwrite off (take k (xor_chunk key off (slice off n c))) c = strip key off (off + min k n) c"
proof (rule nth_equalityI)
  have n: "length (slice off n c) = n" using assms by simp
  show "length (overwrite off (take k (xor_chunk key off (slice off n c))) c) = length (strip key off (off + min k n) c)"
    using assms n by (simp add: overwrite_def)
  fix i assume "i < length (overwrite off (take k (xor_chunk key off (slice off n c))) c)"
  then have "i < length c" using assms n by (simp add: overwrite_def)
  then show "overwrite off (take k (xor_chunk key off (slice off n c))) c ! i = strip key off (off + min k n) c ! i"
    using assms by (auto simp: overwrite_def nth_append xor_chunk_def slice_def min_def)
qed

lemma write_in_strip:
  assumes "off + length b \<le> length c" "b = slice off (length b) c"
    "write_in env p off (xor_chunk key off b) c = (err, c')"
  obtains m where "off \<le> m" "m \<le> off + length b" "c' = strip key off m c" "err = None \<Longrightarrow> m = off + length b"
proof (cases "write_fault env p off")
  case None
  then have "c' = overwrite off (take (length b) (xor_chunk key off b)) c"
    using assms(3) by (simp add: write_in_def)
  also have "\<dots> = strip key off (off + length b) c"
    using overwrite_strip [OF assms(1), of "length b" key] assms(2) by simp
  finally show thesis using that [of "off + length b"] by simp
next
  case (Some f)
  obtain k e where "write_fault env p off = Some (k, e)" using Some by (cases f) auto
  then have "err \<noteq> None" "c' = overwrite off (take k (xor_chunk key off b)) c"
    using assms(3) by (auto simp: write_in_def)
  then show thesis
    using that [of "off + min k (length b)"] overwrite_strip [OF assms(1), of k key] assms(2) by auto
qed

text \<open>
  The loop converts from its offset up to some point; without a failing write that is the
  offset reached, and without failing reads the end of the file.
\<close>

lemma xor_loop_strip:
  assumes "xor_loop env p key off c = (err, off', c')" "off \<le> length c"
  shows "\<exists>m. off \<le> off' \<and> off' \<le> m \<and> m \<le> length c \<and> c' = strip key off m c
    \<and> (err = None \<longrightarrow> m = off' \<and> ((\<forall>o1. read_fault env p o1 = None) \<longrightarrow> off' = length c))
    \<and> ((\<forall>o1. write_fault env p o1 = None) \<longrightarrow> err = None)"
  using assms
proof (induction env p key off c arbitrary: err off' c' rule: xor_loop.induct)
  case (1 env p key off c)
  obtain b rerr where r: "read_at env p c off bufSize = (b, rerr)" by fastforce
  note b = read_at_within [OF r]
  have eof: "off + length b = length c" if "rerr \<noteq> None" "\<forall>o1. read_fault env p o1 = None"
    using r that \<open>off \<le> length c\<close> by (auto simp: read_at_def split: if_splits)
  define w where "w = (if b \<noteq> [] then write_in env p off (xor_chunk key off b) c else (None, c))"
  obtain werr c1 where w1: "w = (werr, c1)" by fastforce
  obtain m where m: "off \<le> m" "m \<le> off + length b" "c1 = strip key off m c" "werr = None \<Longrightarrow> m = off + length b"
  proof (cases "b = []")
    case True
    then show ?thesis using that [of off] w1 by (simp add: w_def)
  next
    case False
    then show ?thesis
      using write_in_strip [of off b c env p key werr c1] b \<open>off \<le> length c\<close> w1 that by (auto simp: w_def)
  qed
  have nofault: "werr = None" if "\<forall>o1. write_fault env p o1 = None"
    using w1 that by (auto simp: w_def write_in_def split: if_splits)
  have eq: "xor_loop env p key off c =
    (case w of (Some e, c') \<Rightarrow> (Some e, off, c')
     | (None, c') \<Rightarrow> if rerr \<noteq> None then (None, off + length b, c') else xor_loop env p key (off + length b) c')"
    unfolding xor_loop.simps [of env p key off c] r prod.case w_def Let_def by (rule refl)
  consider (fail) e where "werr = Some e" | (last) "werr = None" "rerr \<noteq> None" | (more) "werr = None" "rerr = None"
    by (cases werr) auto
  then show ?case
  proof cases
    case fail
    then show ?thesis using "1.prems" eq w1 m b nofault by (intro exI [of _ m]) auto
  next
    case last
    then show ?thesis
      using "1.prems" eq w1 m b nofault eof by (intro exI [of _ m]) auto
  next
    case more
    then have "m = off + length b" "m \<le> length c" using m b \<open>off \<le> length c\<close> by auto
    have rec: "xor_loop env p key m c1 = (err, off', c')"
      using "1.prems"(1) eq w1 more \<open>m = _\<close> by simp
    have "\<exists>m'. m \<le> off' \<and> off' \<le> m' \<and> m' \<le> length c1 \<and> c' = strip key m m' c1
      \<and> (err = None \<longrightarrow> m' = off' \<and> ((\<forall>o1. read_fault env p o1 = None) \<longrightarrow> off' = length c1))
      \<and> ((\<forall>o1. write_fault env p o1 = None) \<longrightarrow> err = None)"
      by (rule "1.IH" [OF r [symmetric] w1 [unfolded w_def, symmetric]])
        (use more rec m \<open>m = _\<close> \<open>m \<le> length c\<close> in auto)
    then show ?thesis
      using m strip_join [of off m _ key c] by (metis (no_types, lifting) le_trans length_strip)
  qed
qed

text \<open>The effect on one file: a part of it from the start offset on, all of it when no error is reported.\<close>

definition reads_ok :: "xor_env \<Rightarrow> bool" where
  "reads_ok env \<longleftrightarrow> (\<forall>p k. read_fault env p k = None) \<and> (\<forall>p. fault (xe_io env) (SysOpen p) = None)
     \<and> (\<forall>p. fault (xe_io env) (SysStat p) = None)"

definition xor_quiet :: "xor_env \<Rightarrow> bool" where
  "xor_quiet env \<longleftrightarrow> reads_ok env \<and> (\<forall>p k. write_fault env p k = None) \<and> fault (xe_io env) = (\<lambda>_. None)
     \<and> space (xe_io env) = (\<lambda>_. None)"

lemma xor_quiet_ok [simp]: "xor_quiet xor_ok" "reads_ok xor_ok"
  by (auto simp: xor_quiet_def reads_ok_def xor_ok_def io_ok_def)

definition part_done :: "xor_env \<Rightarrow> bytes \<Rightarrow> bool \<Rightarrow> nat \<Rightarrow> bytes \<Rightarrow> bytes \<Rightarrow> bool" where
  "part_done env key all_done start c c' \<longleftrightarrow>
     (\<exists>m. start \<le> m \<and> m \<le> length c \<and> c' = strip key start m c \<and> (all_done \<longrightarrow> reads_ok env \<longrightarrow> m = length c))"

lemma part_done_none [simp]: "start \<le> length c \<Longrightarrow> part_done env key False start c c"
  unfolding part_done_def by (metis order_refl strip_empty)

lemma part_done_weaken: "part_done env key a start c c' \<Longrightarrow> (b \<longrightarrow> a) \<Longrightarrow> part_done env key b start c c'"
  unfolding part_done_def by blast

lemma xorFileFromOffset_effect:
  assumes "xorFileFromOffset env p key s d = ((n, err), d')" "d p = Some c" "s \<le> length c"
  shows "\<exists>c'. d' = d(p \<mapsto> c') \<and> part_done env key (err = None) s c c'"
    and "xor_quiet env \<Longrightarrow> err = None"
proof -
  obtain werr off' c' where l: "xor_loop env p key s c = (werr, off', c')" by (cases "xor_loop env p key s c")
  from xor_loop_strip [OF l assms(3)] obtain m where m: "s \<le> m" "m \<le> length c" "c' = strip key s m c"
    "werr = None \<longrightarrow> (\<forall>o1. read_fault env p o1 = None) \<longrightarrow> m = length c"
    "(\<forall>o1. write_fault env p o1 = None) \<longrightarrow> werr = None" by (metis le_trans)
  show "xor_quiet env \<Longrightarrow> err = None"
    using assms m(5) l by (auto simp: xorFileFromOffset_def os_Open_def xor_quiet_def)
  show "\<exists>c'. d' = d(p \<mapsto> c') \<and> part_done env key (err = None) s c c'"
  proof (cases "fault (xe_io env) (SysOpen p)")
    case None
    then have "d' = d(p \<mapsto> c')" "err = None \<longrightarrow> werr = None"
      using assms(1,2) l by (auto simp: xorFileFromOffset_def os_Open_def split: option.splits)
    then show ?thesis
      using m unfolding part_done_def reads_ok_def by metis
  next
    case (Some e)
    then have "d' = d" "err \<noteq> None"
      using assms(1) by (simp_all add: xorFileFromOffset_def os_Open_def sys_def) (metis option.distinct(1))
    then show ?thesis using assms(2,3) by (intro exI [of _ c]) (auto simp: fun_upd_idem)
  qed
qed

text \<open>Jobs on different files do not disturb each other.\<close>

definition jobs_ok :: "disk \<Rightarrow> repairJob list \<Rightarrow> bool" where
  "jobs_ok d jobs \<longleftrightarrow> distinct (map rj_path jobs)
     \<and> (\<forall>job \<in> set jobs. \<exists>c. d (rj_path job) = Some c \<and> rj_offset job \<le> length c)"

definition job_effect :: "xor_env \<Rightarrow> bytes \<Rightarrow> bool \<Rightarrow> disk \<Rightarrow> disk \<Rightarrow> repairJob \<Rightarrow> bool" where
  "job_effect env key all_done d d' job \<longleftrightarrow>
     (\<exists>c c'. d (rj_path job) = Some c \<and> d' (rj_path job) = Some c' \<and> part_done env key all_done (rj_offset job) c c')"

lemma job_effect_weaken: "job_effect env key a d d' job \<Longrightarrow> (b \<longrightarrow> a) \<Longrightarrow> job_effect env key b d d' job"
  unfolding job_effect_def using part_done_weaken by blast

lemma job_effect_cong:
  "d (rj_path job) = e (rj_path job) \<Longrightarrow> d' (rj_path job) = e' (rj_path job) \<Longrightarrow>
   job_effect env key a d d' job = job_effect env key a e e' job"
  by (simp add: job_effect_def)

lemma job_effect_none: "jobs_ok d jobs \<Longrightarrow> job \<in> set jobs \<Longrightarrow> job_effect env key False d d job"
  unfolding job_effect_def jobs_ok_def using part_done_none by blast

definition jobs_effect :: "xor_env \<Rightarrow> bytes \<Rightarrow> bool \<Rightarrow> repairJob list \<Rightarrow> disk \<Rightarrow> disk \<Rightarrow> bool" where
  "jobs_effect env key all_done jobs d d' \<longleftrightarrow>
     (\<forall>p. p \<notin> rj_path ` set jobs \<longrightarrow> d' p = d p)
     \<and> (\<forall>job \<in> set jobs. job_effect env key all_done d d' job)"

lemma convert_jobs_effect:
  assumes "convert_jobs env what key jobs d = (err, d')" "jobs_ok d jobs"
  shows "jobs_effect env key (err = None) jobs d d' \<and> (xor_quiet env \<longrightarrow> err = None)"
  using assms
proof (induction jobs arbitrary: d err)
  case (Cons job jobs)
  obtain n e1 d1 where x: "xorFileFromOffset env (rj_path job) key (rj_offset job) d = ((n, e1), d1)"
    by (metis prod.exhaust)
  obtain e2 where r: "convert_jobs env what key jobs d1 = (e2, d')"
    and e: "err = None \<longleftrightarrow> e1 = None \<and> e2 = None"
    using Cons.prems(1) x by (auto split: prod.splits option.splits)
  obtain c where c: "d (rj_path job) = Some c" "rj_offset job \<le> length c"
    using Cons.prems(2) by (auto simp: jobs_ok_def)
  obtain c' where c': "d1 = d(rj_path job \<mapsto> c')" "part_done env key (e1 = None) (rj_offset job) c c'"
    using xorFileFromOffset_effect(1) [OF x c] by blast
  have ok: "jobs_ok d1 jobs" using Cons.prems(2) c'(1) by (fastforce simp: jobs_ok_def image_iff)
  note ih = Cons.IH [OF r ok]
  have q: "xor_quiet env \<longrightarrow> err = None"
    using ih e xorFileFromOffset_effect(2) [OF x c] by blast
  have fresh: "rj_path job \<notin> rj_path ` set jobs" using Cons.prems(2) by (auto simp: jobs_ok_def)
  have head: "job_effect env key (err = None) d d' job"
    using ih fresh c' c(1) part_done_weaken [OF c'(2), of "err = None"] e
    unfolding jobs_effect_def job_effect_def by simp
  have tail: "job_effect env key (err = None) d d' j" if j: "j \<in> set jobs" for j
  proof -
    have "rj_path j \<noteq> rj_path job" using fresh j by (metis image_eqI)
    then have "d1 (rj_path j) = d (rj_path j)" using c'(1) by simp
    moreover have "job_effect env key (err = None) d1 d' j"
      using conjunct1 [OF ih, unfolded jobs_effect_def] j e job_effect_weaken by blast
    ultimately show ?thesis using job_effect_cong [of d1 j d d' d'] by simp
  qed
  have other: "d' p = d p" if "p \<notin> rj_path ` set (job # jobs)" for p
    using ih that c'(1) by (auto simp: jobs_effect_def)
  show ?case
    unfolding jobs_effect_def using q head tail other by simp
qed (simp add: jobs_effect_def)

lemma run_jobs_effect:
  assumes "run_jobs env what key workers jobs d = (err, d')" "jobs_ok d jobs"
  shows "jobs_effect env key (err = None) jobs d d' \<and> (xor_quiet env \<longrightarrow> 0 < workers \<longrightarrow> err = None)"
proof (cases "jobs = [] \<or> 0 < workers")
  case True
  then show ?thesis
    using assms convert_jobs_effect [of env what key jobs d err d']
    by (cases "jobs = []") (auto simp: run_jobs_def jobs_effect_def)
next
  case False
  then have "d' = d" "err \<noteq> None" using assms(1) by (auto simp: run_jobs_def)
  then show ?thesis
    using job_effect_none [OF assms(2)] False by (auto simp: jobs_effect_def)
qed

section \<open>What a run does\<close>

definition has_magic :: "bytes \<Rightarrow> bool" where
  "has_magic c \<longleftrightarrow> 4 \<le> length c \<and> networkMagics (Uint32 (take 4 c)) \<noteq> None"

definition obfuscated :: "bytes \<Rightarrow> bytes \<Rightarrow> bool" where
  "obfuscated key c \<longleftrightarrow> \<not> has_magic c \<and> has_magic (strip key 0 (length c) c)"

lemma loadKey_length: "loadKey env d dir keyHex = Inr key \<Longrightarrow> length key = 8"
  by (auto simp: loadKey_def result_iffs split: if_splits option.splits)

lemma detectState_iff:
  assumes "reads_ok env" "d p = Some c" "length key = 8"
  shows "fst (detectState env d p key) =
    (if has_magic c then stateRaw else if obfuscated key c then stateObfuscated else stateUnknown)"
proof (cases "4 \<le> length c")
  case True
  have "map (\<lambda>i. slice 0 4 c ! i XOR key ! i) [0..<4] = take 4 (strip key 0 (length c) c)"
    using True assms(3) by (intro nth_equalityI) (auto simp: slice_def)
  moreover have "read_at env p c 0 4 = (slice 0 4 c, None)"
    using assms(1) True by (simp add: reads_ok_def read_at_def)
  moreover have "slice 0 4 c = take 4 c" by (simp add: slice_def)
  ultimately show ?thesis
    using assms True
    by (auto simp: detectState_def os_Open_def reads_ok_def has_magic_def obfuscated_def split: option.splits)
next
  case False
  then have "snd (read_at env p c 0 4) \<noteq> None"
    using assms(1) by (simp add: reads_ok_def read_at_def)
  then show ?thesis
    using assms False
    by (auto simp: detectState_def os_Open_def reads_ok_def has_magic_def obfuscated_def split: option.splits prod.splits)
qed

lemma boundary_loop_bound: "0 \<le> boundary_loop env p c off \<Longrightarrow> nat (boundary_loop env p c off) \<le> length c"
proof (induction env p c off rule: boundary_loop.induct)
  case (1 env p c off)
  then show ?case
    by (subst boundary_loop.simps, subst (asm) (2) boundary_loop.simps)
      (auto split: prod.splits if_splits)
qed

text \<open>Where the conversion of a file starts, if it is converted at all.\<close>

definition partial_file :: "xor_env \<Rightarrow> bool \<Rightarrow> string \<Rightarrow> bytes \<Rightarrow> bool" where
  "partial_file env repair p c \<longleftrightarrow>
     has_magic c \<and> repair \<and> HasPrefix (path_Base p) ''blk'' \<and> 0 \<le> boundary_loop env p c 0"

definition start_of :: "xor_env \<Rightarrow> bytes \<Rightarrow> bool \<Rightarrow> string \<Rightarrow> bytes \<Rightarrow> nat option" where
  "start_of env key repair p c =
     (if obfuscated key c then Some 0
      else if partial_file env repair p c then Some (nat (boundary_loop env p c 0)) else None)"

lemma classify_file_iff:
  assumes "reads_ok env" "d p = Some c" "length key = 8"
  shows "classify_file env d key repair p =
    (if obfuscated key c then [p] else [],
     if partial_file env repair p c then [\<lparr>rj_path = p, rj_offset = nat (boundary_loop env p c 0)\<rparr>] else [])"
proof -
  have "findConversionBoundary env d p = Inr (boundary_loop env p c 0)"
    using assms by (simp add: findConversionBoundary_def os_Open_def os_Stat_def reads_ok_def)
  moreover have "obfuscated key c \<Longrightarrow> \<not> has_magic c" by (simp add: obfuscated_def)
  ultimately show ?thesis
    using detectState_iff [of env d p c key, OF assms] by (auto simp: classify_file_def partial_file_def)
qed

lemma concat_map_singleton: "concat (map (\<lambda>x. if P x then [f x] else []) xs) = map f (filter P xs)"
  by (induction xs) auto

lemma classify_iff:
  assumes "reads_ok env" "\<forall>p \<in> set files. d p \<noteq> None" "length key = 8"
  shows "classify env d key repair files =
    (filter (\<lambda>p. obfuscated key (the (d p))) files,
     map (\<lambda>p. \<lparr>rj_path = p, rj_offset = nat (boundary_loop env p (the (d p)) 0)\<rparr>)
       (filter (\<lambda>p. partial_file env repair p (the (d p))) files))"
proof -
  have cf: "classify_file env d key repair p =
      (if obfuscated key (the (d p)) then [p] else [],
       if partial_file env repair p (the (d p))
       then [\<lparr>rj_path = p, rj_offset = nat (boundary_loop env p (the (d p)) 0)\<rparr>] else [])"
    if "p \<in> set files" for p
    using classify_file_iff [OF assms(1) _ assms(3)] assms(2) that by fastforce
  have "map (fst \<circ> classify_file env d key repair) files =
      map (\<lambda>p. if obfuscated key (the (d p)) then [p] else []) files"
    "map (snd \<circ> classify_file env d key repair) files =
      map (\<lambda>p. if partial_file env repair p (the (d p))
         then [\<lparr>rj_path = p, rj_offset = nat (boundary_loop env p (the (d p)) 0)\<rparr>] else []) files"
    using cf by simp_all
  then show ?thesis
    unfolding classify_def
    by (simp only: concat_map_singleton list.map_ident)
qed

lemma os_WriteFile_other': "q \<noteq> p \<Longrightarrow> os_WriteFile env p data d = (err, d') \<Longrightarrow> d' q = d q"
  using os_WriteFile_other [of q p env data d] by simp

lemma zeroXorDat_effect:
  assumes "zeroXorDat env dir d = (err, d')"
  shows "\<forall>p. p \<noteq> path_Join dir ''xor.dat'' \<longrightarrow> d' p = d p"
    and "fault env = (\<lambda>_. None) \<Longrightarrow> space env = (\<lambda>_. None) \<Longrightarrow>
      err = None \<and> d' (path_Join dir ''xor.dat'') = map_option (\<lambda>k. replicate (length k) 0) (d (path_Join dir ''xor.dat''))"
proof -
  show "\<forall>p. p \<noteq> path_Join dir ''xor.dat'' \<longrightarrow> d' p = d p"
  proof (intro allI impI)
    fix p assume p: "p \<noteq> path_Join dir ''xor.dat''"
    show "d' p = d p"
    proof (cases "os_ReadFile env d (path_Join dir ''xor.dat'')")
      case (Inr k)
      obtain e d1 where w: "os_WriteFile env (path_Join dir ''xor.dat'') (replicate (length k) 0) d = (e, d1)"
        by fastforce
      show ?thesis
        using assms Inr w os_WriteFile_other' [OF p w] by (cases "all_zero k"; cases e) (auto simp: zeroXorDat_def)
    qed (use assms in \<open>simp add: zeroXorDat_def\<close>)
  qed
  show "err = None \<and> d' (path_Join dir ''xor.dat'') = map_option (\<lambda>k. replicate (length k) 0) (d (path_Join dir ''xor.dat''))"
    if "fault env = (\<lambda>_. None)" "space env = (\<lambda>_. None)"
  proof (cases "d (path_Join dir ''xor.dat'')")
    case None
    then show ?thesis using assms that by (simp add: zeroXorDat_def os_ReadFile_def os_Open_def)
  next
    case (Some k)
    then have r: "os_ReadFile env d (path_Join dir ''xor.dat'') = Inr k"
      using that by (simp add: os_ReadFile_def os_Open_def)
    show ?thesis
    proof (cases "all_zero k")
      case True
      then have "replicate (length k) 0 = k"
        by (intro replicate_length_same) (simp add: all_zero_def list_all_iff)
      then show ?thesis using True Some r assms by (simp add: zeroXorDat_def)
    next
      case False
      then show ?thesis using Some r assms that by (auto simp: zeroXorDat_def os_WriteFile_ok)
    qed
  qed
qed

text \<open>The files of a run: the block files of the directory, each once.\<close>

definition block_paths :: "disk \<Rightarrow> string \<Rightarrow> string set" where
  "block_paths d dir = path_Join dir ` {n \<in> dir_names d dir. block_file n}"

lemma collectBlockFiles_iff:
  assumes "finite (dom d)" "\<not> block_file (path_Base dir)" "collectBlockFiles env d dir = Inr files"
  shows "set files = block_paths d dir" "distinct files" "\<forall>p \<in> set files. d p \<noteq> None"
    "path_Join dir ''xor.dat'' \<notin> set files"
proof -
  have f: "files = map (path_Join dir) (filter block_file (sorted_list_of_set (dir_names d dir)))"
    using assms(2,3) by (auto simp: collectBlockFiles_def os_ReadDir_def result_iffs)
  have fin: "finite (dir_names d dir)" by (rule finite_dir_names [OF assms(1)])
  then show s: "set files = block_paths d dir" unfolding f block_paths_def by auto
  have "inj_on (path_Join dir) A" for A by (auto intro: inj_onI)
  then show "distinct files" using fin unfolding f by (simp add: distinct_map)
  show "\<forall>p \<in> set files. d p \<noteq> None" unfolding s by (auto simp: block_paths_def dir_names_def)
  have "\<not> block_file ''xor.dat''" by code_simp
  then show "path_Join dir ''xor.dat'' \<notin> set files" unfolding s by (auto simp: block_paths_def)
qed

text \<open>The jobs of a run, and what its two phases do with them.\<close>

definition jobs_of :: "xor_env \<Rightarrow> disk \<Rightarrow> bytes \<Rightarrow> bool \<Rightarrow> string list \<Rightarrow> repairJob list" where
  "jobs_of env d key repair files =
     map (\<lambda>p. \<lparr>rj_path = p, rj_offset = 0\<rparr>) (filter (\<lambda>p. obfuscated key (the (d p))) files)
     @ map (\<lambda>p. \<lparr>rj_path = p, rj_offset = nat (boundary_loop env p (the (d p)) 0)\<rparr>)
         (filter (\<lambda>p. partial_file env repair p (the (d p))) files)"

lemma jobs_of_iff:
  assumes "\<forall>p \<in> set files. d p \<noteq> None"
  shows "job \<in> set (jobs_of env d key repair files) \<longleftrightarrow>
    (\<exists>p c. p \<in> set files \<and> d p = Some c \<and> rj_path job = p \<and> start_of env key repair p c = Some (rj_offset job))"
proof -
  have ex: "\<not> (obfuscated key c \<and> partial_file env repair p c)" for p c
    by (auto simp: obfuscated_def partial_file_def)
  have "job \<in> set (jobs_of env d key repair files) \<longleftrightarrow> (\<exists>p \<in> set files. rj_path job = p
      \<and> (obfuscated key (the (d p)) \<and> rj_offset job = 0
         \<or> partial_file env repair p (the (d p)) \<and> rj_offset job = nat (boundary_loop env p (the (d p)) 0)))"
    unfolding jobs_of_def by (cases job) auto
  also have "\<dots> \<longleftrightarrow> (\<exists>p \<in> set files. rj_path job = p \<and> start_of env key repair p (the (d p)) = Some (rj_offset job))"
    using ex unfolding start_of_def by (metis option.inject option.distinct(1))
  also have "\<dots> \<longleftrightarrow> (\<exists>p c. p \<in> set files \<and> d p = Some c \<and> rj_path job = p \<and> start_of env key repair p c = Some (rj_offset job))"
    using assms by force
  finally show ?thesis .
qed

lemma start_of_bound: "start_of env key repair p c = Some s \<Longrightarrow> s \<le> length c"
  using boundary_loop_bound [of env p c 0] by (auto simp: start_of_def partial_file_def split: if_splits)

lemma jobs_of_ok:
  assumes "\<forall>p \<in> set files. d p \<noteq> None" "distinct files"
  shows "jobs_ok d (jobs_of env d key repair files)"
proof -
  have "\<not> (obfuscated key c \<and> partial_file env repair p c)" for p c
    by (auto simp: obfuscated_def partial_file_def)
  then have "distinct (map rj_path (jobs_of env d key repair files))"
    using assms(2) by (auto simp: jobs_of_def comp_def)
  then show ?thesis
    unfolding jobs_ok_def using jobs_of_iff [OF assms(1)] start_of_bound by blast
qed

lemma jobs_ok_append [simp]:
  "jobs_ok d (J @ K) \<longleftrightarrow> jobs_ok d J \<and> jobs_ok d K \<and> rj_path ` set J \<inter> rj_path ` set K = {}"
  by (auto simp: jobs_ok_def)

lemma two_phases:
  assumes "jobs_ok d (J @ K)" "run_jobs env a key workers J d = (e1, d1)"
    and "e1 = None \<Longrightarrow> run_jobs env b key workers K d1 = (err, d2)" "e1 \<noteq> None \<Longrightarrow> err = e1 \<and> d2 = d1"
  shows "jobs_effect env key (err = None) (J @ K) d d2 \<and> (xor_quiet env \<longrightarrow> 0 < workers \<longrightarrow> err = None)"
proof -
  have 1: "jobs_effect env key (e1 = None) J d d1" "xor_quiet env \<longrightarrow> 0 < workers \<longrightarrow> e1 = None"
    using run_jobs_effect [OF assms(2)] assms(1) by auto
  have dis: "rj_path j \<notin> rj_path ` set K" if "j \<in> set J" for j
    using assms(1) that by auto
  have dis': "rj_path j \<notin> rj_path ` set J" if "j \<in> set K" for j
    using assms(1) that by auto
  have k: "d1 (rj_path j) = d (rj_path j)" if "j \<in> set K" for j
    using 1(1) dis' [OF that] by (simp add: jobs_effect_def)
  show ?thesis
  proof (cases e1)
    case None
    have "jobs_ok d1 K" using assms(1) k by (auto simp: jobs_ok_def)
    note 2 = run_jobs_effect [OF assms(3) [OF None] this]
    have "job_effect env key (err = None) d d2 j" if "j \<in> set J" for j
      using 1(1) 2 that dis [OF that] None job_effect_cong [of d j d d1 d2] job_effect_weaken [of env key True d d1 j]
      by (auto simp: jobs_effect_def)
    moreover have "job_effect env key (err = None) d d2 j" if "j \<in> set K" for j
      using 2 that job_effect_cong [of d1 j d d2 d2, OF k [OF that] refl] by (auto simp: jobs_effect_def)
    ultimately show ?thesis
      using 1(1) 2 by (auto simp: jobs_effect_def image_Un)
  next
    case (Some e)
    have "job_effect env key False d d1 j" if "j \<in> set K" for j
      using job_effect_none [of d K j env key] assms(1) that job_effect_cong [of d j d d d1, OF refl k [OF that, symmetric]]
      by simp
    then show ?thesis
      using 1 assms(4) Some by (auto simp: jobs_effect_def image_Un)
  qed
qed

text \<open>
  A run in general, as long as files can be read. It ends in one of three ways: it never
  started; its jobs failed and the key is untouched; or all jobs are done and the key is
  cleared, which alone may still fail.
\<close>

lemma run_cases:
  assumes "reads_ok env" "finite (dom d)" "\<not> block_file (path_Base dir)"
    and "loadKey (xe_io env) d dir keyHex = Inr key"
    and "run_xorstrip env dir keyHex False repair workers d = (err, d')"
  obtains (not_started) "d' = d" "err \<noteq> None \<or> block_paths d dir = {}" "xor_quiet env \<Longrightarrow> err = None \<and> block_paths d dir = {}"
  | (jobs) files e d2 where "set files = block_paths d dir" "block_paths d dir \<noteq> {}" "\<forall>p \<in> set files. d p \<noteq> None"
      "path_Join dir ''xor.dat'' \<notin> set files"
      "jobs_effect env key (e = None) (jobs_of env d key repair files) d d2"
      "xor_quiet env \<Longrightarrow> 0 < workers \<Longrightarrow> e = None"
      "e \<noteq> None \<Longrightarrow> err = e \<and> d' = d2" "e = None \<Longrightarrow> zeroXorDat (xe_io env) dir d2 = (err, d')"
proof (cases "collectBlockFiles (xe_io env) d dir")
  case (Inl x)
  then have "\<not> xor_quiet env"
    by (auto simp: collectBlockFiles_def os_ReadDir_def sys_def xor_quiet_def split: option.splits)
  then show thesis using not_started assms(4,5) Inl by (auto simp: run_xorstrip_def)
next
  case (Inr files)
  note f = collectBlockFiles_iff [OF assms(2,3) Inr]
  note key = loadKey_length [OF assms(4)]
  let ?J = "map (\<lambda>p. \<lparr>rj_path = p, rj_offset = 0\<rparr>) (filter (\<lambda>p. obfuscated key (the (d p))) files)"
  let ?K = "map (\<lambda>p. \<lparr>rj_path = p, rj_offset = nat (boundary_loop env p (the (d p)) 0)\<rparr>)
         (filter (\<lambda>p. partial_file env repair p (the (d p))) files)"
  have ok: "jobs_ok d (?J @ ?K)" using jobs_of_ok [OF f(3,2)] unfolding jobs_of_def .
  note cl = classify_iff [OF assms(1) f(3) key]
  show thesis
  proof (cases "files = []")
    case True
    then have "block_paths d dir = {}" using f(1) by simp
    then show thesis using True not_started assms(4,5) Inr by (auto simp: run_xorstrip_def)
  next
    case False
    define e1d1 where "e1d1 = run_jobs env ''convert '' key workers ?J d"
    obtain e1 d1 where 1: "e1d1 = (e1, d1)" by fastforce
    define ed2 where "ed2 = (if e1 = None then run_jobs env ''repair '' key workers ?K d1 else (e1, d1))"
    obtain e d2 where 2: "ed2 = (e, d2)" by fastforce
    have eff: "jobs_effect env key (e = None) (?J @ ?K) d d2 \<and> (xor_quiet env \<longrightarrow> 0 < workers \<longrightarrow> e = None)"
      by (rule two_phases [OF ok 1 [unfolded e1d1_def]]) (use 2 ed2_def in auto)
    have r: "run_xorstrip env dir keyHex False repair workers d =
        (case ed2 of (Some x, d2) \<Rightarrow> (Some x, d2) | (None, d2) \<Rightarrow> zeroXorDat (xe_io env) dir d2)"
    proof (cases "?J = [] \<and> ?K = []")
      case True
      then have "ed2 = (None, d)" using 1 unfolding ed2_def e1d1_def by (auto simp: run_jobs_def)
      then show ?thesis using True assms(4) Inr False cl by (simp add: run_xorstrip_def)
    next
      case nonempty: False
      have "run_xorstrip env dir keyHex False repair workers d =
        (case e1d1 of
           (Some firstErr, d1) \<Rightarrow> (Some firstErr, d1)
         | (None, d1) \<Rightarrow> (case run_jobs env ''repair '' key workers ?K d1 of
                             (Some firstErr, d2) \<Rightarrow> (Some firstErr, d2)
                           | (None, d2) \<Rightarrow> zeroXorDat (xe_io env) dir d2))"
        using nonempty False unfolding run_xorstrip_def assms(4) Inr e1d1_def by (auto simp: cl)
      then show ?thesis using 1 unfolding ed2_def by (cases e1) auto
    qed
    show thesis
    proof (rule jobs [OF f(1) _ f(3,4)])
      show "block_paths d dir \<noteq> {}" using False f(1) by auto
      show "jobs_effect env key (e = None) (jobs_of env d key repair files) d d2"
        using eff unfolding jobs_of_def by blast
      show "xor_quiet env \<Longrightarrow> 0 < workers \<Longrightarrow> e = None" using eff by blast
      show "e \<noteq> None \<Longrightarrow> err = e \<and> d' = d2" using assms(5) 2 r by auto
      show "e = None \<Longrightarrow> zeroXorDat (xe_io env) dir d2 = (err, d')" using assms(5) 2 r by auto
    qed
  qed
qed

text \<open>
  What it does to a block file: nothing when it needs no conversion, and otherwise a part of
  the conversion, all of it when the run succeeds or has touched the key.
\<close>

lemma run_block:
  assumes "reads_ok env" "finite (dom d)" "\<not> block_file (path_Base dir)"
    and "loadKey (xe_io env) d dir keyHex = Inr key"
    and "run_xorstrip env dir keyHex False repair workers d = (err, d')"
    and "p \<in> block_paths d dir" "d p = Some c"
  shows "start_of env key repair p c = None \<Longrightarrow> d' p = Some c"
    and "start_of env key repair p c = Some s \<Longrightarrow> \<exists>c'. d' p = Some c' \<and>
      part_done env key (err = None \<or> d' (path_Join dir ''xor.dat'') \<noteq> d (path_Join dir ''xor.dat'')) s c c'"
proof -
  let ?x = "path_Join dir ''xor.dat''"
  have "(start_of env key repair p c = None \<longrightarrow> d' p = Some c)
    \<and> (start_of env key repair p c = Some s \<longrightarrow> (\<exists>c'. d' p = Some c' \<and>
        part_done env key (err = None \<or> d' ?x \<noteq> d ?x) s c c'))"
    using assms(1-5)
  proof (cases rule: run_cases)
    case not_started
    then have "err \<noteq> None" using assms(6) by auto
    then show ?thesis using not_started(1) assms(7) start_of_bound by auto
  next
    case (jobs files e d2)
    note j = jobs_of_iff [OF jobs(3), of _ env key repair]
    have p: "p \<in> set files" "p \<noteq> ?x" using jobs(1,4) assms(6) by auto
    have d': "d' p = d2 p"
      using jobs(7,8) zeroXorDat_effect(1) [of "xe_io env" dir d2 err d'] p(2) by (cases e) auto
    have "?x \<notin> rj_path ` set (jobs_of env d key repair files)" using jobs(4) j by auto
    then have "d2 ?x = d ?x" using jobs(5) by (simp add: jobs_effect_def)
    then have flag: "err = None \<or> d' ?x \<noteq> d ?x \<longrightarrow> e = None" using jobs(7) by (cases e) auto
    have "d2 p = Some c" if "start_of env key repair p c = None"
    proof -
      have "p \<notin> rj_path ` set (jobs_of env d key repair files)" using j that assms(7) by auto
      then show ?thesis using jobs(5) assms(7) by (simp add: jobs_effect_def)
    qed
    moreover have "\<exists>c'. d2 p = Some c' \<and> part_done env key (err = None \<or> d' ?x \<noteq> d ?x) s c c'"
      if "start_of env key repair p c = Some s"
    proof -
      have "\<lparr>rj_path = p, rj_offset = s\<rparr> \<in> set (jobs_of env d key repair files)" using j that assms(7) p by auto
      then obtain c' where c': "d2 p = Some c'" "part_done env key (e = None) s c c'"
        using jobs(5) assms(7) unfolding jobs_effect_def job_effect_def by fastforce
      then show ?thesis using part_done_weaken [OF c'(2) flag] by blast
    qed
    ultimately show ?thesis using d' by metis
  qed
  then show "start_of env key repair p c = None \<Longrightarrow> d' p = Some c"
    "start_of env key repair p c = Some s \<Longrightarrow> \<exists>c'. d' p = Some c' \<and> part_done env key (err = None \<or> d' ?x \<noteq> d ?x) s c c'"
    by blast+
qed

lemma run_rest:
  assumes "reads_ok env" "finite (dom d)" "\<not> block_file (path_Base dir)"
    and "loadKey (xe_io env) d dir keyHex = Inr key"
    and "run_xorstrip env dir keyHex False repair workers d = (err, d')"
  shows "p \<notin> block_paths d dir \<Longrightarrow> p \<noteq> path_Join dir ''xor.dat'' \<Longrightarrow> d' p = d p"
    and "xor_quiet env \<Longrightarrow> 0 < workers \<Longrightarrow> err = None \<and> d' (path_Join dir ''xor.dat'') =
      (if block_paths d dir = {} then d (path_Join dir ''xor.dat'')
       else map_option (\<lambda>k. replicate (length k) 0) (d (path_Join dir ''xor.dat'')))"
proof -
  let ?x = "path_Join dir ''xor.dat''"
  have "(p \<notin> block_paths d dir \<longrightarrow> p \<noteq> ?x \<longrightarrow> d' p = d p)
    \<and> (xor_quiet env \<longrightarrow> 0 < workers \<longrightarrow> err = None \<and> d' ?x =
      (if block_paths d dir = {} then d ?x else map_option (\<lambda>k. replicate (length k) 0) (d ?x)))"
    using assms(1-5)
  proof (cases rule: run_cases)
    case not_started
    then show ?thesis by auto
  next
    case (jobs files e d2)
    note j = jobs_of_iff [OF jobs(3), of _ env key repair]
    have keep: "d2 q = d q" if "q \<notin> set files" for q
    proof -
      have "q \<notin> rj_path ` set (jobs_of env d key repair files)" using that j by auto
      then show ?thesis using jobs(5) by (simp add: jobs_effect_def)
    qed
    have z: "d' q = d2 q" if "q \<noteq> ?x" for q
      using jobs(7,8) zeroXorDat_effect(1) [of "xe_io env" dir d2 err d'] that by (cases e) auto
    have "p \<notin> block_paths d dir \<longrightarrow> p \<noteq> ?x \<longrightarrow> d' p = d p" using z keep jobs(1) by auto
    moreover have "err = None \<and> d' ?x = map_option (\<lambda>k. replicate (length k) 0) (d ?x)"
      if q: "xor_quiet env" "0 < workers"
    proof -
      have "zeroXorDat (xe_io env) dir d2 = (err, d')" using jobs(6,8) q by blast
      from zeroXorDat_effect(2) [OF this] q(1) keep [OF jobs(4)] show ?thesis by (simp add: xor_quiet_def)
    qed
    ultimately show ?thesis using jobs(2) by auto
  qed
  then show "p \<notin> block_paths d dir \<Longrightarrow> p \<noteq> ?x \<Longrightarrow> d' p = d p"
    "xor_quiet env \<Longrightarrow> 0 < workers \<Longrightarrow> err = None \<and> d' ?x =
      (if block_paths d dir = {} then d ?x else map_option (\<lambda>k. replicate (length k) 0) (d ?x))"
    by blast+
qed

lemma has_magic_strip: "obfuscated key c \<Longrightarrow> \<not> obfuscated key (strip key 0 (length c) c)"
  by (simp add: obfuscated_def)

lemma start_of_convert [simp]: "start_of env key False p c = (if obfuscated key c then Some 0 else None)"
  by (simp add: start_of_def partial_file_def)

lemma part_done_all: "part_done env key True s c c' \<Longrightarrow> reads_ok env \<Longrightarrow> c' = strip key s (length c) c"
  by (auto simp: part_done_def)

text \<open>
  C24. A run without failures converts exactly the obfuscated block files, each byte with the key
  byte of its position, and touches no other file but the key file, which it clears. The
  converted files are recognised as such: running the tool again with the key given on the
  command line succeeds and changes nothing.
\<close>

theorem xorstrip_converts:
  assumes "xor_quiet env" "finite (dom d)" "\<not> block_file (path_Base dir)"
    and "loadKey (xe_io env) d dir keyHex = Inr key" "0 < workers"
    and "run_xorstrip env dir keyHex False False workers d = (err, d')"
  shows "err = None
    \<and> (\<forall>p c. p \<in> block_paths d dir \<longrightarrow> d p = Some c \<longrightarrow>
         d' p = Some (if obfuscated key c then strip key 0 (length c) c else c))
    \<and> (\<forall>p. p \<notin> block_paths d dir \<longrightarrow> p \<noteq> path_Join dir ''xor.dat'' \<longrightarrow> d' p = d p)
    \<and> run_xorstrip env dir (EncodeToString key) False False workers d' = (None, d')"
proof -
  let ?x = "path_Join dir ''xor.dat''"
  have ok: "reads_ok env" using assms(1) by (simp add: xor_quiet_def)
  note r = run_rest [OF ok assms(2-4,6)]
  have err: "err = None" and x: "d' ?x = (if block_paths d dir = {} then d ?x
      else map_option (\<lambda>k. replicate (length k) 0) (d ?x))"
    using r(2) assms(1,5) by blast+
  have blk: "d' p = Some (if obfuscated key c then strip key 0 (length c) c else c)"
    if "p \<in> block_paths d dir" "d p = Some c" for p c
    using run_block(1) [OF ok assms(2-4,6) that] run_block(2) [OF ok assms(2-4,6) that, of 0] err
      part_done_all [OF _ ok] by auto
  have "d' p = None \<longleftrightarrow> d p = None" for p
    by (cases "p \<in> block_paths d dir"; cases "p = ?x"; cases "d p")
      (use blk r(1) x in \<open>auto simp: block_paths_def dir_names_def\<close>)
  then have dom: "dom d' = dom d" and paths: "block_paths d' dir = block_paths d dir"
    by (simp_all add: block_paths_def dir_names_def dom_def)
  have key: "loadKey (xe_io env) d' dir (EncodeToString key) = Inr key"
    using loadKey_length [OF assms(4)] Decode_Encode [of key] by (cases key) (auto simp: loadKey_def)
  obtain e2 d2 where again: "run_xorstrip env dir (EncodeToString key) False False workers d' = (e2, d2)" by fastforce
  note fin = assms(2) [folded dom]
  note r2 = run_rest [OF ok fin assms(3) key again]
  have "d2 p = d' p" for p
  proof (cases "p \<in> block_paths d dir")
    case True
    then obtain c where c: "d p = Some c" by (auto simp: block_paths_def dir_names_def)
    define c' where "c' = (if obfuscated key c then strip key 0 (length c) c else c)"
    have c': "d' p = Some c'" using blk [OF True c] unfolding c'_def .
    have "\<not> obfuscated key c'" using has_magic_strip [of key c] by (simp add: c'_def)
    then show ?thesis
      using run_block(1) [OF ok fin assms(3) key again True [folded paths] c'] c' by simp
  next
    case False
    then show ?thesis
      using r2 x assms(1,5) paths by (cases "p = ?x") (auto simp: option.map_comp comp_def)
  qed
  then show ?thesis using err blk r(1) again r2(2) assms(1,5) by auto
qed

definition example_key :: bytes where
  "example_key = [0xcb, 0x37, 0x68, 0x1b, 0xc5, 0x12, 0x07, 0x0e]"

definition example_obfuscated :: bytes where
  "example_obfuscated = [0x32, 0x89, 0xdc, 0xc2, 0xc5]"

definition example_block_dir :: disk where
  "example_block_dir = [''b/xor.dat'' \<mapsto> example_key, ''b/blk00000.dat'' \<mapsto> example_obfuscated]"

lemma example_block_dir_facts:
  "finite (dom example_block_dir)" "\<not> block_file (path_Base ''b'')"
  "loadKey (xe_io xor_ok) example_block_dir ''b'' [] = Inr example_key"
  "''b/blk00000.dat'' \<in> block_paths example_block_dir ''b''"
  "obfuscated example_key example_obfuscated"
  "strip example_key 0 (length example_obfuscated) example_obfuscated = [0xf9, 0xbe, 0xb4, 0xd9, 0]"
proof -
  show "finite (dom example_block_dir)" by (simp add: example_block_dir_def)
  show "\<not> block_file (path_Base ''b'')" by code_simp
  show "loadKey (xe_io xor_ok) example_block_dir ''b'' [] = Inr example_key" by code_simp
  have "block_file ''blk00000.dat''" by code_simp
  then have "path_Join ''b'' ''blk00000.dat'' \<in> block_paths example_block_dir ''b''"
    by (auto simp: block_paths_def dir_names_def example_block_dir_def path_Join_def)
  then show "''b/blk00000.dat'' \<in> block_paths example_block_dir ''b''" by (simp add: path_Join_def)
  show "obfuscated example_key example_obfuscated" by code_simp
  show "strip example_key 0 (length example_obfuscated) example_obfuscated = [0xf9, 0xbe, 0xb4, 0xd9, 0]" by code_simp
qed

theorem xorstrip_converts_witness:
  "snd (run_xorstrip xor_ok ''b'' [] False False 4 example_block_dir) ''b/blk00000.dat'' = Some [0xf9, 0xbe, 0xb4, 0xd9, 0]"
proof -
  obtain err d' where r: "run_xorstrip xor_ok ''b'' [] False False 4 example_block_dir = (err, d')" by fastforce
  note f = example_block_dir_facts
  have c: "example_block_dir ''b/blk00000.dat'' = Some example_obfuscated"
    by (simp add: example_block_dir_def)
  show ?thesis
    using xorstrip_converts [OF xor_quiet_ok(1) f(1-3) _ r] f(4) c f(5,6) r by simp
qed

text \<open>
  C25. The key is not lost: whatever fails in writing, every obfuscated file is converted up to
  some point and unchanged from there on, and when the run reports success or has touched
  the key file, that point is the end of the file. A dry run changes nothing at all.
\<close>

theorem xorstrip_keeps_key:
  assumes "reads_ok env" "finite (dom d)" "\<not> block_file (path_Base dir)"
    and "loadKey (xe_io env) d dir keyHex = Inr key"
    and "run_xorstrip env dir keyHex False False workers d = (err, d')"
  shows "(\<forall>p c. p \<in> block_paths d dir \<longrightarrow> d p = Some c \<longrightarrow> obfuscated key c \<longrightarrow>
      (\<exists>m \<le> length c. d' p = Some (strip key 0 m c)
        \<and> (err = None \<or> d' (path_Join dir ''xor.dat'') \<noteq> d (path_Join dir ''xor.dat'') \<longrightarrow> m = length c)))
    \<and> snd (run_xorstrip env dir keyHex True repair workers d) = d"
proof -
  have "\<exists>m \<le> length c. d' p = Some (strip key 0 m c)
        \<and> (err = None \<or> d' (path_Join dir ''xor.dat'') \<noteq> d (path_Join dir ''xor.dat'') \<longrightarrow> m = length c)"
    if b: "p \<in> block_paths d dir" "d p = Some c" "obfuscated key c" for p c
  proof -
    obtain c' where "d' p = Some c'" "part_done env key (err = None \<or> d' (path_Join dir ''xor.dat'') \<noteq> d (path_Join dir ''xor.dat'')) 0 c c'"
      using run_block(2) [OF assms(1-5) b(1,2), of 0] b(3) by auto
    then show ?thesis using assms(1) unfolding part_done_def by blast
  qed
  moreover have "snd (run_xorstrip env dir keyHex True repair workers d) = d"
    by (auto simp: run_xorstrip_def split: sum.splits prod.splits)
  ultimately show ?thesis by blast
qed

text \<open>A write that fails after two bytes.\<close>

theorem xorstrip_keeps_key_witness:
  "\<exists>m \<le> length example_obfuscated. snd (run_xorstrip (xor_ok\<lparr>write_fault := (\<lambda>_ _. Some (2, ErrIO ''disk''))\<rparr>) ''b'' [] False False 4 example_block_dir) ''b/blk00000.dat''
     = Some (strip example_key 0 m example_obfuscated)"
proof -
  let ?env = "xor_ok\<lparr>write_fault := (\<lambda>_ _. Some (2, ErrIO ''disk''))\<rparr>"
  obtain err d' where r: "run_xorstrip ?env ''b'' [] False False 4 example_block_dir = (err, d')" by fastforce
  have ok: "reads_ok ?env" "xe_io ?env = xe_io xor_ok" by (auto simp: reads_ok_def xor_ok_def)
  note f = example_block_dir_facts
  have c: "example_block_dir ''b/blk00000.dat'' = Some example_obfuscated"
    by (simp add: example_block_dir_def)
  show ?thesis
    using conjunct1 [OF xorstrip_keeps_key [OF ok(1) f(1,2) f(3) [folded ok(2)] r], rule_format, OF f(4) c f(5)] r by auto
qed

section \<open>Repairs\<close>

text \<open>The boundary is the first chunk without the magic.\<close>

lemma boundary_loop_first:
  assumes "reads_ok env" "j * bufSize < length c" "\<not> Contains (slice (j * bufSize) bufSize c) rawMagic"
    and "\<forall>i < j. Contains (slice (i * bufSize) bufSize c) rawMagic"
  shows "k \<le> j \<Longrightarrow> boundary_loop env p c (k * bufSize) = int (j * bufSize)"
proof (induction "j - k" arbitrary: k)
  case 0
  then have "k = j" by simp
  have "slice (j * bufSize) bufSize c \<noteq> []" using assms(2) by (simp add: slice_def)
  then show ?case
    using assms \<open>k = j\<close> by (subst boundary_loop.simps) (simp add: read_at_def reads_ok_def)
next
  case (Suc n)
  have lt: "k < j" using Suc.hyps(2) by simp
  then have "k * bufSize \<le> j * bufSize" by simp
  then have in_file: "k * bufSize < length c" using assms(2) by linarith
  then have "slice (k * bufSize) bufSize c \<noteq> []" by (simp add: slice_def)
  moreover have "Suc k * bufSize = k * bufSize + bufSize" by simp
  ultimately have "boundary_loop env p c (k * bufSize) = boundary_loop env p c (Suc k * bufSize)"
    using in_file lt assms(1,4) by (subst boundary_loop.simps) (simp add: read_at_def reads_ok_def add.commute)
  also have "\<dots> = int (j * bufSize)" by (rule Suc.hyps(1)) (use Suc.hyps(2) in auto)
  finally show ?case .
qed

lemma repair_from_boundary:
  assumes "xor_quiet env" "finite (dom d)" "\<not> block_file (path_Base dir)"
    and "loadKey (xe_io env) d dir keyHex = Inr key" "0 < workers"
    and "block_file n" "HasPrefix n ''blk''" "CHR ''/'' \<notin> set n" "d (path_Join dir n) = Some c" "has_magic c"
    and "j * bufSize < length c" "\<not> Contains (slice (j * bufSize) bufSize c) rawMagic"
    and "\<forall>i < j. Contains (slice (i * bufSize) bufSize c) rawMagic"
    and "run_xorstrip env dir keyHex False True workers d = (err, d')"
  shows "err = None \<and> d' (path_Join dir n) = Some (strip key (j * bufSize) (length c) c)"
proof -
  have ok: "reads_ok env" using assms(1) by (simp add: xor_quiet_def)
  have n: "n \<noteq> []" using assms(7) by (auto simp: HasPrefix_def)
  have err: "err = None" using run_rest(2) [OF ok assms(2-4,14)] assms(1,5) by blast
  have p: "path_Join dir n \<in> block_paths d dir" using assms(6,8,9) by (auto simp: block_paths_def dir_names_def)
  have "start_of env key True (path_Join dir n) c = Some (j * bufSize)"
    using boundary_loop_first [OF ok assms(11-13), of 0 "path_Join dir n"] assms(7,10) path_Base_Join [OF n assms(8)]
    by (simp add: start_of_def partial_file_def obfuscated_def del: of_nat_mult)
  then show ?thesis
    using run_block(2) [OF ok assms(2-4,14) p assms(9)] err part_done_all [OF _ ok] by auto
qed

text \<open>
  C26. A repair completes an interrupted conversion: of a raw file \<open>r\<close> the tool was stopped after
  \<open>j\<close> chunks, each of which holds the magic of some block, while the next one, still
  obfuscated, does not. A run with \<open>--repair\<close> then restores \<open>r\<close>.
\<close>

theorem repair_resumes:
  assumes "xor_quiet env" "finite (dom d)" "\<not> block_file (path_Base dir)"
    and "loadKey (xe_io env) d dir keyHex = Inr key" "0 < workers"
    and "block_file n" "HasPrefix n ''blk''" "CHR ''/'' \<notin> set n" "has_magic r" "0 < j" "j * bufSize < length r"
    and "d (path_Join dir n) = Some (strip key (j * bufSize) (length r) r)"
    and "\<forall>i < j. Contains (slice (i * bufSize) bufSize r) rawMagic"
    and "\<not> Contains (slice (j * bufSize) bufSize (strip key (j * bufSize) (length r) r)) rawMagic"
    and "run_xorstrip env dir keyHex False True workers d = (err, d')"
  shows "err = None \<and> d' (path_Join dir n) = Some r"
proof -
  let ?c = "strip key (j * bufSize) (length r) r"
  have pre: "slice a n ?c = slice a n r" if "a + n \<le> j * bufSize" for a n
  proof (rule nth_equalityI)
    fix i assume "i < length (slice a n ?c)"
    then have "i < n" "a + i < length r" by (auto simp: slice_def)
    then show "slice a n ?c ! i = slice a n r ! i" using that by (simp add: slice_def)
  qed simp
  have "bufSize \<le> j * bufSize" using assms(10) by simp
  moreover have "4 \<le> bufSize" by (simp add: bufSize_def)
  ultimately have "slice 0 4 ?c = slice 0 4 r" by (intro pre) linarith
  then have m: "has_magic ?c" using assms(9) by (simp add: has_magic_def slice_def)
  have chunks: "\<forall>i < j. Contains (slice (i * bufSize) bufSize ?c) rawMagic"
  proof (intro allI impI)
    fix i assume i: "i < j"
    have "Suc i * bufSize \<le> j * bufSize" using i by (intro mult_le_mono1) simp
    then have "slice (i * bufSize) bufSize ?c = slice (i * bufSize) bufSize r" by (intro pre) simp
    then show "Contains (slice (i * bufSize) bufSize ?c) rawMagic" using assms(13) i by simp
  qed
  have len: "j * bufSize < length ?c" using assms(11) by simp
  show ?thesis
    using repair_from_boundary [OF assms(1-8,12) m len assms(14) chunks assms(15)] strip_twice [of key _ _ r] by simp
qed

text \<open>
  The boundary is searched with the magic of the main network only: a raw block file of
  another network, none of whose first bytes is that magic, is taken for a partial conversion
  from its first byte on, and a run with \<open>--repair\<close> obfuscates it, reports success and clears
  the key.
\<close>

theorem repair_spoils_other_networks:
  assumes "xor_quiet env" "finite (dom d)" "\<not> block_file (path_Base dir)"
    and "loadKey (xe_io env) d dir keyHex = Inr key" "0 < workers"
    and "block_file n" "HasPrefix n ''blk''" "CHR ''/'' \<notin> set n" "d (path_Join dir n) = Some c" "has_magic c"
    and "\<not> Contains (slice 0 bufSize c) rawMagic"
    and "run_xorstrip env dir keyHex False True workers d = (err, d')"
  shows "err = None \<and> d' (path_Join dir n) = Some (strip key 0 (length c) c)
    \<and> d' (path_Join dir ''xor.dat'') = map_option (\<lambda>k. replicate (length k) 0) (d (path_Join dir ''xor.dat''))"
proof -
  have ok: "reads_ok env" using assms(1) by (simp add: xor_quiet_def)
  have "block_paths d dir \<noteq> {}" using assms(6,8,9) by (auto simp: block_paths_def dir_names_def)
  then have "d' (path_Join dir ''xor.dat'') = map_option (\<lambda>k. replicate (length k) 0) (d (path_Join dir ''xor.dat''))"
    using run_rest(2) [OF ok assms(2-4,12)] assms(1,5) by simp
  moreover have "0 * bufSize < length c" using assms(10) by (auto simp: has_magic_def)
  ultimately show ?thesis
    using repair_from_boundary [OF assms(1-10), of 0 err d'] assms(11,12) by simp
qed

lemma rawMagic_length: "length rawMagic = 4"
  by (simp add: rawMagic_def)

definition example_raw :: bytes where
  "example_raw = rawMagic @ replicate bufSize 0"

lemma example_raw_facts:
  "length example_raw = bufSize + 4" "has_magic example_raw"
  "Contains (slice 0 bufSize example_raw) rawMagic"
  "\<not> Contains (slice bufSize bufSize (strip example_key bufSize (length example_raw) example_raw)) rawMagic"
proof -
  show len: "length example_raw = bufSize + 4" by (simp add: example_raw_def rawMagic_def)
  have "networkMagics (Uint32 rawMagic) \<noteq> None" by code_simp
  then show "has_magic example_raw" using len by (simp add: has_magic_def example_raw_def rawMagic_def)
  have "slice 0 bufSize example_raw = rawMagic @ replicate (bufSize - 4) 0"
    by (simp add: slice_def example_raw_def rawMagic_def bufSize_def min_def)
  then show "Contains (slice 0 bufSize example_raw) rawMagic" unfolding Contains_iff by (metis append_Nil)
  have "slice bufSize bufSize (strip example_key bufSize (length example_raw) example_raw) = take 4 example_key"
  proof (rule nth_equalityI)
    show "length (slice bufSize bufSize (strip example_key bufSize (length example_raw) example_raw)) = length (take 4 example_key)"
      by (simp add: len bufSize_def example_key_def)
    fix i assume "i < length (slice bufSize bufSize (strip example_key bufSize (length example_raw) example_raw))"
    then have i: "i < 4" by (simp add: len)
    then have "i < bufSize" by (simp add: bufSize_def)
    have "(bufSize + i) mod 8 = i" using i by (simp add: bufSize_def) presburger
    moreover have "example_raw ! (bufSize + i) = 0"
      using i by (simp add: example_raw_def rawMagic_def nth_append bufSize_def)
    moreover have "length example_key = 8" by (simp add: example_key_def)
    ultimately show "slice bufSize bufSize (strip example_key bufSize (length example_raw) example_raw) ! i = take 4 example_key ! i"
      using i len \<open>i < bufSize\<close> by (simp add: slice_def)
  qed
  moreover have "\<not> Contains (take 4 example_key) rawMagic" by code_simp
  ultimately show "\<not> Contains (slice bufSize bufSize (strip example_key bufSize (length example_raw) example_raw)) rawMagic"
    by simp
qed

lemma example_xor_names:
  "block_file ''blk00000.dat''" "HasPrefix ''blk00000.dat'' ''blk''" "CHR ''/'' \<notin> set ''blk00000.dat''"
  "\<not> block_file (path_Base ''b'')" "path_Join ''b'' ''blk00000.dat'' = ''b/blk00000.dat''"
  "path_Join ''b'' ''xor.dat'' = ''b/xor.dat''"
  by code_simp+

lemma example_load_key:
  "loadKey (xe_io xor_ok) [''b/xor.dat'' \<mapsto> example_key, ''b/blk00000.dat'' \<mapsto> c] ''b'' [] = Inr example_key"
  by (simp add: loadKey_def xor_ok_def os_ReadFile_def os_Open_def path_Join_def example_key_def all_zero_def)

theorem repair_resumes_witness:
  "snd (run_xorstrip xor_ok ''b'' [] False True 4 [''b/xor.dat'' \<mapsto> example_key,
      ''b/blk00000.dat'' \<mapsto> strip example_key bufSize (length example_raw) example_raw]) ''b/blk00000.dat'' = Some example_raw"
proof -
  let ?d = "[''b/xor.dat'' \<mapsto> example_key,
      ''b/blk00000.dat'' \<mapsto> strip example_key bufSize (length example_raw) example_raw]"
  obtain err d' where r: "run_xorstrip xor_ok ''b'' [] False True 4 ?d = (err, d')" by fastforce
  have fin: "finite (dom ?d)" by simp
  show ?thesis
    using repair_resumes [OF xor_quiet_ok(1) fin example_xor_names(4) example_load_key, of 4 "''blk00000.dat''" example_raw 1 err d']
      example_xor_names(1-3,5) example_raw_facts r by simp
qed

theorem repair_spoils_other_networks_witness:
  "snd (run_xorstrip xor_ok ''b'' [] False True 4 [''b/xor.dat'' \<mapsto> example_key, ''b/blk00000.dat'' \<mapsto> [0x0b, 0x11, 0x09, 0x07]])
     ''b/blk00000.dat'' = Some [0xc0, 0x26, 0x61, 0x1c]"
proof -
  define c :: bytes where "c = [0x0b, 0x11, 0x09, 0x07]"
  let ?d = "[''b/xor.dat'' \<mapsto> example_key, ''b/blk00000.dat'' \<mapsto> c]"
  obtain err d' where r: "run_xorstrip xor_ok ''b'' [] False True 4 ?d = (err, d')" by fastforce
  have fin: "finite (dom ?d)" by simp
  have m: "has_magic c" unfolding c_def by code_simp
  have "slice 0 bufSize c = c" by (simp add: c_def bufSize_def)
  moreover have "\<not> Contains c rawMagic" unfolding c_def by code_simp
  ultimately have n: "\<not> Contains (slice 0 bufSize c) rawMagic" by simp
  have s: "strip example_key 0 (length c) c = [0xc0, 0x26, 0x61, 0x1c]" unfolding c_def by code_simp
  show ?thesis
    using repair_spoils_other_networks [OF xor_quiet_ok(1) fin example_xor_names(4) example_load_key _ example_xor_names(1-3) _ m n r]
      example_xor_names(5) s r unfolding c_def by simp
qed

section \<open>Failing reads\<close>

text \<open>
  The loop takes every error of a read for the end of the file. When a read fails after the
  first chunk, the rest of the file stays obfuscated; nevertheless the run reports success and
  clears the key, the only copy of what is needed to read that rest.
\<close>

theorem read_error_loses_key:
  assumes "obfuscated key c" "bufSize < length c" "length key = 8" "\<not> all_zero key"
  shows "run_xorstrip (xor_ok\<lparr>read_fault := (\<lambda>p k. if k = bufSize then Some (0, e) else None)\<rparr>) ''b'' [] False False 1
      [''b/xor.dat'' \<mapsto> key, ''b/blk00000.dat'' \<mapsto> c]
    = (None, [''b/xor.dat'' \<mapsto> replicate 8 0, ''b/blk00000.dat'' \<mapsto> strip key 0 bufSize c])"
proof -
  let ?env = "xor_ok\<lparr>read_fault := (\<lambda>p k. if k = bufSize then Some (0, e) else None)\<rparr>"
  let ?d = "[''b/xor.dat'' \<mapsto> key, ''b/blk00000.dat'' \<mapsto> c]"
  have io: "xe_io ?env = io_ok" "xe_io xor_ok = io_ok" "fault io_ok = (\<lambda>_. None)" "space io_ok = (\<lambda>_. None)"
    by (simp_all add: xor_ok_def io_ok_def)
  have key: "loadKey (xe_io ?env) ?d ''b'' [] = Inr key"
    using assms(3,4) by (simp add: loadKey_def io os_ReadFile_def os_Open_def example_xor_names)
  have "{n. CHR ''/'' \<notin> set n \<and> ?d (path_Join ''b'' n) \<noteq> None} = {''blk00000.dat'', ''xor.dat''}"
    by (auto simp: path_Join_def split: if_splits)
  moreover have "sorted_list_of_set {''blk00000.dat'', ''xor.dat''} = [''blk00000.dat'', ''xor.dat'']" by code_simp
  moreover have "\<not> block_file ''xor.dat''" by code_simp
  ultimately have files: "collectBlockFiles (xe_io ?env) ?d ''b'' = Inr [''b/blk00000.dat'']"
    using example_xor_names by (simp add: collectBlockFiles_def os_ReadDir_def dir_names_def io)
  have "4 \<le> length c" using assms(1) by (auto simp: obfuscated_def has_magic_def)
  then have "read_at ?env p c 0 4 = (slice 0 4 c, None)" for p by (simp add: read_at_def bufSize_def)
  moreover have "map (\<lambda>i. slice 0 4 c ! i XOR key ! i) [0..<4] = take 4 (strip key 0 (length c) c)"
    using \<open>4 \<le> length c\<close> assms(3) by (intro nth_equalityI) (auto simp: slice_def)
  ultimately have "fst (detectState ?env ?d ''b/blk00000.dat'' key) = stateObfuscated"
    using assms(1) \<open>4 \<le> length c\<close>
    by (auto simp: detectState_def os_Open_def io obfuscated_def has_magic_def slice_def split: option.splits)
  then have cl: "classify ?env ?d key False [''b/blk00000.dat''] = ([''b/blk00000.dat''], [])"
    by (simp add: classify_def classify_file_def)
  have w: "overwrite 0 (xor_chunk key 0 (slice 0 bufSize c)) c = strip key 0 bufSize c"
    using overwrite_strip [of 0 bufSize c bufSize key] assms(2) by simp
  have "read_at ?env p c 0 bufSize = (slice 0 bufSize c, None)" "slice 0 bufSize c \<noteq> []" for p
    using assms(2) bufSize_pos by (auto simp: read_at_def slice_def)
  then have "xor_loop ?env p key 0 c = xor_loop ?env p key bufSize (strip key 0 bufSize c)" for p
    using assms(2) w by (subst xor_loop.simps) (simp add: write_in_def xor_ok_def)
  also have "xor_loop ?env p key bufSize (strip key 0 bufSize c) = (None, bufSize, strip key 0 bufSize c)" for p
    by (subst xor_loop.simps) (simp add: read_at_def)
  finally have conv: "xorFileFromOffset ?env ''b/blk00000.dat'' key 0 ?d =
      ((bufSize, None), ?d(''b/blk00000.dat'' \<mapsto> strip key 0 bufSize c))"
    by (simp add: xorFileFromOffset_def os_Open_def io)
  have "zeroXorDat (xe_io ?env) ''b'' (?d(''b/blk00000.dat'' \<mapsto> strip key 0 bufSize c)) =
      (None, ?d(''b/blk00000.dat'' \<mapsto> strip key 0 bufSize c, ''b/xor.dat'' \<mapsto> replicate 8 0))"
    using assms(3,4) by (simp add: zeroXorDat_def example_xor_names os_ReadFile_def os_Open_def io os_WriteFile_ok)
  moreover have "?d(''b/blk00000.dat'' \<mapsto> x, ''b/xor.dat'' \<mapsto> y) = [''b/xor.dat'' \<mapsto> y, ''b/blk00000.dat'' \<mapsto> x]" for x y
    by (auto simp: fun_eq_iff)
  ultimately have z: "zeroXorDat io_ok ''b'' (?d(''b/blk00000.dat'' \<mapsto> strip key 0 bufSize c)) =
      (None, [''b/xor.dat'' \<mapsto> replicate 8 0, ''b/blk00000.dat'' \<mapsto> strip key 0 bufSize c])"
    unfolding io by simp
  show ?thesis
    unfolding run_xorstrip_def io(1) key [unfolded io(1)] files [unfolded io(1)] sum.case list.simps if_False
    by (simp add: cl conv run_jobs_def z [simplified])
qed

theorem read_error_loses_key_witness:
  "\<exists>c. obfuscated example_key c \<and> fst (run_xorstrip (xor_ok\<lparr>read_fault := (\<lambda>p k. if k = bufSize then Some (0, ErrIO ''disk'') else None)\<rparr>)
      ''b'' [] False False 1 [''b/xor.dat'' \<mapsto> example_key, ''b/blk00000.dat'' \<mapsto> c]) = None"
proof -
  define c :: bytes where "c = strip example_key 0 (length example_raw) example_raw"
  have "has_magic (strip example_key 0 (length c) c)" using example_raw_facts(2) strip_twice by (simp add: c_def)
  moreover have "take 4 c = take 4 (strip example_key 0 4 rawMagic)"
    using example_raw_facts(1) by (intro nth_equalityI) (auto simp: c_def example_raw_def nth_append rawMagic_length)
  then have "\<not> has_magic c"
    unfolding has_magic_def by simp code_simp
  ultimately have "obfuscated example_key c" by (simp add: obfuscated_def)
  moreover have "length example_key = 8" "\<not> all_zero example_key" by code_simp+
  moreover have "bufSize < length c" using example_raw_facts(1) by (simp add: c_def)
  ultimately show ?thesis
    using read_error_loses_key [of example_key c "ErrIO ''disk''"] by (metis fst_conv)
qed

end
