(* ===== verification/Syncer.thy ===== *)
theory Syncer
  imports Server_Gen
begin

text \<open>
  The upload of finalized files to an S3 bucket: the client (\<open>internal/s3\<close>) over the AWS
  library, which is a parameter, and the syncer (\<open>internal/daemon/syncer.go\<close>) over the
  interface \<open>S3Uploader\<close>. The contract of that interface is a locale; the client is one of
  its instances. The sync loop's ticker is not modelled: \<open>sync\<close> is one round. Shown: what
  the bucket holds under the name of a finalized file is that file, and the published manifest
  lists only files that are in the bucket with the listed size and hash, whatever fails on the
  way; a round without failures publishes all finalized files; and, a flaw, a round that finds
  all files in the bucket never makes up for a blockmap or manifest that failed to upload.
\<close>

section \<open>The S3 client\<close>

record s3Config =
  s3_endpoint :: string
  s3_region :: string
  s3_pathStyle :: bool
  s3_storageClass :: string

definition WithEndpoint :: "string \<Rightarrow> s3Config \<Rightarrow> s3Config" where
  "WithEndpoint url c = c\<lparr>s3_endpoint := url\<rparr>"

definition WithRegion :: "string \<Rightarrow> s3Config \<Rightarrow> s3Config" where
  "WithRegion region c = c\<lparr>s3_region := region\<rparr>"

definition WithPathStyle :: "bool \<Rightarrow> s3Config \<Rightarrow> s3Config" where
  "WithPathStyle b c = c\<lparr>s3_pathStyle := b\<rparr>"

definition WithStorageClass :: "string \<Rightarrow> s3Config \<Rightarrow> s3Config" where
  "WithStorageClass class c = c\<lparr>s3_storageClass := class\<rparr>"

text \<open>The input of an upload is what the bucket then holds under its key.\<close>

record PutObjectInput =
  po_Body :: bytes
  po_CacheControl :: string
  po_ContentType :: string
  po_StorageClass :: string

type_synonym bucket = "string \<rightharpoonup> PutObjectInput"

text \<open>
  The AWS library and the service behind it. An upload fails or not by its key; a failed one
  may have been stored all the same (the answer was lost). A listing gives a page of keys and
  the token of the next page.
\<close>

datatype aws_error =
    NotFound
  | NoSuchKey
  | HTTPStatus int go_error
  | OtherError go_error

record aws =
  aws_Put :: "string \<Rightarrow> (bool \<times> go_error) option"
  aws_ListObjectsV2 :: "bucket \<Rightarrow> string \<Rightarrow> string option \<Rightarrow> (string option list \<times> string option) result"
  aws_HeadObject :: "bucket \<Rightarrow> string \<Rightarrow> aws_error + int option"
  aws_Delete :: "string \<Rightarrow> (bool \<times> go_error) option"

record Client =
  cl_aws :: aws
  cl_storageClass :: string

definition New_s3 :: "go_error option \<Rightarrow> (s3Config \<Rightarrow> aws) \<Rightarrow> (s3Config \<Rightarrow> s3Config) list \<Rightarrow> Client result" where
  "New_s3 load_config service opts =
     (let cfg = fold (\<lambda>opt c. opt c) opts
                  \<lparr>s3_endpoint = [], s3_region = ''us-east-1'', s3_pathStyle = False, s3_storageClass = ''STANDARD_IA''\<rparr>
      in case load_config of
           Some e \<Rightarrow> Inl (Errorf ''s3: load config'' e)
         | None \<Rightarrow> Inr \<lparr>cl_aws = service cfg, cl_storageClass = s3_storageClass cfg\<rparr>)"

definition put_object :: "aws \<Rightarrow> string \<Rightarrow> PutObjectInput \<Rightarrow> bucket \<Rightarrow> go_error option \<times> bucket" where
  "put_object a key input b =
     (case aws_Put a key of
        None \<Rightarrow> (None, b(key \<mapsto> input))
      | Some (kept, e) \<Rightarrow> (Some e, if kept then b(key \<mapsto> input) else b))"

definition Upload :: "Client \<Rightarrow> string \<Rightarrow> bytes \<Rightarrow> bucket \<Rightarrow> go_error option \<times> bucket" where
  "Upload c key body b =
     (case put_object (cl_aws c) key
             \<lparr>po_Body = body, po_CacheControl = ''public, max-age=31536000, immutable'',
              po_ContentType = ''application/octet-stream'', po_StorageClass = cl_storageClass c\<rparr> b of
        (Some e, b') \<Rightarrow> (Some (Errorf (''s3: upload '' @ key) e), b')
      | (None, b') \<Rightarrow> (None, b'))"

definition UploadManifest :: "Client \<Rightarrow> string \<Rightarrow> bytes \<Rightarrow> bucket \<Rightarrow> go_error option \<times> bucket" where
  "UploadManifest c key body b =
     (case put_object (cl_aws c) key
             \<lparr>po_Body = body, po_CacheControl = ''public, max-age=300'',
              po_ContentType = ''application/json'', po_StorageClass = ''STANDARD''\<rparr> b of
        (Some e, b') \<Rightarrow> (Some (Errorf (''s3: upload manifest '' @ key) e), b')
      | (None, b') \<Rightarrow> (None, b'))"

definition Head :: "Client \<Rightarrow> string \<Rightarrow> bucket \<Rightarrow> (int \<times> bool) result" where
  "Head c key b =
     (case aws_HeadObject (cl_aws c) b key of
        Inl NotFound \<Rightarrow> Inr (0, False)
      | Inl NoSuchKey \<Rightarrow> Inr (0, False)
      | Inl (HTTPStatus status e) \<Rightarrow>
          if status = 404 then Inr (0, False) else Inl (Errorf (''s3: head '' @ key) e)
      | Inl (OtherError e) \<Rightarrow> Inl (Errorf (''s3: head '' @ key) e)
      | Inr None \<Rightarrow> Inr (0, True)
      | Inr (Some n) \<Rightarrow> Inr (n, True))"

definition Delete :: "Client \<Rightarrow> string \<Rightarrow> bucket \<Rightarrow> go_error option \<times> bucket" where
  "Delete c key b =
     (case aws_Delete (cl_aws c) key of
        None \<Rightarrow> (None, b(key := None))
      | Some (gone, e) \<Rightarrow> (Some (Errorf (''s3: delete '' @ key) e), if gone then b(key := None) else b))"

text \<open>The loop over the pages ends when a page has no token for a next one.\<close>

partial_function (option) list_loop ::
  "(string option \<Rightarrow> (string option list \<times> string option) result) \<Rightarrow> string option \<Rightarrow> string list
     \<Rightarrow> string list result option" where
  "list_loop page token keys =
     (case page token of
        Inl e \<Rightarrow> Some (Inl e)
      | Inr (contents, nxt) \<Rightarrow>
          let keys' = keys @ List.map_filter (\<lambda>k. k) contents
          in case nxt of
               None \<Rightarrow> Some (Inr keys')
             | Some t \<Rightarrow> list_loop page (Some t) keys')"

definition List_keys :: "Client \<Rightarrow> string \<Rightarrow> bucket \<Rightarrow> string list result option" where
  "List_keys c pre b =
     map_option (wrapE (''s3: list '' @ pre)) (list_loop (aws_ListObjectsV2 (cl_aws c) b pre) None [])"

section \<open>The syncer\<close>

text \<open>The interface \<open>S3Uploader\<close>; a call that does not return has no result.\<close>

record S3Uploader =
  up_Upload :: "string \<Rightarrow> bytes \<Rightarrow> bucket \<Rightarrow> go_error option \<times> bucket"
  up_UploadManifest :: "string \<Rightarrow> bytes \<Rightarrow> bucket \<Rightarrow> go_error option \<times> bucket"
  up_List :: "string \<Rightarrow> bucket \<Rightarrow> string list result option"

definition Client_uploader :: "Client \<Rightarrow> S3Uploader" where
  "Client_uploader c = \<lparr>up_Upload = Upload c, up_UploadManifest = UploadManifest c, up_List = List_keys c\<rparr>"

text \<open>The path of the local manifest is its directory and its name; \<open>None\<close> is the empty path.\<close>

record Syncer =
  sy_blocksDir :: string
  sy_chain :: string
  sy_baseURL :: string
  sy_blockmapDir :: string
  sy_manifestPath :: "(string \<times> string) option"
  sy_s3 :: S3Uploader
  sy_scanInterval :: int
  sy_lastManifest :: "Manifest option"

definition WithSyncerBlockmapDir :: "string \<Rightarrow> Syncer \<Rightarrow> Syncer" where
  "WithSyncerBlockmapDir dir s = s\<lparr>sy_blockmapDir := dir\<rparr>"

definition WithSyncerManifestPath :: "(string \<times> string) option \<Rightarrow> Syncer \<Rightarrow> Syncer" where
  "WithSyncerManifestPath path s = s\<lparr>sy_manifestPath := path\<rparr>"

definition WithSyncerInterval :: "int \<Rightarrow> Syncer \<Rightarrow> Syncer" where
  "WithSyncerInterval i s = s\<lparr>sy_scanInterval := i\<rparr>"

definition NewSyncer :: "string \<Rightarrow> string \<Rightarrow> string \<Rightarrow> S3Uploader \<Rightarrow> (Syncer \<Rightarrow> Syncer) list \<Rightarrow> Syncer" where
  "NewSyncer blocksDir chain_name baseURL s3 opts =
     fold (\<lambda>opt s. opt s) opts
       \<lparr>sy_blocksDir = blocksDir, sy_chain = chain_name, sy_baseURL = baseURL, sy_blockmapDir = [], sy_manifestPath = None,
        sy_s3 = s3, sy_scanInterval = 10 * 60 * 1000000000, sy_lastManifest = None\<rparr>"

definition isBlkFile :: "string \<Rightarrow> bool" where
  "isBlkFile name \<longleftrightarrow> HasPrefix name ''blk'' \<and> HasSuffix name ''.dat''"

definition uploadFile :: "io_env \<Rightarrow> disk \<Rightarrow> Syncer \<Rightarrow> ScannedFile \<Rightarrow> bucket \<Rightarrow> go_error option \<times> bucket" where
  "uploadFile env d s f b =
     (case os_Open env d (sf_Path f) of
        Inl e \<Rightarrow> (Some (Errorf ''syncer: open'' e), b)
      | Inr data \<Rightarrow> up_Upload (sy_s3 s) (sf_Name f) data b)"

definition uploadBlockmap :: "io_env \<Rightarrow> disk \<Rightarrow> Syncer \<Rightarrow> string \<Rightarrow> bucket \<Rightarrow> go_error option \<times> bucket" where
  "uploadBlockmap env d s blkName b =
     (let bmPath = path_Join (sy_blockmapDir s) (blkName @ ''.blockmap'') in
      case os_Open env d bmPath of
        Inl e \<Rightarrow> if e = ErrNotExist then (None, b) else (Some (Errorf ''syncer: open blockmap'' e), b)
      | Inr data \<Rightarrow>
          (case os_Stat env d bmPath of
             Inl e \<Rightarrow> (Some (Errorf ''syncer: stat blockmap'' e), b)
           | Inr _ \<Rightarrow> up_Upload (sy_s3 s) (blkName @ ''.blockmap'') data b))"

text \<open>The loop over the new files; the flag is \<open>uploadFailed\<close>.\<close>

fun upload_loop :: "io_env \<Rightarrow> disk \<Rightarrow> Syncer \<Rightarrow> ScannedFile list \<Rightarrow> bool \<Rightarrow> bucket \<Rightarrow> bool \<times> bucket" where
  "upload_loop env d s [] failed b = (failed, b)"
| "upload_loop env d s (f # fs) failed b =
     (case uploadFile env d s f b of
        (Some e, b1) \<Rightarrow> upload_loop env d s fs True b1
      | (None, b1) \<Rightarrow>
          if sy_blockmapDir s \<noteq> [] \<and> isBlkFile (sf_Name f) then
            (case uploadBlockmap env d s (sf_Name f) b1 of
               (Some e, b2) \<Rightarrow> upload_loop env d s fs True b2
             | (None, b2) \<Rightarrow> upload_loop env d s fs failed b2)
          else upload_loop env d s fs failed b1)"

type_synonym sync_result = "go_error option \<times> Syncer \<times> disk \<times> bucket"

definition manifestOpts :: "Syncer \<Rightarrow> manifestConfig" where
  "manifestOpts s =
     \<lparr>cfg_blockmapDir = sy_blockmapDir s, cfg_snapshotDir = [], cfg_baseURL = sy_baseURL s, cfg_prev = sy_lastManifest s\<rparr>"

definition syncer_uploadManifest ::
  "(Manifest \<Rightarrow> bytes result) \<Rightarrow> io_env \<Rightarrow> Syncer \<Rightarrow> disk \<Rightarrow> bucket \<Rightarrow> sync_result" where
  "syncer_uploadManifest json_encode env s d b =
     (case GenerateManifest env d (manifestOpts s) (sy_blocksDir s) (sy_chain s) of
        Inl e \<Rightarrow> (Some (Errorf ''syncer: generate manifest'' e), s, d, b)
      | Inr m \<Rightarrow>
          let s' = s\<lparr>sy_lastManifest := Some m\<rparr>;
              d' = (case sy_manifestPath s of
                      None \<Rightarrow> d
                    | Some (dir, name) \<Rightarrow> snd (WriteFile_manifest json_encode env dir name m d))
          in case run_buffer (Write_manifest json_encode m) of
               Inl e \<Rightarrow> (Some (Errorf ''syncer: encode manifest'' e), s', d', b)
             | Inr buf \<Rightarrow>
                 (case up_UploadManifest (sy_s3 s) ''manifest.json'' buf b of
                    (Some e, b') \<Rightarrow> (Some (Errorf ''syncer: upload manifest'' e), s', d', b')
                  | (None, b') \<Rightarrow> (None, s', d', b')))"

definition sync :: "(Manifest \<Rightarrow> bytes result) \<Rightarrow> io_env \<Rightarrow> Syncer \<Rightarrow> disk \<Rightarrow> bucket \<Rightarrow> sync_result option" where
  "sync json_encode env s d b =
     (case ScanFinalizedFiles env d (sy_blocksDir s) of
        Inl e \<Rightarrow> Some (Some (Errorf ''syncer: scan'' e), s, d, b)
      | Inr localFiles \<Rightarrow>
     (case up_List (sy_s3 s) [] b of
        None \<Rightarrow> None
      | Some (Inl e) \<Rightarrow> Some (Some (Errorf ''syncer: list s3'' e), s, d, b)
      | Some (Inr s3Keys) \<Rightarrow>
          let newFiles = filter (\<lambda>f. sf_Name f \<notin> set s3Keys) localFiles
          in if newFiles = [] then Some (None, s, d, b)
             else case upload_loop env d s newFiles False b of
               (uploadFailed, b1) \<Rightarrow>
                 if uploadFailed then Some (None, s, d, b1)
                 else Some (syncer_uploadManifest json_encode env s d b1)))"

section \<open>The contract of the uploader\<close>

definition body :: "bucket \<Rightarrow> string \<rightharpoonup> bytes" where
  "body b k = map_option po_Body (b k)"

definition put_effect :: "string \<Rightarrow> bytes \<Rightarrow> bucket \<Rightarrow> go_error option \<Rightarrow> bucket \<Rightarrow> bool" where
  "put_effect k data b err b' \<longleftrightarrow>
     (\<forall>k'. k' \<noteq> k \<longrightarrow> b' k' = b k')
     \<and> (err = None \<longrightarrow> body b' k = Some data)
     \<and> (b' k = b k \<or> body b' k = Some data)"

text \<open>
  An upload touches its key only; reporting success it has stored the data, and failing it has
  stored all of it or nothing. A listing that returns has all the keys. What the bucket holds
  is kept on the way: block files are what they are on disk, and the published manifest lists
  only what is there.
\<close>

locale uploader =
  fixes up :: S3Uploader
  assumes Upload_effect: "up_Upload up k data b = (err, b') \<Longrightarrow> put_effect k data b err b'"
    and UploadManifest_effect: "up_UploadManifest up k data b = (err, b') \<Longrightarrow> put_effect k data b err b'"
    and List_exact: "finite (dom b) \<Longrightarrow> up_List up [] b = Some (Inr ks) \<Longrightarrow> set ks = dom b"

lemma body_cong: "b' k = b k \<Longrightarrow> body b' k = body b k"
  by (simp add: body_def)

lemma body_dom: "body b k = Some x \<Longrightarrow> b k \<noteq> None"
  by (auto simp: body_def)

lemma put_effect_dom: "put_effect k data b err b' \<Longrightarrow> dom b \<subseteq> dom b' \<and> dom b' \<subseteq> insert k (dom b)"
  unfolding put_effect_def dom_def using body_dom by (smt (verit) Collect_mono_iff insert_Collect mem_Collect_eq subsetI)

definition bucket_ok :: "disk \<Rightarrow> string \<Rightarrow> bucket \<Rightarrow> bool" where
  "bucket_ok d dir b \<longleftrightarrow> (\<forall>n. finalized d dir n \<longrightarrow> b n = None \<or> body b n = d (path_Join dir n))"

definition listed_ok :: "bucket \<Rightarrow> Manifest \<Rightarrow> bool" where
  "listed_ok b m \<longleftrightarrow> (\<forall>mf \<in> set (mn_Files m). last (mf_Name mf) = CHR ''t'' \<and>
     (\<exists>c. body b (mf_Name mf) = Some c \<and> mf_Size mf = int (length c) \<and> mf_SHA256 mf = EncodeToString (Sum256 c)))"

definition published_ok :: "(bytes \<Rightarrow> Manifest result) \<Rightarrow> bucket \<Rightarrow> bool" where
  "published_ok json_decode b \<longleftrightarrow>
     (\<forall>raw m. body b ''manifest.json'' = Some raw \<longrightarrow> json_decode raw = Inr m \<longrightarrow> listed_ok b m)"

lemma finalized_name: "finalized d dir n \<Longrightarrow> last n = CHR ''t''"
  by (auto simp: finalized_def)

text \<open>What uploads may change: new block files and blockmaps.\<close>

definition uploads :: "disk \<Rightarrow> string \<Rightarrow> string set \<Rightarrow> bucket \<Rightarrow> bucket \<Rightarrow> bool" where
  "uploads d dir new b b' \<longleftrightarrow>
     (\<forall>k. last k = CHR ''t'' \<longrightarrow> b' k = b k \<or> k \<in> new \<and> body b' k = d (path_Join dir k))
     \<and> b' ''manifest.json'' = b ''manifest.json'' \<and> dom b \<subseteq> dom b' \<and> (finite (dom b) \<longrightarrow> finite (dom b'))"

lemma uploads_refl [simp]: "uploads d dir new b b"
  by (simp add: uploads_def)

lemma uploads_trans: "uploads d dir new b b1 \<Longrightarrow> uploads d dir new b1 b2 \<Longrightarrow> uploads d dir new b b2"
  unfolding uploads_def using body_cong by (metis subset_trans)

lemma uploads_mono: "uploads d dir new b b' \<Longrightarrow> new \<subseteq> new' \<Longrightarrow> uploads d dir new' b b'"
  unfolding uploads_def by blast

lemma uploads_ok:
  assumes "uploads d dir new b b'" "bucket_ok d dir b" "published_ok dec b" "\<forall>k \<in> new. b k = None"
  shows "bucket_ok d dir b'" "published_ok dec b'"
proof -
  show "bucket_ok d dir b'"
    using assms(1,2) finalized_name body_cong unfolding bucket_ok_def uploads_def by metis
  show "published_ok dec b'"
    unfolding published_ok_def listed_ok_def
  proof (intro allI impI ballI)
    fix raw m mf assume raw: "body b' ''manifest.json'' = Some raw" and m: "dec raw = Inr m" "mf \<in> set (mn_Files m)"
    have "body b ''manifest.json'' = Some raw" using raw assms(1) by (simp add: uploads_def body_def)
    with m assms(3) have l: "last (mf_Name mf) = CHR ''t''"
      and "\<exists>c. body b (mf_Name mf) = Some c \<and> mf_Size mf = int (length c) \<and> mf_SHA256 mf = EncodeToString (Sum256 c)"
      unfolding published_ok_def listed_ok_def by blast+
    then obtain c where c: "body b (mf_Name mf) = Some c" "mf_Size mf = int (length c)" "mf_SHA256 mf = EncodeToString (Sum256 c)"
      by blast
    have "mf_Name mf \<notin> new" using assms(4) body_dom [OF c(1)] by auto
    then have "b' (mf_Name mf) = b (mf_Name mf)" using assms(1) l unfolding uploads_def by blast
    then have "body b' (mf_Name mf) = Some c" using c(1) body_cong by metis
    then show "last (mf_Name mf) = CHR ''t'' \<and> (\<exists>c. body b' (mf_Name mf) = Some c \<and> mf_Size mf = int (length c) \<and> mf_SHA256 mf = EncodeToString (Sum256 c))"
      using l c by blast
  qed
qed

lemma put_uploads:
  assumes "put_effect k data b err b'" "k \<noteq> ''manifest.json''"
    and "last k = CHR ''t'' \<Longrightarrow> k \<in> new \<and> d (path_Join dir k) = Some data"
  shows "uploads d dir new b b'"
  unfolding uploads_def
proof (intro conjI allI impI)
  show "b' q = b q \<or> q \<in> new \<and> body b' q = d (path_Join dir q)" if "last q = CHR ''t''" for q
    using assms(1,3) that by (cases "q = k") (auto simp: put_effect_def)
  show "b' ''manifest.json'' = b ''manifest.json''" using assms(1,2) by (auto simp: put_effect_def)
  show "dom b \<subseteq> dom b'" using put_effect_dom [OF assms(1)] by blast
  show "finite (dom b')" if "finite (dom b)"
    using put_effect_dom [OF assms(1)] that by (meson finite.insertI finite_subset)
qed

context uploader
begin

lemma uploadFile_effect:
  assumes "uploadFile env d s (scanned_of d dir n) b = (err, b')" "sy_s3 s = up" "finalized d dir n"
  shows "uploads d dir {n} b b' \<and> (err = None \<longrightarrow> body b' n = d (path_Join dir n))"
proof (cases "os_Open env d (path_Join dir n)")
  case (Inl e)
  then show ?thesis using assms by (auto simp: uploadFile_def scanned_of_def)
next
  case (Inr data)
  then have d: "d (path_Join dir n) = Some data" by (auto simp: result_iffs)
  have "up_Upload up n data b = (err, b')" using assms Inr by (simp add: uploadFile_def scanned_of_def)
  note e = Upload_effect [OF this]
  have "n \<noteq> ''manifest.json''" using finalized_name [OF assms(3)] by auto
  from put_uploads [OF e this] e d show ?thesis by (simp add: put_effect_def)
qed

lemma uploadBlockmap_effect:
  assumes "uploadBlockmap env d s n b = (err, b')" "sy_s3 s = up"
  shows "uploads d dir new b b'"
proof (cases "os_Open env d (path_Join (sy_blockmapDir s) (n @ ''.blockmap''))")
  case (Inl e)
  then show ?thesis using assms by (auto simp: uploadBlockmap_def Let_def split: if_splits)
next
  case (Inr data)
  show ?thesis
  proof (cases "os_Stat env d (path_Join (sy_blockmapDir s) (n @ ''.blockmap''))")
    case (Inl e)
    then show ?thesis using assms Inr by (auto simp: uploadBlockmap_def Let_def)
  next
    case (Inr sz)
    then have "up_Upload up (n @ ''.blockmap'') data b = (err, b')"
      using assms \<open>os_Open _ _ _ = _\<close> by (simp add: uploadBlockmap_def Let_def)
    note e = Upload_effect [OF this]
    have "n @ ''.blockmap'' \<noteq> ''manifest.json''"
    proof
      assume "n @ ''.blockmap'' = ''manifest.json''"
      then have "last (n @ ''.blockmap'') = last ''manifest.json''" by simp
      then show False by simp
    qed
    from put_uploads [OF e this] show ?thesis by simp
  qed
qed

end

context uploader
begin

lemma upload_loop_effect:
  assumes "upload_loop env d s fs failed b = (failed', b')" "sy_s3 s = up"
    and "set fs \<subseteq> scanned_of d dir ` {n. finalized d dir n}" "distinct (map sf_Name fs)"
  shows "uploads d dir (sf_Name ` set fs) b b'
    \<and> (\<not> failed' \<longrightarrow> \<not> failed \<and> (\<forall>f \<in> set fs. body b' (sf_Name f) = d (path_Join dir (sf_Name f))))"
  using assms(1,3,4)
proof (induction fs arbitrary: failed b)
  case (Cons f fs)
  obtain n where n: "f = scanned_of d dir n" "finalized d dir n" using Cons.prems(2) by auto
  then have name: "sf_Name f = n" by (simp add: scanned_of_def)
  obtain e1 b1 where 1: "uploadFile env d s f b = (e1, b1)" by fastforce
  note u1 = uploadFile_effect [OF 1 [unfolded n(1)] assms(2) n(2)]
  obtain failed2 b2 where 2: "upload_loop env d s fs failed2 b2 = (failed', b')" "uploads d dir {n} b1 b2"
    "\<not> failed2 \<longrightarrow> \<not> failed \<and> e1 = None"
  proof (cases e1)
    case (Some e)
    then show ?thesis using Cons.prems(1) 1 that [of True b1] by simp
  next
    case None
    obtain e2 b2 where bm: "uploadBlockmap env d s n b1 = (e2, b2)" by fastforce
    note u2 = uploadBlockmap_effect [OF bm assms(2), of dir "{n}"]
    show ?thesis
      using Cons.prems(1) 1 None bm u2 name that [of failed b1] that [of failed b2] that [of True b2]
      by (cases e2) (auto split: if_splits)
  qed
  have "uploads d dir {n} b b2" using uploads_trans [OF conjunct1 [OF u1] 2(2)] .
  then have ub: "uploads d dir (sf_Name ` set (f # fs)) b b2" by (rule uploads_mono) (simp add: name)
  have ih: "uploads d dir (sf_Name ` set fs) b2 b'
    \<and> (\<not> failed' \<longrightarrow> \<not> failed2 \<and> (\<forall>f \<in> set fs. body b' (sf_Name f) = d (path_Join dir (sf_Name f))))"
    using Cons.IH [OF 2(1)] Cons.prems(2,3) by simp
  then have "uploads d dir (sf_Name ` set (f # fs)) b2 b'" by (auto intro: uploads_mono)
  then have all: "uploads d dir (sf_Name ` set (f # fs)) b b'" using ub uploads_trans by blast
  have "n \<notin> sf_Name ` set fs" using Cons.prems(3) name by auto
  then have "b' n = b2 n" using ih finalized_name [OF n(2)] unfolding uploads_def by blast
  moreover have "body b2 n = d (path_Join dir n)" if "e1 = None"
    using u1 2(2) that finalized_name [OF n(2)] body_cong [of b2 n b1] unfolding uploads_def by metis
  ultimately have "body b' n = d (path_Join dir n)" if "e1 = None" using that body_cong by metis
  then show ?case using all ih 2(3) name by auto
qed simp

text \<open>Publishing the manifest when every finalized file is in the bucket.\<close>

text \<open>
  Every entry of a fresh manifest names an object that holds the file's bytes, once the finalized
  files are uploaded; and putting such a manifest keeps the bucket consistent, whether the put
  reached the bucket or not.
\<close>

lemma fresh_manifest_listed:
  assumes "mf_Name ` set (mn_Files m) = {n. finalized d dir n}"
    and "\<forall>mf \<in> set (mn_Files m). \<exists>c. d (path_Join dir (mf_Name mf)) = Some c \<and> mf_Finalized mf
           \<and> mf_Size mf = int (length c) \<and> mf_SHA256 mf = EncodeToString (Sum256 c)"
    and "\<forall>n. finalized d dir n \<longrightarrow> body b n = d (path_Join dir n)"
    and "\<forall>k. k \<noteq> ''manifest.json'' \<longrightarrow> b1 k = b k"
  shows "listed_ok b1 m"
  unfolding listed_ok_def
proof
  fix mf assume mf: "mf \<in> set (mn_Files m)"
  then have fin: "finalized d dir (mf_Name mf)" using assms(1) by blast
  note l = finalized_name [OF fin]
  then have "mf_Name mf \<noteq> ''manifest.json''" by auto
  then have "body b1 (mf_Name mf) = d (path_Join dir (mf_Name mf))"
    using assms(3,4) fin body_cong by metis
  then show "last (mf_Name mf) = CHR ''t'' \<and> (\<exists>c. body b1 (mf_Name mf) = Some c \<and> mf_Size mf = int (length c)
      \<and> mf_SHA256 mf = EncodeToString (Sum256 c))" using assms(2) mf l by auto
qed

lemma put_manifest_published:
  assumes "put_effect ''manifest.json'' bs b e b2" "published_ok dec b" "dec bs = Inr m" "listed_ok b2 m"
  shows "published_ok dec b2"
proof (cases "b2 ''manifest.json'' = b ''manifest.json''")
  case True
  then have "b2 k = b k" for k using assms(1) by (cases "k = ''manifest.json''") (simp_all add: put_effect_def)
  then have "b2 = b" by (rule ext)
  then show ?thesis using assms(2) by simp
next
  case False
  then have "body b2 ''manifest.json'' = Some bs" using assms(1) by (auto simp: put_effect_def)
  then show ?thesis using assms(3,4) by (auto simp: published_ok_def)
qed

lemma uploadManifest_ok:
  assumes "syncer_uploadManifest enc env s d b = (err, s', d', b')" "sy_s3 s = up"
    and "finite (dom d)" "fault env (SysReadDir (sy_blocksDir s)) = None"
    and "\<forall>m bs. enc m = Inr bs \<longrightarrow> dec bs = Inr m"
    and "\<forall>dir name. sy_manifestPath s = Some (dir, name) \<longrightarrow> name \<noteq> [] \<and> last name \<notin> {CHR ''t'', CHR ''p''}"
    and "\<forall>m. sy_lastManifest s = Some m \<longrightarrow> hashes_ok d (sy_blocksDir s) (mn_Files m)"
    and "\<forall>n. finalized d (sy_blocksDir s) n \<longrightarrow> body b n = d (path_Join (sy_blocksDir s) n)" "published_ok dec b"
  shows "(\<forall>q. last q = CHR ''t'' \<longrightarrow> d' q = d q) \<and> (\<forall>k. k \<noteq> ''manifest.json'' \<longrightarrow> b' k = b k) \<and> published_ok dec b'
    \<and> (\<forall>m. sy_lastManifest s' = Some m \<longrightarrow> hashes_ok d (sy_blocksDir s) (mn_Files m))
    \<and> (err = None \<longrightarrow> (\<exists>raw m. body b' ''manifest.json'' = Some raw \<and> dec raw = Inr m
         \<and> mf_Name ` set (mn_Files m) = {n. finalized d (sy_blocksDir s) n}))"
proof -
  let ?dir = "sy_blocksDir s"
  show ?thesis
  proof (cases "GenerateManifest env d (manifestOpts s) ?dir (sy_chain s)")
    case (Inl e)
    then show ?thesis using assms by (auto simp: syncer_uploadManifest_def)
  next
    case (Inr m)
    have ex: "mf_Name ` set (mn_Files m) = {n. finalized d ?dir n} \<and> distinct (map mf_Name (mn_Files m))
      \<and> (\<forall>mf \<in> set (mn_Files m). \<exists>c. d (path_Join ?dir (mf_Name mf)) = Some c \<and> mf_Finalized mf
          \<and> mf_Size mf = int (length c) \<and> mf_SHA256 mf = EncodeToString (Sum256 c))
      \<and> hashes_ok d ?dir (mn_Files m)"
      by (rule GenerateManifest_exact [OF assms(3,4) _ Inr]) (use assms(7) in \<open>simp add: manifestOpts_def\<close>)
    define d1 where "d1 = (case sy_manifestPath s of None \<Rightarrow> d
      | Some (dir, name) \<Rightarrow> snd (WriteFile_manifest enc env dir name m d))"
    have d1: "\<forall>q. last q = CHR ''t'' \<longrightarrow> d1 q = d q"
      using assms(6) manifest_written_same(1) [of enc env _ _ m d]
      unfolding d1_def by (auto split: option.splits) (metis prod.collapse)
    have listed: "listed_ok b1 m" if "\<forall>k. k \<noteq> ''manifest.json'' \<longrightarrow> b1 k = b k" for b1
      by (rule fresh_manifest_listed [OF _ _ assms(8) that]) (use ex in blast)+
    have step: "(err, s', d', b') = (case run_buffer (Write_manifest enc m) of
        Inl e \<Rightarrow> (Some (Errorf ''syncer: encode manifest'' e), s\<lparr>sy_lastManifest := Some m\<rparr>, d1, b)
      | Inr buf \<Rightarrow> (case up_UploadManifest up ''manifest.json'' buf b of
            (Some e, b') \<Rightarrow> (Some (Errorf ''syncer: upload manifest'' e), s\<lparr>sy_lastManifest := Some m\<rparr>, d1, b')
          | (None, b') \<Rightarrow> (None, s\<lparr>sy_lastManifest := Some m\<rparr>, d1, b')))"
      unfolding assms(1) [symmetric] syncer_uploadManifest_def Inr d1_def Let_def assms(2) by simp
    show ?thesis
    proof (cases "enc m")
      case (Inl e)
      then have "run_buffer (Write_manifest enc m) = Inl (Errorf ''failed to encode manifest'' e)"
        by (simp add: run_buffer_def Write_manifest_def w_fail_def)
      then show ?thesis using step d1 ex assms(9) by auto
    next
      case (Inr bs)
      then have rb: "run_buffer (Write_manifest enc m) = Inr bs"
        by (intro emits_run_buffer) (simp add: Write_manifest_def)
      obtain e2 b2 where u: "up_UploadManifest up ''manifest.json'' bs b = (e2, b2)" by fastforce
      have res: "s' = s\<lparr>sy_lastManifest := Some m\<rparr>" "d' = d1" "b' = b2" "err = None \<longleftrightarrow> e2 = None"
        using step rb u by (cases e2; simp)+
      note e = UploadManifest_effect [OF u]
      have other: "\<forall>k. k \<noteq> ''manifest.json'' \<longrightarrow> b2 k = b k" using e by (simp add: put_effect_def)
      have pub: "published_ok dec b2"
        by (rule put_manifest_published [OF e assms(9) _ listed [OF other]]) (use assms(5) Inr in blast)
      have "err = None \<longrightarrow> (\<exists>raw m. body b2 ''manifest.json'' = Some raw \<and> dec raw = Inr m
         \<and> mf_Name ` set (mn_Files m) = {n. finalized d ?dir n})"
        using e res(4) assms(5) Inr ex by (auto simp: put_effect_def)
      then show ?thesis using res d1 other pub ex by auto
    qed
  qed
qed

end

context uploader
begin

text \<open>The three ways a round ends: before any upload, with a failed upload, or with the manifest.\<close>

lemma sync_cases:
  assumes "sync enc env s d b = Some (err, s', d', b')" "sy_s3 s = up" "finite (dom d)" "finite (dom b)"
    and "fault env (SysReadDir (sy_blocksDir s)) = None"
  obtains (idle) "s' = s" "d' = d" "b' = b"
      "err = None \<Longrightarrow> \<forall>n. finalized d (sy_blocksDir s) n \<longrightarrow> b n \<noteq> None"
      "err \<noteq> None \<Longrightarrow> (\<exists>e. ScanFinalizedFiles env d (sy_blocksDir s) = Inl e) \<or> (\<exists>e. up_List up [] b = Some (Inl e))"
  | (failed) new where "s' = s" "d' = d" "uploads d (sy_blocksDir s) new b b'" "\<forall>k \<in> new. b k = None" "new \<noteq> {}"
      "new = {n. finalized d (sy_blocksDir s) n \<and> b n = None}"
      "\<exists>fs. set fs \<subseteq> scanned_of d (sy_blocksDir s) ` {n. finalized d (sy_blocksDir s) n} \<and> fst (upload_loop env d s fs False b)"
  | (published) new b1 where "uploads d (sy_blocksDir s) new b b1" "\<forall>k \<in> new. b k = None" "new \<noteq> {}"
      "new = {n. finalized d (sy_blocksDir s) n \<and> b n = None}"
      "\<forall>n \<in> new. body b1 n = d (path_Join (sy_blocksDir s) n)"
      "syncer_uploadManifest enc env s d b1 = (err, s', d', b')"
proof -
  let ?dir = "sy_blocksDir s"
  show thesis
  proof (cases "ScanFinalizedFiles env d ?dir")
    case (Inl e)
    then show thesis using assms(1) idle by (auto simp: sync_def)
  next
    case (Inr files)
    note sc = scan_set(1) [OF assms(3,5) Inr] scan_distinct(2) [OF assms(3,5) Inr]
    show thesis
    proof (cases "up_List up [] b")
      case None
      then show thesis using assms(1,2) Inr by (simp add: sync_def)
    next
      case (Some r)
      show thesis
      proof (cases r)
        case (Inl e)
        then show thesis using assms(1,2) \<open>ScanFinalizedFiles _ _ _ = _\<close> Some idle by (auto simp: sync_def)
      next
        case (Inr ks)
        note keys = List_exact [OF assms(4) Some [unfolded Inr]]
        define fs where "fs = filter (\<lambda>f. sf_Name f \<notin> set ks) files"
        define new where "new = sf_Name ` set fs"
        have new: "new = {n. finalized d ?dir n \<and> b n = None}"
          unfolding new_def fs_def set_filter sc keys by (force simp: scanned_of_def)
        have sub: "set fs \<subseteq> scanned_of d ?dir ` {n. finalized d ?dir n}" using sc(1) by (auto simp: fs_def)
        have dist: "distinct (map sf_Name fs)" using sc(2) by (simp add: fs_def distinct_map_filter)
        have step: "sync enc env s d b = (if fs = [] then Some (None, s, d, b)
             else case upload_loop env d s fs False b of
               (uploadFailed, b1) \<Rightarrow>
                 if uploadFailed then Some (None, s, d, b1) else Some (syncer_uploadManifest enc env s d b1))"
          unfolding sync_def \<open>ScanFinalizedFiles _ _ _ = _\<close> assms(2) Some Inr
          by (simp add: fs_def Let_def)
        show thesis
        proof (cases "fs = []")
          case True
          then have "new = {}" by (simp add: new_def)
          then have "\<forall>n. finalized d ?dir n \<longrightarrow> b n \<noteq> None" unfolding new by simp
          then show thesis using assms(1) step True idle by simp
        next
          case False
          then have ne: "new \<noteq> {}" by (simp add: new_def)
          obtain fl b1 where u: "upload_loop env d s fs False b = (fl, b1)" by fastforce
          note e = upload_loop_effect [OF u assms(2) sub dist]
          have none: "\<forall>k \<in> new. b k = None" using new by blast
          show thesis
          proof (cases fl)
            case True
            then have same: "s' = s" "d' = d" and "b' = b1" using assms(1) step False u by auto
            then have "uploads d ?dir new b b'" using e unfolding new_def by simp
            then show thesis
            proof (rule failed [OF same _ none ne new])
              show "\<exists>fs. set fs \<subseteq> scanned_of d ?dir ` {n. finalized d ?dir n} \<and> fst (upload_loop env d s fs False b)"
                using sub u True by (intro exI [of _ fs]) simp
            qed
          next
            case nf: False
            then have "syncer_uploadManifest enc env s d b1 = (err, s', d', b')" using assms(1) step False u by simp
            moreover have "\<forall>n \<in> new. body b1 n = d (path_Join ?dir n)" using e nf by (auto simp: new_def)
            moreover have "uploads d ?dir new b b1" using e unfolding new_def by simp
            ultimately show thesis using published [OF _ none ne new] by blast
          qed
        qed
      qed
    qed
  qed
qed

end

context uploader
begin

lemma all_uploaded:
  assumes "uploads d dir new b b1" "bucket_ok d dir b1" "new = {n. finalized d dir n \<and> b n = None}"
    and "\<forall>n \<in> new. body b1 n = d (path_Join dir n)"
  shows "\<forall>n. finalized d dir n \<longrightarrow> body b1 n = d (path_Join dir n)"
proof (intro allI impI)
  fix n assume f: "finalized d dir n"
  show "body b1 n = d (path_Join dir n)"
  proof (cases "n \<in> new")
    case False
    then have "b n \<noteq> None" using f assms(3) by simp
    moreover have "dom b \<subseteq> dom b1" using assms(1) by (simp add: uploads_def)
    ultimately have "b1 n \<noteq> None" by (meson domIff subsetD)
    then show ?thesis using assms(2) [unfolded bucket_ok_def, rule_format, OF f] by auto
  qed (use assms(4) in blast)
qed

lemma sync_invariant:
  assumes "sy_s3 s = up" "finite (dom d)" "finite (dom b)" "fault env (SysReadDir (sy_blocksDir s)) = None"
    and "\<forall>m bs. enc m = Inr bs \<longrightarrow> dec bs = Inr m"
    and "\<forall>dir name. sy_manifestPath s = Some (dir, name) \<longrightarrow> name \<noteq> [] \<and> last name \<notin> {CHR ''t'', CHR ''p''}"
    and "bucket_ok d (sy_blocksDir s) b" "published_ok dec b"
    and "\<forall>m. sy_lastManifest s = Some m \<longrightarrow> hashes_ok d (sy_blocksDir s) (mn_Files m)"
    and "sync enc env s d b = Some (err, s', d', b')"
  shows "bucket_ok d' (sy_blocksDir s) b' \<and> published_ok dec b'
    \<and> (\<forall>m. sy_lastManifest s' = Some m \<longrightarrow> hashes_ok d' (sy_blocksDir s) (mn_Files m))"
  using assms(10,1-4)
proof (cases rule: sync_cases)
  case idle
  then show ?thesis using assms(7-9) by simp
next
  case (failed new)
  show ?thesis using failed(1,2) uploads_ok [OF failed(3) assms(7,8) failed(4)] assms(9) by simp
next
  case (published new b1)
  note ok = uploads_ok [OF published(1) assms(7,8) published(2)]
  note r = uploadManifest_ok [OF published(6) assms(1,2,4-6,9) all_uploaded [OF published(1) ok(1) published(4,5)] ok(2)]
  have same: "\<forall>q. last q = CHR ''t'' \<longrightarrow> d' q = d q" using r by blast
  have "bucket_ok d' (sy_blocksDir s) b'"
    unfolding bucket_ok_def finalized_same [OF same]
  proof (intro allI impI)
    fix n assume f: "finalized d (sy_blocksDir s) n"
    then have "n \<noteq> ''manifest.json''" using finalized_name by fastforce
    then have "b' n = b1 n" using r by blast
    moreover have "d' (path_Join (sy_blocksDir s) n) = d (path_Join (sy_blocksDir s) n)"
      using same finalized_last [OF f] by blast
    ultimately show "b' n = None \<or> body b' n = d' (path_Join (sy_blocksDir s) n)"
      using ok(1) f body_cong [of b' n b1] unfolding bucket_ok_def by metis
  qed
  then show ?thesis using r hashes_ok_same [OF same] by auto
qed

lemma sync_idle:
  assumes "sy_s3 s = up" "finite (dom d)" "finite (dom b)" "fault env (SysReadDir (sy_blocksDir s)) = None"
    and "\<forall>n. finalized d (sy_blocksDir s) n \<longrightarrow> b n \<noteq> None" "sync enc env s d b = Some (err, s', d', b')"
  shows "s' = s \<and> d' = d \<and> b' = b"
  using assms(6,1-4)
proof (cases rule: sync_cases)
  case (failed new)
  show ?thesis using failed(5,6) assms(5) by blast
next
  case (published new b1)
  show ?thesis using published(3,4) assms(5) by blast
qed simp

lemma upload_loop_succeeds:
  assumes "\<forall>c. fault env c = None" "\<forall>k x b. fst (up_Upload up k x b) = None" "sy_s3 s = up"
    and "set fs \<subseteq> scanned_of d dir ` {n. finalized d dir n}"
  shows "fst (upload_loop env d s fs failed b) = failed"
  using assms(4)
proof (induction fs arbitrary: b)
  case (Cons f fs)
  obtain n where n: "f = scanned_of d dir n" "finalized d dir n" using Cons.prems by auto
  then have "d (path_Join dir n) \<noteq> None" by (auto simp: finalized_def)
  then have "fst (uploadFile env d s f b) = None"
    using assms(1-3) n(1) by (auto simp: uploadFile_def os_Open_def scanned_of_def)
  moreover have "fst (uploadBlockmap env d s m b) = None" for m b
    using assms(1-3) by (auto simp: uploadBlockmap_def os_Open_def os_Stat_def Let_def split: option.splits)
  ultimately show ?case
    using Cons.IH Cons.prems by (auto split: prod.splits option.splits) (metis fst_conv option.distinct(1))+
qed simp

end

lemma uploadManifest_succeeds:
  assumes "GenerateManifest env d (manifestOpts s) (sy_blocksDir s) (sy_chain s) = Inr m" "enc m = Inr bs"
    and "\<forall>k x b. fst (up_UploadManifest (sy_s3 s) k x b) = None"
  shows "fst (syncer_uploadManifest enc env s d b) = None"
proof -
  have "run_buffer (Write_manifest enc m) = Inr bs"
    using assms(2) by (intro emits_run_buffer) (simp add: Write_manifest_def)
  moreover obtain b' where "up_UploadManifest (sy_s3 s) ''manifest.json'' bs b = (None, b')"
    using assms(3) by (metis prod.collapse)
  ultimately show ?thesis
    unfolding syncer_uploadManifest_def assms(1) sum.case Let_def by simp
qed

section \<open>A service that lists in pages\<close>

text \<open>
  An instance of the service: the keys in order, a fixed number of them to a page, the token
  being the position of the next page.
\<close>

definition paged_aws :: "nat \<Rightarrow> (string \<Rightarrow> (bool \<times> go_error) option) \<Rightarrow> aws" where
  "paged_aws sz faults =
     \<lparr>aws_Put = faults,
      aws_ListObjectsV2 = (\<lambda>b pre token.
        let keys = sorted_list_of_set {k \<in> dom b. HasPrefix k pre};
            i = (case token of None \<Rightarrow> 0 | Some t \<Rightarrow> digits_val t)
        in Inr (map Some (slice i (Suc sz) keys),
                if i + Suc sz < length keys then Some (Itoa_nat (i + Suc sz)) else None)),
      aws_HeadObject = (\<lambda>b key. case b key of None \<Rightarrow> Inl NotFound | Some x \<Rightarrow> Inr (Some (int (length (po_Body x))))),
      aws_Delete = (\<lambda>_. None)\<rparr>"

lemma map_filter_Some: "List.map_filter (\<lambda>k. k) (map Some xs) = xs"
  by (induction xs) (auto simp: List.map_filter_def)

lemma list_loop_pages:
  assumes "\<And>token. page token = Inr (map Some (slice (case token of None \<Rightarrow> 0 | Some t \<Rightarrow> digits_val t) (Suc sz) keys),
      if (case token of None \<Rightarrow> 0 | Some t \<Rightarrow> digits_val t) + Suc sz < length keys
      then Some (Itoa_nat ((case token of None \<Rightarrow> 0 | Some t \<Rightarrow> digits_val t) + Suc sz)) else None)"
  shows "(case token of None \<Rightarrow> 0 | Some t \<Rightarrow> digits_val t) = i \<Longrightarrow> list_loop page token acc = Some (Inr (acc @ drop i keys))"
proof (induction "length keys - i" arbitrary: i token acc rule: less_induct)
  case less
  show ?case
  proof (cases "i + Suc sz < length keys")
    case True
    have "list_loop page token acc = list_loop page (Some (Itoa_nat (i + Suc sz))) (acc @ slice i (Suc sz) keys)"
      using True less.prems by (subst list_loop.simps) (simp add: assms map_filter_Some)
    also have "\<dots> = Some (Inr ((acc @ slice i (Suc sz) keys) @ drop (i + Suc sz) keys))"
      by (rule less.hyps) (use True Itoa_nat_digits [of "i + Suc sz"] in auto)
    also have "\<dots> = Some (Inr (acc @ drop i keys))"
      using drop_slice [of i "i + Suc sz" keys] by simp
    finally show ?thesis .
  next
    case False
    then have "slice i (Suc sz) keys = drop i keys" by (simp add: slice_def)
    then show ?thesis
      using False less.prems by (subst list_loop.simps) (simp add: assms map_filter_Some)
  qed
qed

lemma paged_List:
  "List_keys \<lparr>cl_aws = paged_aws sz faults, cl_storageClass = class\<rparr> pre b
     = Some (Inr (sorted_list_of_set {k \<in> dom b. HasPrefix k pre}))"
proof -
  have "list_loop (aws_ListObjectsV2 (paged_aws sz faults) b pre) None []
      = Some (Inr ([] @ drop 0 (sorted_list_of_set {k \<in> dom b. HasPrefix k pre})))"
    by (rule list_loop_pages [where sz = sz]) (simp_all add: paged_aws_def Let_def)
  then show ?thesis by (simp add: List_keys_def)
qed

lemma put_object_effect:
  "put_object a k input b = (err, b') \<Longrightarrow> put_effect k (po_Body input) b err b'"
  by (auto simp: put_object_def put_effect_def body_def split: option.splits prod.splits if_splits)

interpretation s3_client: uploader "Client_uploader \<lparr>cl_aws = paged_aws sz faults, cl_storageClass = class\<rparr>"
proof unfold_locales
  fix k data b err b'
  let ?c = "\<lparr>cl_aws = paged_aws sz faults, cl_storageClass = class\<rparr>"
  show "put_effect k data b err b'" if "up_Upload (Client_uploader ?c) k data b = (err, b')"
    using that put_object_effect unfolding Client_uploader_def Upload_def put_effect_def
    by (fastforce split: prod.splits option.splits)
  show "put_effect k data b err b'" if "up_UploadManifest (Client_uploader ?c) k data b = (err, b')"
    using that put_object_effect unfolding Client_uploader_def UploadManifest_def put_effect_def
    by (fastforce split: prod.splits option.splits)
  fix ks
  assume "finite (dom b)" "up_List (Client_uploader ?c) [] b = Some (Inr ks)"
  then show "set ks = dom b"
    by (auto simp: Client_uploader_def paged_List HasPrefix_def)
qed

section \<open>Correctness of a round\<close>

text \<open>
  A round of the syncer keeps the bucket consistent, whichever call fails: under the name of a
  finalized file it holds that file or nothing, every file that the published manifest lists
  is in the bucket with the listed size and SHA-256, and the hashes kept for the next round
  are right. Clients that follow the manifest thus never ask for a file that is not there.
\<close>

theorem sync_consistent:
  assumes "uploader (sy_s3 s)" "finite (dom d)" "finite (dom b)" "fault env (SysReadDir (sy_blocksDir s)) = None"
    and "\<forall>m bs. enc m = Inr bs \<longrightarrow> dec bs = Inr m"
    and "\<forall>dir name. sy_manifestPath s = Some (dir, name) \<longrightarrow> name \<noteq> [] \<and> last name \<notin> {CHR ''t'', CHR ''p''}"
    and "bucket_ok d (sy_blocksDir s) b" "published_ok dec b"
    and "\<forall>m. sy_lastManifest s = Some m \<longrightarrow> hashes_ok d (sy_blocksDir s) (mn_Files m)"
    and "sync enc env s d b = Some (err, s', d', b')"
  shows "bucket_ok d' (sy_blocksDir s) b' \<and> published_ok dec b'
    \<and> (\<forall>m. sy_lastManifest s' = Some m \<longrightarrow> hashes_ok d' (sy_blocksDir s) (mn_Files m))"
  by (rule uploader.sync_invariant [OF assms(1) refl assms(2-10)])

definition example_syncer :: "(string \<Rightarrow> (bool \<times> go_error) option) \<Rightarrow> Syncer" where
  "example_syncer faults =
     NewSyncer ''b'' ''mainnet'' [] (Client_uploader \<lparr>cl_aws = paged_aws 999 faults, cl_storageClass = ''STANDARD_IA''\<rparr>) []"

lemma example_syncer_simps [simp]:
  "sy_blocksDir (example_syncer f) = ''b''" "sy_chain (example_syncer f) = ''mainnet''"
  "sy_manifestPath (example_syncer f) = None" "sy_lastManifest (example_syncer f) = None"
  "uploader (sy_s3 (example_syncer f))"
  by (simp_all add: example_syncer_def NewSyncer_def s3_client.uploader_axioms)

lemma example_syncer_List: "finite (dom b) \<Longrightarrow> \<exists>ks. up_List (sy_s3 (example_syncer f)) [] b = Some (Inr ks)"
  by (simp add: example_syncer_def NewSyncer_def Client_uploader_def paged_List)

text \<open>A codec that is right about the one manifest of the example.\<close>

definition example_encode :: "Manifest \<Rightarrow> Manifest \<Rightarrow> bytes result" where
  "example_encode m0 m = (if m = m0 then Inr [1] else Inl EOF)"

lemma sync_returns:
  assumes "\<exists>r. up_List (sy_s3 s) [] b = Some r"
  shows "\<exists>err s' d' b'. sync enc env s d b = Some (err, s', d', b')"
  using assms by (auto simp: sync_def Let_def split: sum.splits prod.splits) (metis prod.exhaust)

theorem sync_consistent_witness:
  "\<exists>err s' d' b'. sync (example_encode empty_manifest) io_ok (example_syncer (\<lambda>k. Some (True, EOF))) example_blocks Map.empty
        = Some (err, s', d', b') \<and> bucket_ok d' ''b'' b'"
proof -
  let ?s = "example_syncer (\<lambda>k. Some (True, EOF))"
  obtain err s' d' b' where r: "sync (example_encode empty_manifest) io_ok ?s example_blocks Map.empty = Some (err, s', d', b')"
    using sync_returns example_syncer_List [of Map.empty] by (metis dom_empty finite.emptyI)
  have fin: "finite (dom example_blocks)" by (simp add: example_blocks_def)
  have "bucket_ok d' (sy_blocksDir ?s) b'"
    using sync_consistent [OF _ fin _ _ _ _ _ _ _ r, of "\<lambda>_. Inr empty_manifest"]
    by (simp add: example_encode_def bucket_ok_def published_ok_def body_def split: if_splits)
  then show ?thesis using r by auto
qed

text \<open>
  C27. A round in which nothing fails and that finds a new finalized file ends with all finalized
  files in the bucket and a manifest that lists exactly them.
\<close>

theorem sync_complete:
  assumes "uploader (sy_s3 s)" "finite (dom d)" "finite (dom b)" "\<forall>c. fault env c = None" "d (sy_blocksDir s) = None"
    and "\<forall>m bs. enc m = Inr bs \<longrightarrow> dec bs = Inr m"
    and "\<forall>m. GenerateManifest env d (manifestOpts s) (sy_blocksDir s) (sy_chain s) = Inr m \<longrightarrow> (\<exists>bs. enc m = Inr bs)"
    and "\<forall>dir name. sy_manifestPath s = Some (dir, name) \<longrightarrow> name \<noteq> [] \<and> last name \<notin> {CHR ''t'', CHR ''p''}"
    and "bucket_ok d (sy_blocksDir s) b" "published_ok dec b"
    and "\<forall>m. sy_lastManifest s = Some m \<longrightarrow> hashes_ok d (sy_blocksDir s) (mn_Files m)"
    and "\<forall>k x b. fst (up_Upload (sy_s3 s) k x b) = None \<and> fst (up_UploadManifest (sy_s3 s) k x b) = None"
    and "\<exists>ks. up_List (sy_s3 s) [] b = Some (Inr ks)"
    and "finalized d (sy_blocksDir s) newest" "b newest = None"
  shows "\<exists>s' d' b' raw m. sync enc env s d b = Some (None, s', d', b')
    \<and> (\<forall>n. finalized d (sy_blocksDir s) n \<longrightarrow> body b' n = d (path_Join (sy_blocksDir s) n))
    \<and> body b' ''manifest.json'' = Some raw \<and> dec raw = Inr m
    \<and> mf_Name ` set (mn_Files m) = {n. finalized d (sy_blocksDir s) n}"
proof -
  let ?dir = "sy_blocksDir s"
  note rd = assms(4) [rule_format, of "SysReadDir ?dir"]
  obtain err s' d' b' where r: "sync enc env s d b = Some (err, s', d', b')"
    using sync_returns assms(13) by blast
  show ?thesis
  proof (cases rule: uploader.sync_cases [OF assms(1) r refl assms(2,3) rd])
    case 1
    then show ?thesis using assms(13-15) scan_total [OF assms(2,4), of ?dir] by (cases err) auto
  next
    case (2 new)
    obtain fs where "set fs \<subseteq> scanned_of d ?dir ` {n. finalized d ?dir n}" "fst (upload_loop env d s fs False b)"
      using 2(7) by blast
    then show ?thesis using uploader.upload_loop_succeeds [OF assms(1,4) _ refl, of fs d ?dir False b] assms(12) by simp
  next
    case (3 new b1)
    note ok = uploads_ok [OF 3(1) assms(9,10) 3(2)]
    note all = uploader.all_uploaded [OF assms(1) 3(1) ok(1) 3(4,5)]
    note u = uploader.uploadManifest_ok [OF assms(1) 3(6) refl assms(2) rd assms(6,8,11) all ok(2)]
    obtain m where m: "GenerateManifest env d (manifestOpts s) ?dir (sy_chain s) = Inr m"
      using GenerateManifest_total [OF assms(2,4,5)] by blast
    then obtain bs where "enc m = Inr bs" using assms(7) by blast
    then have "err = None" using uploadManifest_succeeds [OF m, of enc bs b1] assms(12) 3(6) by simp
    then obtain raw m where pub: "body b' ''manifest.json'' = Some raw" "dec raw = Inr m"
      "mf_Name ` set (mn_Files m) = {n. finalized d ?dir n}" using u by blast
    have "body b' n = d (path_Join ?dir n)" if "finalized d ?dir n" for n
    proof -
      have "n \<noteq> ''manifest.json''" using finalized_name [OF that] by auto
      then have "b' n = b1 n" using u by blast
      then show ?thesis using all that body_cong by metis
    qed
    then show ?thesis using r \<open>err = None\<close> pub by blast
  qed
qed

theorem sync_complete_witness:
  "\<exists>m0 s' d' b'. sync (example_encode m0) io_ok (example_syncer (\<lambda>_. None)) example_blocks Map.empty = Some (None, s', d', b')
     \<and> body b' ''blk00000.dat'' = example_blocks ''b/blk00000.dat''"
proof -
  let ?s = "example_syncer (\<lambda>_. None)"
  have fin: "finite (dom example_blocks)" and dir: "example_blocks ''b'' = None" by (simp_all add: example_blocks_def)
  obtain m0 where m0: "GenerateManifest io_ok example_blocks (manifestOpts ?s) ''b'' ''mainnet'' = Inr m0"
    using GenerateManifest_total [OF fin _ dir, of io_ok] by auto
  have up: "fst (up_Upload (sy_s3 ?s) k x b) = None \<and> fst (up_UploadManifest (sy_s3 ?s) k x b) = None" for k x b
    by (simp add: example_syncer_def NewSyncer_def Client_uploader_def Upload_def UploadManifest_def put_object_def paged_aws_def)
  have f: "finalized example_blocks ''b'' ''blk00000.dat''" by (simp add: example_blocks_finalized)
  have "\<exists>s' d' b' raw m. sync (example_encode m0) io_ok ?s example_blocks Map.empty = Some (None, s', d', b')
    \<and> (\<forall>n. finalized example_blocks (sy_blocksDir ?s) n \<longrightarrow> body b' n = example_blocks (path_Join (sy_blocksDir ?s) n))
    \<and> body b' ''manifest.json'' = Some raw \<and> Inr m0 = (Inr m :: Manifest result)
    \<and> mf_Name ` set (mn_Files m) = {n. finalized example_blocks (sy_blocksDir ?s) n}"
    by (rule sync_complete [where dec = "\<lambda>_. Inr m0" and newest = "''blk00000.dat''"])
      (use fin dir m0 up f example_syncer_List [of Map.empty] in
        \<open>simp_all add: example_encode_def bucket_ok_def published_ok_def body_def split: if_splits\<close>)
  then obtain s' d' b' where "sync (example_encode m0) io_ok ?s example_blocks Map.empty = Some (None, s', d', b')"
    and "\<forall>n. finalized example_blocks (sy_blocksDir ?s) n \<longrightarrow> body b' n = example_blocks (path_Join (sy_blocksDir ?s) n)"
    by blast
  then show ?thesis using f by (intro exI [of _ m0] exI [of _ s'] exI [of _ d'] exI [of _ b']) (simp add: path_Join_def)
qed

text \<open>
  A round does nothing once every finalized file is in the bucket, whatever else is missing
  there. So when a round has uploaded all files but the upload of a blockmap or of the manifest
  failed, no later round makes up for it until another file is finalized.
\<close>

theorem failed_upload_not_retried:
  assumes "uploader (sy_s3 s)" "finite (dom d)" "finite (dom b)" "fault env (SysReadDir (sy_blocksDir s)) = None"
    and "\<forall>n. finalized d (sy_blocksDir s) n \<longrightarrow> b n \<noteq> None" "sync enc env s d b = Some (err, s', d', b')"
  shows "s' = s \<and> d' = d \<and> b' = b"
  by (rule uploader.sync_idle [OF assms(1) refl assms(2-6)])

text \<open>A bucket with the files of the example and no manifest.\<close>

theorem failed_upload_not_retried_witness:
  "\<exists>err. sync (example_encode empty_manifest) io_ok (example_syncer (\<lambda>_. None)) example_blocks
       (\<lambda>k. map_option (\<lambda>c. \<lparr>po_Body = c, po_CacheControl = [], po_ContentType = [], po_StorageClass = []\<rparr>) (example_blocks (''b/'' @ k)))
     = Some (err, example_syncer (\<lambda>_. None), example_blocks,
         (\<lambda>k. map_option (\<lambda>c. \<lparr>po_Body = c, po_CacheControl = [], po_ContentType = [], po_StorageClass = []\<rparr>) (example_blocks (''b/'' @ k))))"
proof -
  let ?s = "example_syncer (\<lambda>_. None)"
  define b where "b = (\<lambda>k. map_option (\<lambda>c. \<lparr>po_Body = c, po_CacheControl = [], po_ContentType = [], po_StorageClass = []\<rparr>)
      (example_blocks (''b/'' @ k)))"
  have fin: "finite (dom example_blocks)" by (simp add: example_blocks_def)
  have "dom b = (\<lambda>k. ''b/'' @ k) -` dom example_blocks" by (auto simp: b_def)
  then have finb: "finite (dom b)" using fin by (simp add: finite_vimageI inj_def)
  obtain err s' d' b' where r: "sync (example_encode empty_manifest) io_ok ?s example_blocks b = Some (err, s', d', b')"
    using sync_returns example_syncer_List [OF finb] by metis
  have "\<forall>n. finalized example_blocks ''b'' n \<longrightarrow> b n \<noteq> None"
    by (auto simp: example_blocks_finalized b_def) (simp_all add: example_blocks_def)
  then have "s' = ?s \<and> d' = example_blocks \<and> b' = b"
    using failed_upload_not_retried [OF _ fin finb _ _ r] by simp
  then show ?thesis using r unfolding b_def by blast
qed

end
