(* ===== verification/Filepath.thy ===== *)
theory Filepath
  imports Files
begin

text \<open>
  \<open>path/filepath\<close> on path names that need not be clean: \<open>Clean\<close>, \<open>Join\<close> and \<open>IsAbs\<close>. Shown:
  the form of a cleaned name, and that joining a clean directory and proper names is
  concatenation.
\<close>

section \<open>Definitions\<close>

text \<open>The elements of a path between slashes, and back.\<close>

fun path_elems :: "string \<Rightarrow> string list" where
  "path_elems [] = [[]]"
| "path_elems (c # s) =
     (if c = CHR ''/'' then [] # path_elems s else (case path_elems s of e # es \<Rightarrow> (c # e) # es | [] \<Rightarrow> [[c]]))"

fun path_concat :: "string list \<Rightarrow> string" where
  "path_concat [] = []"
| "path_concat [e] = e"
| "path_concat (e # e' # es) = e @ ''/'' @ path_concat (e' # es)"

text \<open>
  \<open>filepath.Clean\<close>: empty elements and dots are dropped, and a double dot drops the element
  before it; at the root it is dropped itself, and at the start of a relative path it stays.
  The stack has the last element first.
\<close>

definition clean_push :: "bool \<Rightarrow> string list \<Rightarrow> string \<Rightarrow> string list" where
  "clean_push rooted stack e =
     (if e = [] \<or> e = ''.'' then stack
      else if e = ''..'' then
        (case stack of
           [] \<Rightarrow> if rooted then [] else [''..'']
         | x # xs \<Rightarrow> if x = ''..'' then e # stack else xs)
      else e # stack)"

definition IsAbs :: "string \<Rightarrow> bool" where
  "IsAbs p \<longleftrightarrow> HasPrefix p ''/''"

definition clean_stack :: "string \<Rightarrow> string list" where
  "clean_stack p = foldl (clean_push (IsAbs p)) [] (path_elems p)"

definition path_Clean :: "string \<Rightarrow> string" where
  "path_Clean p =
     (let out = path_concat (rev (clean_stack p))
      in if IsAbs p then ''/'' @ out else if out = [] then ''.'' else out)"

definition filepath_Join :: "string \<Rightarrow> string \<Rightarrow> string" where
  "filepath_Join dir name = path_Clean (dir @ ''/'' @ name)"

section \<open>Cleaning\<close>

lemma path_elems_ne [simp]: "path_elems s \<noteq> []"
  by (induction s) (auto split: list.splits)

lemma path_elems_no_slash: "e \<in> set (path_elems s) \<Longrightarrow> CHR ''/'' \<notin> set e"
  by (induction s arbitrary: e) (auto split: if_splits list.splits)

lemma path_elems_slash: "path_elems (a @ CHR ''/'' # b) = path_elems a @ path_elems b"
  by (induction a) (auto split: list.splits)

lemma path_elems_plain: "CHR ''/'' \<notin> set e \<Longrightarrow> path_elems e = [e]"
  by (induction e) auto

lemma path_elems_concat:
  "es \<noteq> [] \<Longrightarrow> \<forall>e \<in> set es. CHR ''/'' \<notin> set e \<Longrightarrow> path_elems (path_concat es) = es"
  by (induction es rule: path_concat.induct) (auto simp: path_elems_plain path_elems_slash)

lemma path_concat_append:
  "xs \<noteq> [] \<Longrightarrow> ys \<noteq> [] \<Longrightarrow> path_concat (xs @ ys) = path_concat xs @ ''/'' @ path_concat ys"
proof (induction xs rule: path_concat.induct)
  case (2 e)
  then show ?case by (cases ys) auto
qed auto

text \<open>What a stack holds: proper names, above them only double dots, and those only in a relative path.\<close>

definition proper :: "string \<Rightarrow> bool" where
  "proper e \<longleftrightarrow> e \<noteq> [] \<and> e \<noteq> ''.'' \<and> e \<noteq> ''..'' \<and> CHR ''/'' \<notin> set e"

definition stack_ok :: "bool \<Rightarrow> string list \<Rightarrow> bool" where
  "stack_ok rooted st \<longleftrightarrow>
     (\<exists>k ns. st = ns @ replicate k ''..'' \<and> list_all proper ns \<and> (rooted \<longrightarrow> k = 0))"

lemma clean_push_ok:
  assumes "stack_ok rooted st" "CHR ''/'' \<notin> set e"
  shows "stack_ok rooted (clean_push rooted st e)"
proof -
  obtain k ns where st: "st = ns @ replicate k ''..''" "list_all proper ns" "rooted \<longrightarrow> k = 0"
    using assms(1) by (auto simp: stack_ok_def)
  consider (skip) "e = [] \<or> e = ''.''" | (up) "e = ''..''" | (name) "proper e"
    using assms(2) by (auto simp: proper_def)
  then show ?thesis
  proof cases
    case skip
    then show ?thesis using assms(1) by (auto simp: clean_push_def)
  next
    case name
    then have "clean_push rooted st e = (e # ns) @ replicate k ''..''" using st by (simp add: clean_push_def proper_def)
    then show ?thesis using st name unfolding stack_ok_def by (metis list.pred_inject(2))
  next
    case up
    show ?thesis
    proof (cases ns)
      case (Cons x xs)
      then have "clean_push rooted st e = xs @ replicate k ''..''" using st up by (simp add: clean_push_def proper_def)
      then show ?thesis using st Cons unfolding stack_ok_def by (metis list.pred_inject(2))
    next
      case Nil
      then have "clean_push rooted st e = [] @ replicate (if rooted then 0 else Suc k) ''..''"
        using st up by (cases k) (auto simp: clean_push_def)
      then show ?thesis unfolding stack_ok_def by (metis list.pred_inject(1))
    qed
  qed
qed

lemma foldl_push_ok:
  "stack_ok rooted st \<Longrightarrow> \<forall>e \<in> set es. CHR ''/'' \<notin> set e \<Longrightarrow> stack_ok rooted (foldl (clean_push rooted) st es)"
  by (induction es arbitrary: st) (auto simp: clean_push_ok)

lemma clean_stack_ok: "stack_ok (IsAbs p) (clean_stack p)"
  unfolding clean_stack_def
  by (rule foldl_push_ok) (auto simp: stack_ok_def path_elems_no_slash intro: exI [of _ "[]"])

lemma foldl_push_proper:
  "list_all proper es \<Longrightarrow> foldl (clean_push rooted) st es = rev es @ st"
  by (induction es arbitrary: st) (auto simp: clean_push_def proper_def)

lemma path_concat_dots: "HasPrefix (path_concat (''..'' # es)) ''..''"
  by (cases es) (auto simp: HasPrefix_def)

text \<open>A cleaned name that the check lets through is a dot or consists of proper names.\<close>

lemma clean_name_cases:
  assumes "\<not> HasPrefix (path_Clean p) ''..''" "\<not> IsAbs (path_Clean p)"
  obtains (dot) "path_Clean p = ''.''"
  | (names) es where "es \<noteq> []" "list_all proper es" "path_Clean p = path_concat es"
proof -
  have rel: "\<not> IsAbs p" using assms(2) by (auto simp: path_Clean_def IsAbs_def HasPrefix_def)
  obtain k ns where st: "clean_stack p = ns @ replicate k ''..''" "list_all proper ns"
    using clean_stack_ok [of p] by (auto simp: stack_ok_def)
  have c: "path_Clean p = (let out = path_concat (replicate k ''..'' @ rev ns) in if out = [] then ''.'' else out)"
    using rel st by (simp add: path_Clean_def)
  have "k = 0"
  proof (rule ccontr)
    assume "k \<noteq> 0"
    then obtain j where "k = Suc j" by (cases k) auto
    then have "HasPrefix (path_concat (replicate k ''..'' @ rev ns)) ''..''" using path_concat_dots by simp
    then show False using c assms(1) by (auto simp: Let_def HasPrefix_def split: if_splits)
  qed
  show thesis
  proof (cases "path_concat (rev ns) = []")
    case True
    then show thesis using c \<open>k = 0\<close> dot by simp
  next
    case False
    then have "rev ns \<noteq> []" by auto
    then show thesis using names [of "rev ns"] c \<open>k = 0\<close> False st(2) by simp
  qed
qed

lemma path_concat_rel:
  assumes "list_all proper es" "es \<noteq> []"
  shows "\<not> IsAbs (path_concat es)" "path_concat es \<noteq> []" "path_elems (path_concat es) = es"
proof -
  show el: "path_elems (path_concat es) = es"
    using assms by (intro path_elems_concat) (auto simp: list_all_iff proper_def)
  then show "path_concat es \<noteq> []" using assms by (auto simp: proper_def dest!: sym [of "path_elems []"])
  then show "\<not> IsAbs (path_concat es)"
    using el assms(1) by (cases "path_concat es") (auto simp: IsAbs_def HasPrefix_def proper_def)
qed

text \<open>A destination that is clean and neither the current directory nor the root.\<close>

definition clean_dir :: "string \<Rightarrow> bool" where
  "clean_dir dir \<longleftrightarrow> path_Clean dir = dir \<and> clean_stack dir \<noteq> []"

lemma Join_names:
  assumes "clean_dir dir" "list_all proper es" "es \<noteq> []"
  shows "filepath_Join dir (path_concat es) = path_Join dir (path_concat es)"
proof -
  have ne: "dir \<noteq> []" using assms(1) by (auto simp: clean_dir_def clean_stack_def clean_push_def)
  have abs: "IsAbs (dir @ ''/'' @ x) = IsAbs dir" for x using ne by (cases dir) (auto simp: IsAbs_def HasPrefix_def)
  have st: "clean_stack (dir @ ''/'' @ path_concat es) = rev es @ clean_stack dir"
    unfolding clean_stack_def abs
    using path_concat_rel [OF assms(2,3)] foldl_push_proper [OF assms(2)] by (simp add: path_elems_slash)
  have d: "(let out = path_concat (rev (clean_stack dir)) in if IsAbs dir then ''/'' @ out else if out = [] then ''.'' else out) = dir"
    using assms(1) by (simp add: clean_dir_def path_Clean_def)
  have out: "path_concat (rev (clean_stack dir)) \<noteq> []"
  proof -
    obtain k ns where st: "clean_stack dir = ns @ replicate k ''..''" "list_all proper ns"
      using clean_stack_ok [of dir] by (auto simp: stack_ok_def)
    have name: "CHR ''/'' \<notin> set e \<and> e \<noteq> []" if "e \<in> set (clean_stack dir)" for e
    proof (cases "e = ''..''")
      case False
      then have "e \<in> set ns" using that unfolding st(1) by (simp add: set_replicate_conv_if split: if_splits)
      then show ?thesis using st(2) by (simp add: list_all_iff proper_def)
    qed simp
    have ne: "rev (clean_stack dir) \<noteq> []" using assms(1) by (simp add: clean_dir_def)
    have "path_elems (path_concat (rev (clean_stack dir))) = rev (clean_stack dir)"
      by (rule path_elems_concat [OF ne]) (use name in simp)
    moreover have "[] \<notin> set (rev (clean_stack dir))" using name by auto
    ultimately show ?thesis by (metis list.set_intros(1) path_elems.simps(1))
  qed
  have join: "path_concat (rev (rev es @ clean_stack dir)) = path_concat (rev (clean_stack dir)) @ ''/'' @ path_concat es"
    using path_concat_append [of "rev (clean_stack dir)" es] assms(1,3) by (simp add: clean_dir_def)
  have "filepath_Join dir (path_concat es) = (if IsAbs dir then ''/'' @ path_concat (rev (clean_stack dir))
      else path_concat (rev (clean_stack dir))) @ ''/'' @ path_concat es"
    unfolding filepath_Join_def path_Clean_def abs st join by (simp add: Let_def)
  also have "(if IsAbs dir then ''/'' @ path_concat (rev (clean_stack dir)) else path_concat (rev (clean_stack dir))) = dir"
  proof (cases "IsAbs dir")
    case True
    show ?thesis using d [unfolded Let_def if_P [OF True]] unfolding if_P [OF True] .
  next
    case False
    show ?thesis using d [unfolded Let_def if_not_P [OF False] if_not_P [OF out]] unfolding if_not_P [OF False] .
  qed
  finally show ?thesis by (simp add: path_Join_def)
qed

lemma Join_dot:
  assumes "clean_dir dir"
  shows "filepath_Join dir ''.'' = dir"
proof -
  have ne: "dir \<noteq> []" using assms by (auto simp: clean_dir_def clean_stack_def clean_push_def)
  have abs: "IsAbs (dir @ ''/'' @ x) = IsAbs dir" for x using ne by (cases dir) (auto simp: IsAbs_def HasPrefix_def)
  have "clean_stack (dir @ ''/'' @ ''.'') = clean_stack dir"
    unfolding clean_stack_def abs by (simp add: path_elems_slash clean_push_def)
  then have "filepath_Join dir ''.'' = path_Clean dir"
    unfolding filepath_Join_def path_Clean_def abs by simp
  then show ?thesis using assms by (simp add: clean_dir_def)
qed

lemma concat_path_elems: "path_concat (path_elems s) = s"
proof (induction s)
  case (Cons c s)
  then show ?case by (cases "path_elems s"; cases "tl (path_elems s)") auto
qed simp

lemma proper_clean:
  assumes "list_all proper es" "es \<noteq> []"
  shows "path_Clean (path_concat es) = path_concat es"
proof -
  note c = path_concat_rel [OF assms]
  have "clean_stack (path_concat es) = rev es"
    unfolding clean_stack_def c(3) using foldl_push_proper [OF assms(1)] by simp
  then show "path_Clean (path_concat es) = path_concat es" using c(1,2) by (simp add: path_Clean_def)
qed

end
