(* ===== verification/Snapshot.thy ===== *)
theory Snapshot
  imports Server_Gen Filepath
begin

text \<open>
  Snapshots of the block index (\<open>internal/server/snapshot.go\<close>): packing a directory into a
  compressed archive and unpacking one. The formats tar and zstd are a parameter: a function
  from the entries to the bytes of the archive, and one back that may fail at any point. Shown:
  whatever an archive contains, unpacking changes no file outside the destination; and unpacking
  what was packed restores the directory.
\<close>

section \<open>Archives\<close>

datatype typeflag = TypeReg | TypeDir | TypeOther

text \<open>
  An entry of an archive as the reader sees it: the header and what can be read of its
  content, which may end with an error.
\<close>

record tar_entry =
  te_Name :: string
  te_Typeflag :: typeflag
  te_Data :: bytes
  te_Err :: "go_error option"

text \<open>
  \<open>zstd.NewReader\<close> may fail; otherwise the entries follow until the end of the archive or an
  error of \<open>Next\<close>.
\<close>

type_synonym tar_reader = "bytes \<Rightarrow> (tar_entry list \<times> go_error option) result"

definition extract_entry :: "io_env \<Rightarrow> string \<Rightarrow> tar_entry \<Rightarrow> disk_op" where
  "extract_entry env destDir hdr d =
     (let cleanName = path_Clean (te_Name hdr) in
      if HasPrefix cleanName ''..'' \<or> IsAbs cleanName
      then (Some (ErrNew (''invalid tar entry path: '' @ te_Name hdr)), d)
      else
        let target = filepath_Join destDir cleanName in
        case te_Typeflag hdr of
          TypeDir \<Rightarrow> (map_option (Errorf (''create directory '' @ target)) (fault env (SysMkdirAll target)), d)
        | TypeReg \<Rightarrow>
            (case fault env (SysMkdirAll (path_Dir target)) of
               Some e \<Rightarrow> (Some (Errorf (''create parent dir for '' @ target) e), d)
             | None \<Rightarrow>
                 (case fault env (SysCreate target) of
                    Some e \<Rightarrow> (Some (Errorf (''create file '' @ target) e), d)
                  | None \<Rightarrow>
                      (case w_write (te_Data hdr) (fresh_writer env target) of
                         (Some e, w) \<Rightarrow> (Some (Errorf (''write file '' @ target) e), d(target \<mapsto> written w))
                       | (None, w) \<Rightarrow>
                           (map_option (Errorf (''write file '' @ target)) (te_Err hdr), d(target \<mapsto> written w)))))
        | TypeOther \<Rightarrow> (None, d))"

fun extract_loop :: "io_env \<Rightarrow> string \<Rightarrow> tar_entry list \<Rightarrow> go_error option \<Rightarrow> disk_op" where
  "extract_loop env destDir [] err d = (map_option (Errorf ''read tar entry'') err, d)"
| "extract_loop env destDir (hdr # hdrs) err d =
     (case extract_entry env destDir hdr d of
        (Some e, d') \<Rightarrow> (Some e, d')
      | (None, d') \<Rightarrow> extract_loop env destDir hdrs err d')"

definition ExtractTarZst :: "tar_reader \<Rightarrow> io_env \<Rightarrow> bytes \<Rightarrow> string \<Rightarrow> disk_op" where
  "ExtractTarZst reader env r destDir d =
     (case reader r of
        Inl e \<Rightarrow> (Some (Errorf ''create zstd reader'' e), d)
      | Inr (entries, err) \<Rightarrow> extract_loop env destDir entries err d)"

text \<open>
  \<open>filepath.Walk\<close> visits the files below a directory in the order of their path elements. The
  archive's bytes reach the file when the writers are closed; a full device is reported then.
  The output lies outside of the directory. The hash that the function prints is its first
  result.
\<close>

definition files_below :: "disk \<Rightarrow> string \<Rightarrow> string set" where
  "files_below d dir = {rel. rel \<noteq> [] \<and> d (path_Join dir rel) \<noteq> None}"

definition walk_files :: "disk \<Rightarrow> string \<Rightarrow> string list" where
  "walk_files d dir = sort_key path_elems (sorted_list_of_set (files_below d dir))"

definition pack_entry :: "io_env \<Rightarrow> disk \<Rightarrow> string \<Rightarrow> string \<Rightarrow> tar_entry result" where
  "pack_entry env d indexDir relPath =
     bindE (os_Stat env d (path_Join indexDir relPath)) (\<lambda>_.
     bindE (wrapE ''open file'' (os_Open env d (path_Join indexDir relPath))) (\<lambda>f.
     bindE (wrapE ''copy file to tar'' (sys env (SysReadAt (path_Join indexDir relPath) 0) (Inr f))) (\<lambda>data.
       Inr \<lparr>te_Name = relPath, te_Typeflag = TypeReg, te_Data = data, te_Err = None\<rparr>)))"

definition CreateBlocksIndexSnapshot ::
  "(tar_entry list \<Rightarrow> bytes) \<Rightarrow> io_env \<Rightarrow> string \<Rightarrow> string \<Rightarrow> disk \<Rightarrow> string result \<times> disk" where
  "CreateBlocksIndexSnapshot archive env indexDir outputPath d =
     (case fault env (SysMkdirAll (path_Dir outputPath)) of
        Some e \<Rightarrow> (Inl (Errorf ''create output directory'' e), d)
      | None \<Rightarrow>
     (case fault env (SysCreate outputPath) of
        Some e \<Rightarrow> (Inl (Errorf ''create output file'' e), d)
      | None \<Rightarrow>
     (case bindE (os_ReadDir env d indexDir) (\<lambda>_. mapE (pack_entry env d indexDir) (walk_files d indexDir)) of
        Inl e \<Rightarrow> (Inl (Errorf ''walk index dir'' e), d(outputPath \<mapsto> []))
      | Inr entries \<Rightarrow>
     (case w_write (archive entries) (fresh_writer env outputPath) of
        (Some e, w) \<Rightarrow> (Inl (Errorf ''flush zstd'' e), d(outputPath \<mapsto> written w))
      | (None, w) \<Rightarrow>
          let d' = d(outputPath \<mapsto> written w) in
          (case fault env (SysClose outputPath) of
             Some e \<Rightarrow> (Inl (Errorf ''close output'' e), d')
           | None \<Rightarrow> (wrapE ''sha256 output'' (sha256File env d' outputPath), d'))))))"

section \<open>Unpacking stays below the destination\<close>

definition below :: "string \<Rightarrow> string \<Rightarrow> bool" where
  "below dir p \<longleftrightarrow> p = dir \<or> (\<exists>es. es \<noteq> [] \<and> list_all proper es \<and> p = path_Join dir (path_concat es))"

lemma target_below:
  assumes "clean_dir dir" "\<not> HasPrefix (path_Clean p) ''..''" "\<not> IsAbs (path_Clean p)"
  shows "below dir (filepath_Join dir (path_Clean p))"
  using assms(2,3)
proof (cases rule: clean_name_cases)
  case dot
  then show ?thesis using Join_dot [OF assms(1)] by (simp add: below_def)
next
  case (names es)
  then show ?thesis using Join_names [OF assms(1) names(2,1)] by (auto simp: below_def)
qed

lemma extract_entry_below:
  assumes "clean_dir dir" "extract_entry env dir hdr d = (err, d')" "d' p \<noteq> d p"
  shows "below dir p"
proof -
  let ?c = "path_Clean (te_Name hdr)"
  have "\<not> HasPrefix ?c ''..''" "\<not> IsAbs ?c" "p = filepath_Join dir ?c"
    using assms(2,3)
    by (auto simp: extract_entry_def Let_def split: if_splits typeflag.splits option.splits prod.splits)
  then show ?thesis using target_below [OF assms(1)] by blast
qed

lemma extract_loop_below:
  "clean_dir dir \<Longrightarrow> extract_loop env dir hdrs rerr d = (err, d') \<Longrightarrow> d' p \<noteq> d p \<Longrightarrow> below dir p"
proof (induction hdrs arbitrary: d)
  case (Cons hdr hdrs)
  obtain e1 d1 where x: "extract_entry env dir hdr d = (e1, d1)" by fastforce
  show ?case
  proof (cases "d1 p = d p")
    case True
    then show ?thesis using Cons x by (cases e1) auto
  next
    case False
    then show ?thesis using extract_entry_below [OF Cons.prems(1) x] by blast
  qed
qed simp

text \<open>
  C28. Path traversal is impossible: whatever archive is unpacked and whatever fails, the only
  files that change are the destination itself and files below it, reached through proper
  names only.
\<close>

theorem extract_confined:
  assumes "clean_dir destDir" "ExtractTarZst reader env r destDir d = (err, d')" "d' p \<noteq> d p"
  shows "p = destDir \<or> (\<exists>es. es \<noteq> [] \<and> p = destDir @ ''/'' @ path_concat es
    \<and> (\<forall>e \<in> set es. e \<noteq> [] \<and> e \<noteq> ''.'' \<and> e \<noteq> ''..'' \<and> CHR ''/'' \<notin> set e))"
proof -
  have "below destDir p"
  proof (cases "reader r")
    case (Inl e)
    then show ?thesis using assms by (auto simp: ExtractTarZst_def)
  next
    case (Inr x)
    obtain entries rerr where "x = (entries, rerr)" by fastforce
    then show ?thesis using Inr assms extract_loop_below by (auto simp: ExtractTarZst_def)
  qed
  then show ?thesis by (auto simp: below_def path_Join_def list_all_iff proper_def)
qed

definition example_evil :: tar_reader where
  "example_evil r = Inr ([\<lparr>te_Name = ''a/../b/./x'', te_Typeflag = TypeReg, te_Data = [1], te_Err = None\<rparr>,
     \<lparr>te_Name = ''a/../../etc/passwd'', te_Typeflag = TypeReg, te_Data = [2], te_Err = None\<rparr>], None)"

lemma clean_dir_data: "clean_dir ''data''"
  unfolding clean_dir_def by code_simp

theorem extract_confined_witness:
  "ExtractTarZst example_evil io_ok [] ''data'' Map.empty =
     (Some (ErrNew ''invalid tar entry path: a/../../etc/passwd''), [''data/b/x'' \<mapsto> [1]])
   \<and> (\<exists>es. ''data/b/x'' = ''data'' @ ''/'' @ path_concat es \<and> ''..'' \<notin> set es)"
proof -
  have 1: "path_Clean ''a/../b/./x'' = ''b/x''" "filepath_Join ''data'' ''b/x'' = ''data/b/x''"
    "path_Clean ''a/../../etc/passwd'' = ''../etc/passwd''" by code_simp+
  have x: "ExtractTarZst example_evil io_ok [] ''data'' Map.empty =
     (Some (ErrNew ''invalid tar entry path: a/../../etc/passwd''), [''data/b/x'' \<mapsto> [1]])"
    by (simp add: ExtractTarZst_def example_evil_def extract_entry_def 1 Let_def HasPrefix_def IsAbs_def w_write_def fresh_writer_def)
  have "\<exists>es. ''data/b/x'' = ''data'' @ ''/'' @ path_concat es \<and> ''..'' \<notin> set es"
    using extract_confined [OF clean_dir_data x, of "''data/b/x''"] by auto
  then show ?thesis using x by blast
qed

section \<open>Packing and unpacking\<close>

text \<open>The names below a directory that the unpacker accepts as they are.\<close>

definition packable :: "string \<Rightarrow> bool" where
  "packable rel \<longleftrightarrow> list_all proper (path_elems rel) \<and> \<not> HasPrefix rel ''..''"

lemma extract_packed:
  assumes "clean_dir dir" "packable rel" "fault env = (\<lambda>_. None)" "space env = (\<lambda>_. None)"
  shows "extract_entry env dir \<lparr>te_Name = rel, te_Typeflag = TypeReg, te_Data = c, te_Err = None\<rparr> d
    = (None, d(path_Join dir rel \<mapsto> c))"
proof -
  have p: "list_all proper (path_elems rel)" "\<not> HasPrefix rel ''..''" using assms(2) by (auto simp: packable_def)
  note n = proper_clean [OF p(1) path_elems_ne, unfolded concat_path_elems]
    path_concat_rel(1) [OF p(1) path_elems_ne, unfolded concat_path_elems]
    Join_names [OF assms(1) p(1) path_elems_ne, unfolded concat_path_elems]
  show ?thesis
    using p(2) n assms(3,4) by (simp add: extract_entry_def Let_def w_write_def fresh_writer_def)
qed

lemma extract_packed_loop:
  assumes "clean_dir dir" "\<forall>rel \<in> set rels. packable rel" "fault env = (\<lambda>_. None)" "space env = (\<lambda>_. None)"
  shows "extract_loop env dir (map (\<lambda>rel. \<lparr>te_Name = rel, te_Typeflag = TypeReg, te_Data = f rel, te_Err = None\<rparr>) rels) None d
    = (None, \<lambda>p. if p \<in> path_Join dir ` set rels then Some (f (drop (Suc (length dir)) p)) else d p)"
  using assms(2)
proof (induction rels arbitrary: d)
  case (Cons rel rels)
  have "drop (Suc (length dir)) (path_Join dir rel) = rel" by (simp add: path_Join_def)
  then show ?case
    using Cons extract_packed [OF assms(1) _ assms(3,4)] by (auto simp: fun_eq_iff)
qed simp

text \<open>
  C29. A snapshot restores the index: what was packed on the server and is unpacked on the client
  gives below the destination exactly the files of the index directory, provided that the
  formats give back the entries that were put in and no name below the directory starts with
  two dots; such names the unpacker refuses.
\<close>

theorem snapshot_roundtrip:
  assumes "\<forall>entries. mapE (pack_entry env d indexDir) (walk_files d indexDir) = Inr entries \<longrightarrow>
      reader (archive entries) = Inr (entries, None)"
    and "CreateBlocksIndexSnapshot archive env indexDir outputPath d = (Inr hash, d1)" "d1 outputPath = Some data"
    and "finite (dom d)" "\<forall>rel \<in> files_below d indexDir. packable rel"
    and "clean_dir destDir" "fault env' = (\<lambda>_. None)" "space env' = (\<lambda>_. None)"
  shows "\<exists>d2. ExtractTarZst reader env' data destDir e = (None, d2)
    \<and> (\<forall>rel \<in> files_below d indexDir. d2 (path_Join destDir rel) = d (path_Join indexDir rel))
    \<and> hash = EncodeToString (Sum256 data)"
proof -
  obtain entries where en: "mapE (pack_entry env d indexDir) (walk_files d indexDir) = Inr entries"
    and w: "snd (CreateBlocksIndexSnapshot archive env indexDir outputPath d) = d(outputPath \<mapsto> archive entries)"
    and h: "sha256File env (d(outputPath \<mapsto> archive entries)) outputPath = Inr hash"
    using assms(2) by (auto simp: CreateBlocksIndexSnapshot_def Let_def result_iffs w_write_def fresh_writer_def
        split: option.splits sum.splits prod.splits if_splits)
  then have data: "data = archive entries" "hash = EncodeToString (Sum256 data)"
    using assms(2,3) by (auto simp: sha256File_def result_iffs)
  let ?f = "\<lambda>rel. the (d (path_Join indexDir rel))"
  have "list_all2 (\<lambda>rel x. x = \<lparr>te_Name = rel, te_Typeflag = TypeReg, te_Data = ?f rel, te_Err = None\<rparr>) (walk_files d indexDir) entries"
    using en unfolding mapE_Inr by (rule list.rel_mono_strong) (auto simp: pack_entry_def result_iffs)
  then have entries: "entries = map (\<lambda>rel. \<lparr>te_Name = rel, te_Typeflag = TypeReg, te_Data = ?f rel, te_Err = None\<rparr>) (walk_files d indexDir)"
    by (induction rule: list_all2_induct) auto
  have "path_Join indexDir ` files_below d indexDir \<subseteq> dom d" by (auto simp: files_below_def)
  then have "finite (files_below d indexDir)"
    using assms(4) by (meson finite_imageD finite_subset inj_onI path_Join_inj)
  then have set: "set (walk_files d indexDir) = files_below d indexDir" by (simp add: walk_files_def)
  note x = extract_packed_loop [OF assms(6) _ assms(7,8), of "walk_files d indexDir" ?f e, folded entries]
  have "ExtractTarZst reader env' data destDir e = (None, \<lambda>p. if p \<in> path_Join destDir ` files_below d indexDir
      then Some (?f (drop (Suc (length destDir)) p)) else e p)"
    using x assms(1,5) set data en by (simp add: ExtractTarZst_def)
  moreover have "Some (?f (drop (Suc (length destDir)) (path_Join destDir rel))) = d (path_Join indexDir rel)"
    if "rel \<in> files_below d indexDir" for rel
    using that by (auto simp: files_below_def path_Join_def)
  ultimately show ?thesis using data(2) by auto
qed

definition example_index :: disk where
  "example_index = [''i/000005.ldb'' \<mapsto> [1, 2], ''i/CURRENT'' \<mapsto> [3]]"

theorem snapshot_roundtrip_witness:
  "\<exists>archive reader hash d1 d2. CreateBlocksIndexSnapshot archive io_ok ''i'' ''out'' example_index = (Inr hash, d1)
     \<and> ExtractTarZst reader io_ok (the (d1 ''out'')) ''data'' Map.empty = (None, d2) \<and> d2 ''data/CURRENT'' = Some [3]"
proof -
  let ?d = example_index
  have below: "files_below ?d ''i'' = {''000005.ldb'', ''CURRENT''}"
    by (auto simp: files_below_def example_index_def path_Join_def split: if_splits)
  have p: "packable ''000005.ldb''" "packable ''CURRENT''" unfolding packable_def proper_def by code_simp+
  define es where "es = map (\<lambda>rel. \<lparr>te_Name = rel, te_Typeflag = TypeReg, te_Data = the (?d (path_Join ''i'' rel)), te_Err = None\<rparr>)
      (walk_files ?d ''i'')"
  have set: "set (walk_files ?d ''i'') = {''000005.ldb'', ''CURRENT''}" by (simp add: walk_files_def below)
  have val: "?d (path_Join ''i'' ''000005.ldb'') = Some [1, 2]" "?d (path_Join ''i'' ''CURRENT'') = Some [3]"
    by (simp_all add: example_index_def path_Join_def)
  have en: "mapE (pack_entry io_ok ?d ''i'') (walk_files ?d ''i'') = Inr es"
    unfolding es_def by (intro mapE_ok) (auto simp: set pack_entry_def os_Stat_def os_Open_def val)
  obtain hash where c: "CreateBlocksIndexSnapshot (\<lambda>_. [7]) io_ok ''i'' ''out'' ?d = (Inr hash, ?d(''out'' \<mapsto> [7]))"
    using en by (auto simp: CreateBlocksIndexSnapshot_def os_ReadDir_def w_write_def fresh_writer_def
        sha256File_def os_ReadFile_def os_Open_def Let_def)
  have "\<exists>d2. ExtractTarZst (\<lambda>_. Inr (es, None)) io_ok [7] ''data'' Map.empty = (None, d2)
    \<and> (\<forall>rel \<in> files_below ?d ''i''. d2 (path_Join ''data'' rel) = ?d (path_Join ''i'' rel))
    \<and> hash = EncodeToString (Sum256 [7])"
    by (rule snapshot_roundtrip [OF _ c]) (use en p below in \<open>auto simp: clean_dir_data example_index_def io_ok_def\<close>)
  then obtain d2 where d2: "ExtractTarZst (\<lambda>_. Inr (es, None)) io_ok [7] ''data'' Map.empty = (None, d2)"
    "d2 (path_Join ''data'' ''CURRENT'') = ?d (path_Join ''i'' ''CURRENT'')" using below by auto
  then have "d2 ''data/CURRENT'' = Some [3]" by (simp add: path_Join_def example_index_def)
  then show ?thesis using c d2(1) by (metis fun_upd_same option.sel)
qed

end
