(* ===== verification/Config.thy ===== *)
theory Config
  imports Filepath Fetch_Policy
begin

text \<open>
  The client's configuration (\<open>internal/config\<close>): where the file is looked for, the expansion
  of the home directory and the validation. The library that parses flags and INI files is a
  parameter. The rate is a rational number; a rate that is not a number, which the parser of
  the library would take and the validation would accept, is left out. Shown: the directories
  of a loaded configuration are expanded, and the policy built from it has exactly the
  configured values, so that none of the policy's own defaults comes into play.
\<close>

record GeneralConfig =
  g_Chain :: string
  g_CacheDir :: string
  g_LocalDir :: string
  g_MountPoint :: string
  g_BitcoinDataDir :: string
  g_LogLevel :: string
  g_RemoteFetchMode :: string
  g_AutoGapToleranceKB :: int
  g_AutoMinRangeRequests :: int
  g_AutoMinSequentialMB :: int
  g_AutoMinSequentialRate :: rat
  g_AutoMaxBackwardSeeks :: int
  g_AutoFileHintTTL :: int
  g_AutoPromotionCooldown :: int

record CacheConfig =
  cc_MaxSizeGB :: int
  cc_MinKeepRecent :: int

record ServerConfig =
  sc_URL :: string
  sc_RequestTimeout :: int
  sc_RetryCount :: int

record CompactConfig =
  cp_Trigger :: string
  cp_Threshold :: int
  cp_PreDownload :: bool

record Config =
  ConfigFile :: string
  General :: GeneralConfig
  Cache :: CacheConfig
  Server :: ServerConfig
  Compaction :: CompactConfig

text \<open>
  The parser of \<open>go-flags\<close> on a configuration: values of an INI file are taken as defaults,
  arguments override them.
\<close>

record flags_parser =
  ini_ParseFile :: "bytes \<Rightarrow> Config \<Rightarrow> Config result"
  ParseArgs :: "string list \<Rightarrow> Config \<Rightarrow> Config result"

fun config_flag :: "string list \<Rightarrow> string" where
  "config_flag [] = ''~/.slimnode/config.conf''"
| "config_flag (arg # args) =
     (if arg = ''--config'' \<and> args \<noteq> [] then hd args
      else if HasPrefix arg ''--config='' then drop 9 arg
      else config_flag args)"

definition expand_home :: "string \<Rightarrow> string \<Rightarrow> string" where
  "expand_home home p = (if HasPrefix p ''~'' then filepath_Join home (drop 1 p) else p)"

definition expandPaths :: "string result \<Rightarrow> Config \<Rightarrow> Config result" where
  "expandPaths userHome cfg =
     bindE (wrapE ''failed to get home directory'' userHome) (\<lambda>home.
       Inr (cfg\<lparr>General := (General cfg)
         \<lparr>g_CacheDir := expand_home home (g_CacheDir (General cfg)),
          g_LocalDir := expand_home home (g_LocalDir (General cfg)),
          g_BitcoinDataDir := expand_home home (g_BitcoinDataDir (General cfg))\<rparr>\<rparr>))"

definition validate :: "Config \<Rightarrow> unit result" where
  "validate cfg =
     (let g = General cfg in
      guardE (g_MountPoint g \<noteq> []) (ErrNew ''required field missing: mount-point'')
     (guardE (sc_URL (Server cfg) \<noteq> []) (ErrNew ''required field missing: server.url'')
     (guardE (g_RemoteFetchMode g = ''auto'' \<or> g_RemoteFetchMode g = ''file'' \<or> g_RemoteFetchMode g = ''range'')
        (ErrNew ''invalid general.remote-fetch-mode'')
     (guardE (\<not> g_AutoGapToleranceKB g < 0) (ErrNew ''invalid general.auto-gap-tolerance-kb'')
     (guardE (\<not> g_AutoMinRangeRequests g < 1) (ErrNew ''invalid general.auto-min-range-requests'')
     (guardE (\<not> g_AutoMinSequentialMB g < 1) (ErrNew ''invalid general.auto-min-sequential-mb'')
     (guardE (\<not> (g_AutoMinSequentialRate g \<le> 0 \<or> g_AutoMinSequentialRate g > 1))
        (ErrNew ''invalid general.auto-min-sequential-rate'')
     (guardE (\<not> g_AutoMaxBackwardSeeks g < 0) (ErrNew ''invalid general.auto-max-backward-seeks'')
     (guardE (\<not> g_AutoFileHintTTL g \<le> 0) (ErrNew ''invalid general.auto-file-hint-ttl'')
     (guardE (\<not> g_AutoPromotionCooldown g \<le> 0) (ErrNew ''invalid general.auto-promotion-cooldown'')
        (Inr ())))))))))))"

text \<open>The zero values that the parser starts from.\<close>

definition zero_config :: "string \<Rightarrow> Config" where
  "zero_config configPath =
     \<lparr>ConfigFile = configPath,
      General = \<lparr>g_Chain = [], g_CacheDir = [], g_LocalDir = [], g_MountPoint = [], g_BitcoinDataDir = [], g_LogLevel = [],
        g_RemoteFetchMode = [], g_AutoGapToleranceKB = 0, g_AutoMinRangeRequests = 0, g_AutoMinSequentialMB = 0,
        g_AutoMinSequentialRate = 0, g_AutoMaxBackwardSeeks = 0, g_AutoFileHintTTL = 0, g_AutoPromotionCooldown = 0\<rparr>,
      Cache = \<lparr>cc_MaxSizeGB = 0, cc_MinKeepRecent = 0\<rparr>,
      Server = \<lparr>sc_URL = [], sc_RequestTimeout = 0, sc_RetryCount = 0\<rparr>,
      Compaction = \<lparr>cp_Trigger = [], cp_Threshold = 0, cp_PreDownload = True\<rparr>\<rparr>"

definition Load :: "flags_parser \<Rightarrow> io_env \<Rightarrow> disk \<Rightarrow> string result \<Rightarrow> string list \<Rightarrow> Config result" where
  "Load parser env d userHome args =
     bindE (if HasPrefix (config_flag args) ''~''
            then bindE (wrapE ''failed to get home directory'' userHome)
                   (\<lambda>home. Inr (filepath_Join home (drop 1 (config_flag args))))
            else Inr (config_flag args)) (\<lambda>configPath.
     bindE (case os_Stat env d configPath of
              Inl e \<Rightarrow> Inr (zero_config configPath)
            | Inr _ \<Rightarrow> wrapE (''failed to parse INI file '' @ configPath)
                (bindE (os_ReadFile env d configPath) (\<lambda>ini. ini_ParseFile parser ini (zero_config configPath)))) (\<lambda>cfg.
     bindE (wrapE ''parse failed'' (ParseArgs parser args cfg)) (\<lambda>cfg.
     bindE (expandPaths userHome cfg) (\<lambda>cfg.
     bindE (validate cfg) (\<lambda>_. Inr cfg)))))"

text \<open>The settings of the fetch policy, as \<open>mount\<close> passes them on.\<close>

definition policy_config :: "Config \<Rightarrow> FetchPolicyConfig" where
  "policy_config cfg =
     \<lparr>cfg_Mode = g_RemoteFetchMode (General cfg), AutoGapToleranceKB = g_AutoGapToleranceKB (General cfg),
      AutoMinRangeRequests = g_AutoMinRangeRequests (General cfg), AutoMinSequentialMB = g_AutoMinSequentialMB (General cfg),
      AutoMinSequentialRate = g_AutoMinSequentialRate (General cfg), AutoMaxBackwardSeeks = g_AutoMaxBackwardSeeks (General cfg),
      AutoFileHintTTL = g_AutoFileHintTTL (General cfg), AutoPromotionCooldown = g_AutoPromotionCooldown (General cfg)\<rparr>"

section \<open>Loaded configurations\<close>

lemma path_Clean_abs: "IsAbs p \<Longrightarrow> IsAbs (path_Clean p)"
  by (simp add: path_Clean_def IsAbs_def HasPrefix_def Let_def)

lemma expand_home_abs:
  assumes "IsAbs home"
  shows "\<not> HasPrefix (expand_home home p) ''~''" "HasPrefix p ''~'' \<Longrightarrow> IsAbs (expand_home home p)"
proof -
  have "IsAbs (filepath_Join home (drop 1 p))" using assms path_Clean_abs
    by (cases home) (auto simp: filepath_Join_def IsAbs_def HasPrefix_def)
  then show "\<not> HasPrefix (expand_home home p) ''~''" "HasPrefix p ''~'' \<Longrightarrow> IsAbs (expand_home home p)"
    by (auto simp: expand_home_def IsAbs_def HasPrefix_iff)
qed

text \<open>
  C34. A configuration that loads is usable as it is: its directories no longer start with a tilde,
  it names a mount point and a server, and the policy that the file system gets has exactly the
  configured mode, thresholds and times; in particular none of them is replaced by a default.
\<close>

theorem loaded_config_effective:
  assumes "Load parser env d (Inr home) args = Inr cfg" "IsAbs home"
    and "g_AutoGapToleranceKB (General cfg) < 2 ^ 53" "g_AutoMinSequentialMB (General cfg) < 2 ^ 43"
  shows "(\<forall>p \<in> {g_CacheDir (General cfg), g_LocalDir (General cfg), g_BitcoinDataDir (General cfg)}. \<not> HasPrefix p ''~'')
    \<and> g_MountPoint (General cfg) \<noteq> [] \<and> sc_URL (Server cfg) \<noteq> []
    \<and> NewFetchPolicy (policy_config cfg) =
        \<lparr>mode = g_RemoteFetchMode (General cfg), gapToleranceBytes = g_AutoGapToleranceKB (General cfg) * 1024,
         minRangeRequests = g_AutoMinRangeRequests (General cfg),
         minSequentialBytes = g_AutoMinSequentialMB (General cfg) * 1048576,
         minSequentialRate = g_AutoMinSequentialRate (General cfg),
         maxBackwardSeeks = g_AutoMaxBackwardSeeks (General cfg), fileHintTTL = g_AutoFileHintTTL (General cfg),
         promotionCooldown = g_AutoPromotionCooldown (General cfg), fileHints = Map.empty, cooldownUntil = Map.empty\<rparr>"
proof -
  obtain c0 where e: "expandPaths (Inr home) c0 = Inr cfg" and v: "validate cfg = Inr ()"
    using assms(1) by (auto simp: Load_def result_iffs)
  have paths: "\<not> HasPrefix (g_CacheDir (General cfg)) ''~''" "\<not> HasPrefix (g_LocalDir (General cfg)) ''~''"
    "\<not> HasPrefix (g_BitcoinDataDir (General cfg)) ''~''"
    using e expand_home_abs(1) [OF assms(2)] by (auto simp: expandPaths_def)
  let ?g = "General cfg"
  have ok: "g_MountPoint ?g \<noteq> []" "sc_URL (Server cfg) \<noteq> []" "g_RemoteFetchMode ?g \<noteq> []" "0 \<le> g_AutoGapToleranceKB ?g"
    "1 \<le> g_AutoMinRangeRequests ?g" "1 \<le> g_AutoMinSequentialMB ?g" "0 < g_AutoMinSequentialRate ?g"
    "g_AutoMinSequentialRate ?g \<le> 1" "0 \<le> g_AutoMaxBackwardSeeks ?g" "0 < g_AutoFileHintTTL ?g" "0 < g_AutoPromotionCooldown ?g"
    using v by (auto simp: validate_def result_iffs Let_def)
  have w: "wrap64 (g_AutoGapToleranceKB ?g * 1024) = g_AutoGapToleranceKB ?g * 1024"
    "wrap64 (wrap64 (g_AutoMinSequentialMB ?g * 1024) * 1024) = g_AutoMinSequentialMB ?g * 1048576"
    using assms(3,4) ok(4,6) by (simp_all add: in_int64_def)
  show ?thesis
    using paths ok w by (simp add: NewFetchPolicy_def policy_config_def)
qed

definition example_parser :: flags_parser where
  "example_parser = \<lparr>ini_ParseFile = (\<lambda>_ c. Inr c), ParseArgs = (\<lambda>_ c. Inr (c
     \<lparr>General := \<lparr>g_Chain = ''mainnet'', g_CacheDir = ''~/.slimnode/cache'', g_LocalDir = ''~/.slimnode/local'', g_MountPoint = ''/mnt/b'',
        g_BitcoinDataDir = ''~/.bitcoin'', g_LogLevel = ''info'', g_RemoteFetchMode = ''auto'', g_AutoGapToleranceKB = 0,
        g_AutoMinRangeRequests = 1, g_AutoMinSequentialMB = 4, g_AutoMinSequentialRate = 1, g_AutoMaxBackwardSeeks = 0,
        g_AutoFileHintTTL = 600, g_AutoPromotionCooldown = 30\<rparr>,
      Server := \<lparr>sc_URL = ''http://h'', sc_RequestTimeout = 30, sc_RetryCount = 3\<rparr>\<rparr>))\<rparr>"

theorem loaded_config_effective_witness:
  "\<exists>cfg. Load example_parser io_ok Map.empty (Inr ''/home/u'') [''mount''] = Inr cfg
     \<and> g_CacheDir (General cfg) = ''/home/u/.slimnode/cache''
     \<and> gapToleranceBytes (NewFetchPolicy (policy_config cfg)) = 0"
proof -
  have p: "filepath_Join ''/home/u'' ''/.slimnode/cache'' = ''/home/u/.slimnode/cache''"
    "IsAbs ''/home/u''" by code_simp+
  obtain cfg where l: "Load example_parser io_ok Map.empty (Inr ''/home/u'') [''mount''] = Inr cfg"
    and c: "g_CacheDir (General cfg) = filepath_Join ''/home/u'' ''/.slimnode/cache''"
      "g_AutoGapToleranceKB (General cfg) = 0" "g_AutoMinSequentialMB (General cfg) = 4"
    by (simp add: Load_def example_parser_def os_Stat_def expandPaths_def expand_home_def validate_def guardE_def
        HasPrefix_def zero_config_def)
  then show ?thesis
    using loaded_config_effective [OF l p(2)] p(1) by auto
qed

end
