(* ===== verification/Mount.thy ===== *)
theory Mount
  imports Config Daemon Fusefs_Run Remote
begin

text \<open>
  The command \<open>slimnode mount\<close> (\<open>internal/cmd/mount.go\<close>) up to the point where the file system
  and the daemons start: directories, store and cache are opened, the manifest is fetched or
  read from disk, and the table is reconciled with the local directory and the manifest. What
  the database file holds is a parameter, and the clock shows one time during the start-up.
  Shown: what the reconciled table says of every file, and which files are sealed from then on;
  and two flaws, that a file already finalised is made writable again by a restart, and that a
  new hash in the manifest is given to a cached file whose content is the old one.
\<close>

section \<open>The table at start-up\<close>

definition mergeLocalScanEntry :: "FileEntry option \<Rightarrow> FileEntry \<Rightarrow> FileEntry" where
  "mergeLocalScanEntry existing scanned =
     (case existing of
        None \<Rightarrow> scanned
      | Some e \<Rightarrow>
          let merged = e\<lparr>fe_State := fe_State scanned, fe_Source := fe_Source scanned, fe_Size := fe_Size scanned,
                         fe_CreatedAt := fe_CreatedAt scanned, fe_LastAccess := fe_LastAccess scanned\<rparr>
          in if fe_State scanned = FileStateActive then merged\<lparr>fe_SHA256 := []\<rparr> else merged)"

text \<open>The entry that \<open>GetFile\<close> returns; an error of any kind counts as none.\<close>

definition existing_entry :: "db_env \<Rightarrow> Row list \<Rightarrow> string \<Rightarrow> FileEntry option" where
  "existing_entry denv db f = (case GetFile denv db f of Inl e \<Rightarrow> None | Inr e \<Rightarrow> Some e)"

definition merge_locals :: "db_env \<Rightarrow> FileEntry list \<Rightarrow> Row list \<Rightarrow> Row list" where
  "merge_locals denv localFiles db =
     foldl (\<lambda>db e. snd (UpsertFile denv (mergeLocalScanEntry (existing_entry denv db (fe_Filename e)) e) db)) db localFiles"

definition drop_orphans :: "io_env \<Rightarrow> db_env \<Rightarrow> string \<Rightarrow> disk \<Rightarrow> Row list \<Rightarrow> Row list" where
  "drop_orphans env denv localDir d db =
     (case ListByState denv db FileStateActive of
        Inl e \<Rightarrow> db
      | Inr activeEntries \<Rightarrow>
          foldl (\<lambda>db e. if fe_Filename e = ''.lock'' then db
                        else if os_Stat env d (path_Join localDir (fe_Filename e)) = Inl ErrNotExist
                        then snd (DeleteFile denv (fe_Filename e) db) else db) db activeEntries)"

definition register_file :: "db_env \<Rightarrow> time \<Rightarrow> ManifestFile \<Rightarrow> Row list \<Rightarrow> Row list" where
  "register_file denv now f db =
     (case existing_entry denv db (mf_Name f) of
        None \<Rightarrow> snd (UpsertFile denv (remote_entry now f) db)
      | Some e \<Rightarrow>
          if fe_State e = FileStateRemote \<or> fe_State e = FileStateCached then
            if fe_Size e \<noteq> mf_Size f \<or> (mf_SHA256 f \<noteq> [] \<and> fe_SHA256 e \<noteq> mf_SHA256 f)
            then snd (UpsertFile denv
                   (e\<lparr>fe_Size := mf_Size f, fe_SHA256 := (if mf_SHA256 f \<noteq> [] then mf_SHA256 f else fe_SHA256 e),
                      fe_LastAccess := now\<rparr>) db)
            else db
          else db)"

definition reconcile :: "io_env \<Rightarrow> db_env \<Rightarrow> string \<Rightarrow> time \<Rightarrow> disk \<Rightarrow> FileEntry list \<Rightarrow> Manifest \<Rightarrow> Row list \<Rightarrow> Row list" where
  "reconcile env denv localDir now d localFiles mf db =
     foldl (\<lambda>db f. register_file denv now f db)
       (drop_orphans env denv localDir d (merge_locals denv localFiles db)) (mn_Files mf)"

section \<open>The manifest at start-up\<close>

definition loadInitialManifest ::
  "io_env \<Rightarrow> (bytes \<Rightarrow> Manifest result) \<Rightarrow> (Manifest \<Rightarrow> bytes result)
     \<Rightarrow> (string \<Rightarrow> (Manifest option \<times> string) result) \<Rightarrow> string \<Rightarrow> disk \<Rightarrow> Manifest result \<times> disk" where
  "loadInitialManifest env json_decode json_encode fetch cacheDir d =
     (case fetch [] of
        Inr (None, _) \<Rightarrow> (Inr empty_manifest, d)
      | Inr (Some mf, _) \<Rightarrow> (Inr mf, snd (WriteFile_manifest json_encode env cacheDir ''manifest.json'' mf d))
      | Inl err \<Rightarrow>
          (case ParseFile json_decode env d (path_Join cacheDir ''manifest.json'') of
             Inr cached \<Rightarrow> (Inr cached, d)
           | Inl parseErr \<Rightarrow> (Inl err, d)))"

section \<open>The command\<close>

record mount_env =
  me_io :: io_env
  me_db :: db_env
  me_store :: "string \<Rightarrow> Row list result"
  me_http :: http_env
  me_decode :: "Manifest json_stream"
  me_encode :: "Manifest \<Rightarrow> bytes result"
  me_modtime :: "string \<Rightarrow> time"
  me_now :: time

record mounted_node =
  nd_fs :: FS
  nd_client :: "HTTPClient + CDNClient"
  nd_poller :: ManifestPoller
  nd_cacheMgr :: CacheManager
  nd_compactMgr :: CompactionManager

definition fileClient :: "Config \<Rightarrow> Manifest \<Rightarrow> HTTPClient + CDNClient" where
  "fileClient cfg mf =
     (if mn_BaseURL mf \<noteq> [] then Inr (NewCDN (mn_BaseURL mf) (sc_RetryCount (Server cfg)))
      else Inl (New_client (sc_URL (Server cfg)) (sc_RetryCount (Server cfg))))"

definition maxBytes :: "Config \<Rightarrow> int" where
  "maxBytes cfg = wrap64 (cc_MaxSizeGB (Cache cfg) * 1024 * 1024 * 1024)"

text \<open>
  \<open>MountCmd.Execute\<close> in the foreground: an error, or the node with everything that the
  goroutines share, and the disk.
\<close>

definition MountCmd_Execute :: "mount_env \<Rightarrow> Config \<Rightarrow> disk \<Rightarrow> mounted_node result \<times> disk" where
  "MountCmd_Execute me cfg d =
     (let cacheDir = g_CacheDir (General cfg); localDir = g_LocalDir (General cfg) in
      case fault (me_io me) (SysMkdirAll cacheDir) of
        Some e \<Rightarrow> (Inl (Errorf ''creating cache dir'' e), d)
      | None \<Rightarrow>
     (case fault (me_io me) (SysMkdirAll localDir) of
        Some e \<Rightarrow> (Inl (Errorf ''creating local dir'' e), d)
      | None \<Rightarrow>
     (case me_store me (path_Join cacheDir ''slimnode.db'') of
        Inl e \<Rightarrow> (Inl (Errorf ''opening store'' e), d)
      | Inr st \<Rightarrow>
     (case New_cache (me_io me) cacheDir (maxBytes cfg) (nat (cc_MinKeepRecent (Cache cfg))) of
        Inl e \<Rightarrow> (Inl (Errorf ''creating cache'' e), d)
      | Inr ca \<Rightarrow>
     (case loadInitialManifest (me_io me) (me_decode me None) (me_encode me)
             (HTTPClient_FetchManifest (me_http me) (me_decode me)
                (New_client (sc_URL (Server cfg)) (sc_RetryCount (Server cfg)))) cacheDir d of
        (Inl e, d1) \<Rightarrow> (Inl (Errorf ''loading manifest'' e), d1)
      | (Inr mf, d1) \<Rightarrow>
     (case ScanLocalFiles (me_io me) (me_modtime me) (me_now me) localDir d1 of
        (Inl e, d2) \<Rightarrow> (Inl (Errorf ''scanning local files'' e), d2)
      | (Inr localFiles, d2) \<Rightarrow>
          let st' = reconcile (me_io me) (me_db me) localDir (me_now me) d2 localFiles mf st;
              indexDir = path_Join localDir ''index''
          in case fault (me_io me) (SysMkdirAll indexDir) of
               Some e \<Rightarrow> (Inl (Errorf ''creating index dir'' e), d2)
             | None \<Rightarrow>
                 let compactMgr = \<lparr>co_localDir = localDir, co_stateFile = path_Join cacheDir ''compaction-state''\<rparr>;
                     d3 = snd (RecoverFromCrash (me_io me) compactMgr d2)
                 in (Inr \<lparr>nd_fs = New_fs d3 localDir indexDir st' ca (Some mf) None Map.empty
                            (Some (NewFetchPolicy (policy_config cfg))),
                          nd_client = fileClient cfg mf,
                          nd_poller = \<lparr>current = Some mf, etag = []\<rparr>,
                          nd_cacheMgr = \<lparr>cm_ca = ca, cm_maxBytes = maxBytes cfg\<rparr>,
                          nd_compactMgr = compactMgr\<rparr>, d3)))))))"

section \<open>The table as a map\<close>

lemma existing_entry_ok [simp]: "db_fault denv ''GetFile'' = None \<Longrightarrow> existing_entry denv db f = lookup db f"
  by (auto simp: existing_entry_def GetFile_lookup split: option.splits)

lemma reconcile_steps_inv:
  assumes "db_inv db"
  shows "db_inv (snd (UpsertFile denv e db))" "db_inv (snd (DeleteFile denv f db))"
  using store_ops_inv(1,4) [OF assms] by (metis prod.collapse)+

lemma foldl_inv: "I s \<Longrightarrow> (\<And>s x. I s \<Longrightarrow> I (f s x)) \<Longrightarrow> I (foldl f s xs)"
  by (induction xs arbitrary: s) auto

text \<open>Whatever fails, the table keeps its constraints.\<close>

lemma reconcile_inv:
  assumes "db_inv db"
  shows "db_inv (reconcile env denv localDir now d localFiles mf db)"
proof -
  have r: "db_inv (register_file denv now f db)" if "db_inv db" for f db
    using that reconcile_steps_inv by (auto simp: register_file_def split: option.splits)
  have "db_inv (merge_locals denv localFiles db)"
    unfolding merge_locals_def by (rule foldl_inv [where I = db_inv, OF assms]) (rule reconcile_steps_inv)
  then have "db_inv (drop_orphans env denv localDir d (merge_locals denv localFiles db))"
    unfolding drop_orphans_def
    by (auto intro!: foldl_inv [where I = db_inv] reconcile_steps_inv split: sum.splits)
  then show ?thesis unfolding reconcile_def by (rule foldl_inv [where I = db_inv]) (rule r)
qed

definition find_entry :: "FileEntry list \<Rightarrow> string \<Rightarrow> FileEntry option" where
  "find_entry es f = find (\<lambda>e. fe_Filename e = f) es"

lemma find_entry_simps [simp]:
  "find_entry [] f = None" "find_entry (e # es) f = (if fe_Filename e = f then Some e else find_entry es f)"
  by (simp_all add: find_entry_def)

lemma find_entry_None: "find_entry es f = None \<longleftrightarrow> f \<notin> fe_Filename ` set es"
  by (induction es) auto

lemma merge_name [simp]: "lookup db f = existing \<Longrightarrow> fe_Filename e = f \<Longrightarrow> fe_Filename (mergeLocalScanEntry existing e) = f"
  by (auto simp: mergeLocalScanEntry_def Let_def lookup_Filename split: option.splits)

lemma merge_state [simp]: "fe_State (mergeLocalScanEntry x e) = fe_State e" "fe_Source (mergeLocalScanEntry x e) = fe_Source e"
  "fe_Size (mergeLocalScanEntry x e) = fe_Size e"
  by (auto simp: mergeLocalScanEntry_def Let_def split: option.splits)

lemma merge_locals_lookup:
  assumes "db_inv db" "distinct (map fe_Filename es)" "\<forall>e \<in> set es. state_check (fe_State e) \<and> source_check (fe_Source e)"
  shows "db_inv (merge_locals db_ok es db) \<and> lookup (merge_locals db_ok es db) =
    (\<lambda>f. case find_entry es f of None \<Rightarrow> lookup db f | Some e \<Rightarrow> Some (stored (mergeLocalScanEntry (lookup db f) e)))"
  using assms
proof (induction es arbitrary: db)
  case (Cons e es)
  let ?m = "mergeLocalScanEntry (lookup db (fe_Filename e)) e"
  have u: "UpsertFile db_ok ?m db = (None, upsert_rows (row_of ?m) db)"
    using UpsertFile_ok [OF Cons.prems(1), of ?m] Cons.prems(3) by simp
  have "find_entry es (fe_Filename e) = None" using Cons.prems(2) by (simp add: find_entry_None)
  then show ?case
    using Cons.IH [OF store_ops_inv(1) [OF Cons.prems(1) u]] Cons.prems(2,3) u
    by (auto simp: merge_locals_def lookup_upsert_rows db_ok_def fun_eq_iff split: option.splits)
qed (simp add: merge_locals_def)

definition orphan :: "string \<Rightarrow> disk \<Rightarrow> FileEntry \<Rightarrow> bool" where
  "orphan localDir d e \<longleftrightarrow> fe_State e = FileStateActive \<and> fe_Filename e \<noteq> ''.lock''
     \<and> d (path_Join localDir (fe_Filename e)) = None"

lemma drop_orphans_lookup:
  assumes "db_inv db" "\<forall>c. fault env c = None"
  shows "db_inv (drop_orphans env db_ok localDir d db) \<and> lookup (drop_orphans env db_ok localDir d db) =
    (\<lambda>f. case lookup db f of None \<Rightarrow> None | Some e \<Rightarrow> if orphan localDir d e then None else Some e)"
proof -
  define gone where "gone f \<longleftrightarrow> f \<noteq> ''.lock'' \<and> d (path_Join localDir f) = None" for f
  have st: "os_Stat env d (path_Join localDir f) = Inl ErrNotExist \<longleftrightarrow> d (path_Join localDir f) = None" for f
    using assms(2) by (auto simp: os_Stat_def split: option.splits)
  let ?step = "\<lambda>db e. if fe_Filename e = ''.lock'' then db
    else if os_Stat env d (path_Join localDir (fe_Filename e)) = Inl ErrNotExist
    then snd (DeleteFile db_ok (fe_Filename e) db) else db"
  have loop: "db_inv (foldl ?step db es) \<and> lookup (foldl ?step db es) =
      (\<lambda>f. if f \<in> fe_Filename ` set es \<and> gone f then None else lookup db f)" if "db_inv db" for es and db :: "Row list"
    using that
  proof (induction es arbitrary: db)
    case (Cons e es)
    have s: "?step db e = (if gone (fe_Filename e) then filter (\<lambda>r. c_filename r \<noteq> fe_Filename e) db else db)"
      using DeleteFile_ok [OF Cons.prems] by (simp add: st gone_def)
    have "db_inv (?step db e)" using Cons.prems reconcile_steps_inv(2) [OF Cons.prems] by simp
    from Cons.IH [OF this] show ?case
      unfolding foldl_Cons s by (auto simp: lookup_filter fun_eq_iff)
  qed simp
  obtain es where es: "ListByState db_ok db FileStateActive = Inr es" by (simp add: ListByState_def db_ok_def)
  have eng: "engine_ok db_ok" by (simp add: engine_ok_def db_ok_def)
  have "f \<in> fe_Filename ` set es \<longleftrightarrow> (\<exists>e. lookup db f = Some e \<and> fe_State e = FileStateActive)" for f
    using ListByState_iff [OF eng assms(1) es] lookup_Filename by (auto simp: image_iff) (metis lookup_Filename)
  then show ?thesis
    using loop [OF assms(1), of es] lookup_Filename
    by (auto simp: drop_orphans_def es orphan_def gone_def fun_eq_iff split: option.splits)
qed

text \<open>What the loop over the manifest makes of an entry.\<close>

definition registered :: "time \<Rightarrow> ManifestFile \<Rightarrow> FileEntry option \<Rightarrow> FileEntry" where
  "registered now f existing =
     (case existing of
        None \<Rightarrow> stored (remote_entry now f)
      | Some e \<Rightarrow>
          if fe_State e \<in> {FileStateRemote, FileStateCached}
             \<and> (fe_Size e \<noteq> mf_Size f \<or> (mf_SHA256 f \<noteq> [] \<and> fe_SHA256 e \<noteq> mf_SHA256 f))
          then stored (e\<lparr>fe_Size := mf_Size f, fe_SHA256 := (if mf_SHA256 f \<noteq> [] then mf_SHA256 f else fe_SHA256 e),
                         fe_LastAccess := now\<rparr>)
          else e)"

lemma register_file_lookup:
  assumes "db_inv db"
  shows "lookup (register_file db_ok now f db) = (lookup db)(mf_Name f \<mapsto> registered now f (lookup db (mf_Name f)))"
proof (cases "lookup db (mf_Name f)")
  case None
  then show ?thesis
    using UpsertFile_ok [OF assms, of "remote_entry now f"]
    by (simp add: register_file_def registered_def db_ok_def lookup_upsert_rows remote_entry_def)
next
  case (Some e)
  let ?e = "e\<lparr>fe_Size := mf_Size f, fe_SHA256 := (if mf_SHA256 f \<noteq> [] then mf_SHA256 f else fe_SHA256 e), fe_LastAccess := now\<rparr>"
  obtain r where r: "r \<in> set db" "e = scanEntry r"
    using Some assms lookup_Some_iff [of db "mf_Name f" e] by (auto simp: db_inv_def)
  then have "state_check (fe_State ?e)" "source_check (fe_Source ?e)"
    using assms by (auto simp: db_inv_def list_all_iff row_check_def scanEntry_def)
  then show ?thesis
    using UpsertFile_ok [OF assms, of ?e] Some lookup_Filename [OF Some]
    by (auto simp: register_file_def registered_def db_ok_def lookup_upsert_rows fun_upd_idem)
qed

lemma file_map_Cons:
  assumes "distinct (map mf_Name (f # fs))"
  shows "file_map (f # fs) g = (if g = mf_Name f then Some f else file_map fs g)"
proof (cases "file_map fs g")
  case None
  then show ?thesis
    using file_map_distinct [OF assms, of f] file_map_None [of "f # fs" g] file_map_None [of fs g] by auto
next
  case (Some x)
  then have "x \<in> set fs" "mf_Name x = g" using file_map_Some by blast+
  moreover have "x \<noteq> f" using \<open>x \<in> set fs\<close> assms by auto
  ultimately show ?thesis
    using file_map_distinct [OF assms, of x] file_map_distinct [OF assms, of f] Some assms by auto
qed

lemma register_loop_lookup:
  assumes "db_inv db" "distinct (map mf_Name fs)"
  shows "lookup (foldl (\<lambda>db f. register_file db_ok now f db) db fs) =
    (\<lambda>g. case file_map fs g of None \<Rightarrow> lookup db g | Some f \<Rightarrow> Some (registered now f (lookup db g)))"
  using assms
proof (induction fs arbitrary: db)
  case (Cons f fs)
  have "db_inv (register_file db_ok now f db)"
    using Cons.prems(1) reconcile_steps_inv by (auto simp: register_file_def split: option.splits)
  note IH = Cons.IH [OF this]
  have "file_map (f # fs) g = (if g = mf_Name f then Some f else file_map fs g)" for g
    by (rule file_map_Cons [OF Cons.prems(2)])
  then show ?case
    using IH Cons.prems(2) file_map_None [of fs "mf_Name f"]
    by (auto simp: register_file_lookup [OF Cons.prems(1)] fun_eq_iff split: option.splits)
qed (simp add: file_map_def)

text \<open>The reconciled table, name by name.\<close>

definition after_scan :: "FileEntry list \<Rightarrow> (string \<rightharpoonup> FileEntry) \<Rightarrow> string \<rightharpoonup> FileEntry" where
  "after_scan es db f =
     (case find_entry es f of None \<Rightarrow> db f | Some e \<Rightarrow> Some (stored (mergeLocalScanEntry (db f) e)))"

definition without_orphans :: "string \<Rightarrow> disk \<Rightarrow> (string \<rightharpoonup> FileEntry) \<Rightarrow> string \<rightharpoonup> FileEntry" where
  "without_orphans localDir d db f =
     (case db f of None \<Rightarrow> None | Some e \<Rightarrow> if orphan localDir d e then None else Some e)"

definition with_manifest :: "time \<Rightarrow> ManifestFile list \<Rightarrow> (string \<rightharpoonup> FileEntry) \<Rightarrow> string \<rightharpoonup> FileEntry" where
  "with_manifest now fs db f =
     (case file_map fs f of None \<Rightarrow> db f | Some m \<Rightarrow> Some (registered now m (db f)))"

lemma reconcile_lookup:
  assumes "db_inv db" "\<forall>c. fault env c = None" "distinct (map fe_Filename es)"
    and "\<forall>e \<in> set es. state_check (fe_State e) \<and> source_check (fe_Source e)" "distinct (map mf_Name (mn_Files mf))"
  shows "lookup (reconcile env db_ok localDir now d es mf db)
    = with_manifest now (mn_Files mf) (without_orphans localDir d (after_scan es (lookup db)))"
proof -
  note 1 = merge_locals_lookup [OF assms(1,3,4)]
  note 2 = drop_orphans_lookup [OF conjunct1 [OF 1] assms(2), of localDir d]
  have e: "lookup (drop_orphans env db_ok localDir d (merge_locals db_ok es db))
      = without_orphans localDir d (after_scan es (lookup db))"
    unfolding conjunct2 [OF 2] conjunct2 [OF 1] by (simp add: without_orphans_def after_scan_def fun_eq_iff)
  show ?thesis
    unfolding reconcile_def register_loop_lookup [OF conjunct1 [OF 2] assms(5)] e by (simp add: with_manifest_def [abs_def])
qed

section \<open>The disk at start-up\<close>

definition manifest_tmp :: "io_env \<Rightarrow> string \<Rightarrow> string" where
  "manifest_tmp env dir = path_Join dir (''.manifest-'' @ tmp_suffix env @ ''.tmp'')"

lemma loadInitialManifest_other:
  assumes "loadInitialManifest env dec enc fetch cacheDir d = (r, d1)"
    "q \<noteq> path_Join cacheDir ''manifest.json''" "q \<noteq> manifest_tmp env cacheDir"
  shows "d1 q = d q"
proof -
  have "d' q = d q" if "WriteFile_manifest enc env cacheDir ''manifest.json'' mf d = (err, d')" for mf err d'
    using write_atomic_other [OF that [unfolded WriteFile_manifest_def]] assms(2,3) by (simp add: manifest_tmp_def)
  then have "snd (WriteFile_manifest enc env cacheDir ''manifest.json'' mf d) q = d q" for mf by (metis prod.collapse)
  then show ?thesis using assms(1) by (auto simp: loadInitialManifest_def split: sum.splits prod.splits option.splits)
qed

lemma RecoverFromCrash_other: "q \<noteq> co_stateFile m \<Longrightarrow> snd (RecoverFromCrash env m d) q = d q"
  by (auto simp: RecoverFromCrash_def Let_def os_Remove_other split: sum.splits)

text \<open>A mount that succeeds, taken apart.\<close>

lemma MountCmd_parts:
  assumes "MountCmd_Execute me cfg d = (Inr nd, d')"
  defines "cacheDir \<equiv> g_CacheDir (General cfg)" and "localDir \<equiv> g_LocalDir (General cfg)"
  obtains st mf d1 d2 es where
    "me_store me (path_Join cacheDir ''slimnode.db'') = Inr st"
    "loadInitialManifest (me_io me) (me_decode me None) (me_encode me)
       (HTTPClient_FetchManifest (me_http me) (me_decode me)
          (New_client (sc_URL (Server cfg)) (sc_RetryCount (Server cfg)))) cacheDir d = (Inr mf, d1)"
    "ScanLocalFiles (me_io me) (me_modtime me) (me_now me) localDir d1 = (Inr es, d2)"
    "d' = snd (RecoverFromCrash (me_io me) \<lparr>co_localDir = localDir, co_stateFile = path_Join cacheDir ''compaction-state''\<rparr> d2)"
    "nd_fs nd = New_fs d' localDir (path_Join localDir ''index'')
       (reconcile (me_io me) (me_db me) localDir (me_now me) d2 es mf st)
       \<lparr>dc_dir = cacheDir, dc_maxBytes = maxBytes cfg, dc_minKeep = nat (cc_MinKeepRecent (Cache cfg))\<rparr>
       (Some mf) None Map.empty (Some (NewFetchPolicy (policy_config cfg)))"
  using assms(1) unfolding MountCmd_Execute_def Let_def cacheDir_def localDir_def
  by (auto simp: New_cache_def split: option.splits sum.splits prod.splits)

lemma path_Join_plain: "plain f \<Longrightarrow> plain g \<Longrightarrow> path_Join a f = path_Join b g \<Longrightarrow> a = b \<and> f = g"
  using path_Join_split unfolding plain_def by metis

text \<open>
  The disk after a mount: a local file that is a block file, and a file of the cache that is,
  is as it was before; no local file appears.
\<close>

lemma manifest_tmp_plain: "plain (''.manifest-'' @ tmp_suffix env @ ''.tmp'')"
  using Itoa_no_slash [of "int (tmp_rnd env)"] by (simp add: plain_def tmp_suffix_def Itoa_def)

lemma is_block_name_special:
  "is_block_name f \<Longrightarrow> f \<noteq> ''manifest.json'' \<and> f \<noteq> ''compaction-state'' \<and> f \<noteq> ''.lock'' \<and> f \<noteq> ''.manifest-'' @ x"
  by (auto simp: is_block_name_def parseBlockFileNumber_def HasPrefix_def split: if_splits)

lemma scan_local_loop_entry:
  "scan_local_loop env modtime now dir ns d = (es, d') \<Longrightarrow> e \<in> set es \<Longrightarrow> fe_Source e = FileSourceLocal \<and> fe_SHA256 e = []"
proof (induction ns arbitrary: d es)
  case (Cons n ns)
  have "fe_Source x = FileSourceLocal \<and> fe_SHA256 x = []"
    if "scan_local_entry env modtime now dir n d = (es1, d1)" "x \<in> set es1" for x es1 d1
    using that by (auto simp: scan_local_entry_def Let_def split: if_splits)
  with Cons show ?case by (fastforce split: prod.splits)
qed simp

lemma start_scan:
  assumes load: "loadInitialManifest env dec enc fetch cacheDir d = (Inr mf, d1)"
    and scan: "ScanLocalFiles env modtime now localDir d1 = (Inr es, d2)"
    and env: "\<forall>c. fault env c = None" and apart: "cacheDir \<noteq> localDir" and fin: "finite (dom d)"
  shows "fe_Filename ` set es = {n \<in> dir_names d localDir. is_block_name n}" "distinct (map fe_Filename es)"
    "\<forall>e \<in> set es. fe_State e = FileStateActive \<and> fe_Source e = FileSourceLocal \<and> fe_SHA256 e = []
       \<and> fe_Size e = file_size d (path_Join localDir (fe_Filename e))"
    "\<And>f. plain f \<Longrightarrow> is_block_name f \<Longrightarrow> d2 (path_Join localDir f) = d (path_Join localDir f)"
    "\<And>f. plain f \<Longrightarrow> is_block_name f \<Longrightarrow> d2 (path_Join cacheDir f) = d (path_Join cacheDir f)"
    "\<And>f. plain f \<Longrightarrow> d (path_Join localDir f) = None \<Longrightarrow> d2 (path_Join localDir f) = None"
proof -
  have tmp: "manifest_tmp env cacheDir = path_Join cacheDir (''.manifest-'' @ tmp_suffix env @ ''.tmp'')"
    by (simp add: manifest_tmp_def)
  have mj: "plain ''manifest.json''" by (simp add: plain_def)
  have loc: "d1 (path_Join localDir f) = d (path_Join localDir f)" if "plain f" for f
    using loadInitialManifest_other [OF load, of "path_Join localDir f"] apart
      path_Join_plain [OF that mj] path_Join_plain [OF that manifest_tmp_plain] unfolding tmp by metis
  have cac: "d1 (path_Join cacheDir f) = d (path_Join cacheDir f)" if "is_block_name f" for f
    using loadInitialManifest_other [OF load, of "path_Join cacheDir f"] is_block_name_special [OF that] unfolding tmp by simp
  have names: "dir_names d1 localDir = dir_names d localDir"
    using loc by (auto simp: dir_names_def plain_def)
  have "dom d1 \<subseteq> insert (path_Join cacheDir ''manifest.json'') (insert (manifest_tmp env cacheDir) (dom d))"
    using loadInitialManifest_other [OF load] by (auto simp: dom_def)
  then have fin1: "finite (dom d1)" using fin by (meson finite.insertI finite_subset)
  let ?ns = "sorted_list_of_set (dir_names d1 localDir)"
  have lp: "scan_local_loop env modtime now localDir ?ns d1 = (es, d2)"
    using scan env by (auto simp: ScanLocalFiles_def os_ReadDir_def split: prod.splits)
  have sp: "map fe_Filename es = filter is_block_name ?ns"
    "\<forall>e \<in> set es. fe_State e = FileStateActive \<and> fe_Size e = file_size d1 (path_Join localDir (fe_Filename e))"
    "\<forall>p. d2 p \<noteq> d1 p \<longrightarrow> (\<exists>n \<in> set ?ns. p = path_Join localDir n \<and> \<not> is_block_name n \<and> file_size d1 p = 0)"
    using scan_local_loop_spec [OF lp] env by auto
  have ns: "set ?ns = dir_names d localDir" using finite_dir_names [OF fin1, of localDir] by (simp add: names)
  show nm: "fe_Filename ` set es = {n \<in> dir_names d localDir. is_block_name n}"
    using arg_cong [OF sp(1), of set] ns by auto
  show "distinct (map fe_Filename es)" unfolding sp(1) by simp
  show "\<forall>e \<in> set es. fe_State e = FileStateActive \<and> fe_Source e = FileSourceLocal \<and> fe_SHA256 e = []
      \<and> fe_Size e = file_size d (path_Join localDir (fe_Filename e))"
  proof
    fix e assume e: "e \<in> set es"
    then have "plain (fe_Filename e)" using nm by (auto simp: dir_names_def plain_def)
    then have "file_size d1 (path_Join localDir (fe_Filename e)) = file_size d (path_Join localDir (fe_Filename e))"
      using loc by (simp add: file_size_def)
    then show "fe_State e = FileStateActive \<and> fe_Source e = FileSourceLocal \<and> fe_SHA256 e = []
        \<and> fe_Size e = file_size d (path_Join localDir (fe_Filename e))"
      using sp(2) e scan_local_loop_entry [OF lp e] by simp
  qed
  show "d2 (path_Join localDir f) = d (path_Join localDir f)" if "plain f" "is_block_name f" for f
    using sp(3) that loc [OF that(1)] by (metis path_Join_inj)
  have pn: "plain n" if "n \<in> set ?ns" for n using that ns by (auto simp: dir_names_def plain_def)
  show "d2 (path_Join cacheDir f) = d (path_Join cacheDir f)" if "plain f" "is_block_name f" for f
    using sp(3) cac [OF that(2)] path_Join_plain [OF that(1) pn] apart by metis
  show "d2 (path_Join localDir f) = None" if "plain f" "d (path_Join localDir f) = None" for f
  proof -
    have "f \<notin> set ?ns" using that ns by (simp add: dir_names_def)
    then show ?thesis using sp(3) loc [OF that(1)] that(2) by (metis path_Join_inj)
  qed
qed

section \<open>A mounted node\<close>

text \<open>A mount in which no system call and no database call fails, with two directories that differ.\<close>

definition clean_mount :: "mount_env \<Rightarrow> Config \<Rightarrow> disk \<Rightarrow> mounted_node \<Rightarrow> disk \<Rightarrow> Row list \<Rightarrow> Manifest \<Rightarrow> bool" where
  "clean_mount me cfg d nd d' st mf \<longleftrightarrow>
     MountCmd_Execute me cfg d = (Inr nd, d') \<and> (\<forall>c. fault (me_io me) c = None) \<and> me_db me = db_ok
     \<and> me_store me (path_Join (g_CacheDir (General cfg)) ''slimnode.db'') = Inr st \<and> db_inv st \<and> finite (dom d)
     \<and> g_CacheDir (General cfg) \<noteq> g_LocalDir (General cfg)
     \<and> fs_manifest (nd_fs nd) = Some mf \<and> distinct (map mf_Name (mn_Files mf))"

definition table_facts :: "mount_env \<Rightarrow> string \<Rightarrow> string \<Rightarrow> disk \<Rightarrow> FS \<Rightarrow> Row list \<Rightarrow> Manifest \<Rightarrow> FileEntry list \<Rightarrow> disk \<Rightarrow> bool" where
  "table_facts me cacheDir localDir d fs st mf es d2 \<longleftrightarrow>
     lookup (fs_st fs) = with_manifest (me_now me) (mn_Files mf) (without_orphans localDir d2 (after_scan es (lookup st)))
     \<and> db_inv (fs_st fs) \<and> fs_localDir fs = localDir \<and> dc_dir (fs_ca fs) = cacheDir \<and> fs_bc fs = None
     \<and> fs_writeHandles fs = Map.empty \<and> fe_Filename ` set es = {n \<in> dir_names d localDir. is_block_name n}
     \<and> (\<forall>e \<in> set es. fe_State e = FileStateActive \<and> fe_Source e = FileSourceLocal \<and> fe_SHA256 e = []
          \<and> fe_Size e = file_size d (path_Join localDir (fe_Filename e)))
     \<and> (\<forall>f. plain f \<longrightarrow> is_block_name f \<longrightarrow> d2 (path_Join localDir f) = d (path_Join localDir f))
     \<and> (\<forall>f. plain f \<longrightarrow> is_block_name f \<longrightarrow> fs_disk fs (path_Join cacheDir f) = d (path_Join cacheDir f))
     \<and> (\<forall>f. plain f \<longrightarrow> d (path_Join localDir f) = None \<longrightarrow> d2 (path_Join localDir f) = None)
     \<and> (\<forall>f. plain f \<longrightarrow> fs_disk fs (path_Join localDir f) = d2 (path_Join localDir f))"

lemma clean_mount_table:
  assumes "clean_mount me cfg d nd d' st mf"
  defines "cacheDir \<equiv> g_CacheDir (General cfg)" and "localDir \<equiv> g_LocalDir (General cfg)"
  shows "\<exists>es d2. table_facts me cacheDir localDir d (nd_fs nd) st mf es d2"
proof -
  note cm = assms(1) [unfolded clean_mount_def, folded cacheDir_def localDir_def]
  obtain st' mf' d1 d2 es where st: "me_store me (path_Join cacheDir ''slimnode.db'') = Inr st'"
    and load: "loadInitialManifest (me_io me) (me_decode me None) (me_encode me)
       (HTTPClient_FetchManifest (me_http me) (me_decode me)
          (New_client (sc_URL (Server cfg)) (sc_RetryCount (Server cfg)))) cacheDir d = (Inr mf', d1)"
    and scan: "ScanLocalFiles (me_io me) (me_modtime me) (me_now me) localDir d1 = (Inr es, d2)"
    and d': "d' = snd (RecoverFromCrash (me_io me) \<lparr>co_localDir = localDir, co_stateFile = path_Join cacheDir ''compaction-state''\<rparr> d2)"
    and fs: "nd_fs nd = New_fs d' localDir (path_Join localDir ''index'')
       (reconcile (me_io me) (me_db me) localDir (me_now me) d2 es mf' st')
       \<lparr>dc_dir = cacheDir, dc_maxBytes = maxBytes cfg, dc_minKeep = nat (cc_MinKeepRecent (Cache cfg))\<rparr>
       (Some mf') None Map.empty (Some (NewFetchPolicy (policy_config cfg)))"
    using MountCmd_parts [of me cfg d nd d', folded cacheDir_def localDir_def] cm by metis
  have eq: "st' = st" "mf' = mf" using st cm fs by (simp_all add: New_fs_def)
  have env: "\<forall>c. fault (me_io me) c = None" and ap: "cacheDir \<noteq> localDir" and fin: "finite (dom d)" using cm by auto
  note sc = start_scan [OF load scan env ap fin]
  have chk: "\<forall>e \<in> set es. state_check (fe_State e) \<and> source_check (fe_Source e)" using sc(3) by auto
  have cs: "plain ''compaction-state''" by (simp add: plain_def)
  have other: "d' q = d2 q" if "q \<noteq> path_Join cacheDir ''compaction-state''" for q
    unfolding d' using RecoverFromCrash_other that by simp
  have "lookup (fs_st (nd_fs nd)) =
      with_manifest (me_now me) (mn_Files mf) (without_orphans localDir d2 (after_scan es (lookup st)))"
    using reconcile_lookup [OF _ env sc(2) chk] cm by (simp add: fs New_fs_def eq)
  moreover have "db_inv (fs_st (nd_fs nd))" using cm reconcile_inv by (simp add: fs New_fs_def eq)
  moreover have "d' (path_Join cacheDir f) = d (path_Join cacheDir f)" if "plain f" "is_block_name f" for f
    using other [of "path_Join cacheDir f"] sc(5) [OF that] is_block_name_special [OF that(2)] by simp
  moreover have "d' (path_Join localDir f) = d2 (path_Join localDir f)" if "plain f" for f
    using other path_Join_plain [OF that cs] ap by metis
  ultimately have "table_facts me cacheDir localDir d (nd_fs nd) st mf es d2"
    unfolding table_facts_def using sc(1,3,4,6) by (simp add: fs New_fs_def)
  then show ?thesis by blast
qed

text \<open>What the table says of a file that is on local disk, and of one that is not.\<close>

lemma mounted_local:
  assumes "clean_mount me cfg d nd d' st mf" "plain f" "is_block_name f"
    and "d (path_Join (g_LocalDir (General cfg)) f) = Some c"
  shows "\<exists>e. lookup (fs_st (nd_fs nd)) f = Some e \<and> fe_State e = FileStateActive \<and> fe_Source e = FileSourceLocal
    \<and> fe_Size e = int (length c) \<and> fe_SHA256 e = []"
proof -
  obtain es d2 where m: "table_facts me (g_CacheDir (General cfg)) (g_LocalDir (General cfg)) d (nd_fs nd) st mf es d2"
    using clean_mount_table [OF assms(1)] by blast
  note t = m [unfolded table_facts_def, THEN conjunct1]
  have nm: "fe_Filename ` set es = {n \<in> dir_names d (g_LocalDir (General cfg)). is_block_name n}"
    and en: "\<forall>e \<in> set es. fe_State e = FileStateActive \<and> fe_Source e = FileSourceLocal \<and> fe_SHA256 e = []
       \<and> fe_Size e = file_size d (path_Join (g_LocalDir (General cfg)) (fe_Filename e))"
    and d2: "d2 (path_Join (g_LocalDir (General cfg)) f) = d (path_Join (g_LocalDir (General cfg)) f)"
    using m assms(2,3) by (simp_all add: table_facts_def)
  have "f \<in> fe_Filename ` set es" unfolding nm using assms(2-4) by (simp add: dir_names_def plain_def)
  then obtain e where e: "find_entry es f = Some e" using find_entry_None by (metis not_None_eq)
  then have in_es: "e \<in> set es" "fe_Filename e = f" unfolding find_entry_def by (auto simp: find_Some_iff)
  let ?m = "stored (mergeLocalScanEntry (lookup st f) e)"
  have st: "fe_State ?m = FileStateActive" "fe_Source ?m = FileSourceLocal" "fe_Size ?m = int (length c)"
    using en in_es assms(4) by (auto simp: file_size_def)
  have sha: "fe_SHA256 ?m = []"
    using en in_es by (auto simp: mergeLocalScanEntry_def Let_def split: option.splits)
  have "lookup (fs_st (nd_fs nd)) f = Some ?m"
    using st d2 assms(4) in_es merge_name [OF refl in_es(2), of st]
    by (simp add: t with_manifest_def without_orphans_def after_scan_def e orphan_def registered_def split: option.split)
  then show ?thesis using st sha by blast
qed

lemma mounted_remote:
  assumes "clean_mount me cfg d nd d' st mf" "plain f" "f \<noteq> ''.lock''"
    and "d (path_Join (g_LocalDir (General cfg)) f) = None"
  shows "lookup (fs_st (nd_fs nd)) f = with_manifest (me_now me) (mn_Files mf)
      (\<lambda>f. case lookup st f of None \<Rightarrow> None | Some e \<Rightarrow> if fe_State e = FileStateActive then None else Some e) f
    \<and> fs_disk (nd_fs nd) (path_Join (g_LocalDir (General cfg)) f) = None"
proof -
  obtain es d2 where m: "table_facts me (g_CacheDir (General cfg)) (g_LocalDir (General cfg)) d (nd_fs nd) st mf es d2"
    using clean_mount_table [OF assms(1)] by blast
  note t = m [unfolded table_facts_def, THEN conjunct1]
  have nm: "fe_Filename ` set es = {n \<in> dir_names d (g_LocalDir (General cfg)). is_block_name n}"
    and d2: "d2 (path_Join (g_LocalDir (General cfg)) f) = None"
      "fs_disk (nd_fs nd) (path_Join (g_LocalDir (General cfg)) f) = None"
    using m assms(2,4) by (simp_all add: table_facts_def)
  have "find_entry es f = None" unfolding find_entry_None nm using assms(4) by (simp add: dir_names_def)
  then show ?thesis
    using d2 assms(3) lookup_Filename [of st f]
    by (auto simp: t with_manifest_def without_orphans_def after_scan_def orphan_def split: option.splits)
qed

section \<open>Properties\<close>

text \<open>
  C13. The table after a mount. A block file on local disk is ACTIVE, with its size on disk and no
  hash. A file that is not there and is in the manifest has an entry that is not ACTIVE; unless
  it is LOCAL_FINALIZED, the entry has the manifest's size, and its hash if the manifest has one,
  and it is REMOTE if the table had no entry or an ACTIVE one. Of all other files the table keeps what it had,
  but for entries that were ACTIVE.
\<close>

theorem mount_reconciles:
  assumes "clean_mount me cfg d nd d' st mf" "plain f" "is_block_name f"
  shows "case d (path_Join (g_LocalDir (General cfg)) f) of
      Some c \<Rightarrow> \<exists>e. lookup (fs_st (nd_fs nd)) f = Some e \<and> fe_State e = FileStateActive
        \<and> fe_Source e = FileSourceLocal \<and> fe_Size e = int (length c) \<and> fe_SHA256 e = []
    | None \<Rightarrow>
        (case file_map (mn_Files mf) f of
           None \<Rightarrow> lookup (fs_st (nd_fs nd)) f =
             (case lookup st f of None \<Rightarrow> None | Some e \<Rightarrow> if fe_State e = FileStateActive then None else Some e)
         | Some m \<Rightarrow> \<exists>e. lookup (fs_st (nd_fs nd)) f = Some e \<and> fe_State e \<noteq> FileStateActive
             \<and> (fe_State e \<in> {FileStateRemote, FileStateCached} \<longrightarrow>
                  fe_Size e = mf_Size m \<and> (mf_SHA256 m \<noteq> [] \<longrightarrow> fe_SHA256 e = mf_SHA256 m))
             \<and> (\<forall>e'. lookup st f = Some e' \<longrightarrow> fe_State e' \<noteq> FileStateActive \<longrightarrow> fe_State e = fe_State e')
             \<and> (lookup st f = None \<or> map_option fe_State (lookup st f) = Some FileStateActive \<longrightarrow> fe_State e = FileStateRemote))"
proof (cases "d (path_Join (g_LocalDir (General cfg)) f)")
  case (Some c)
  then show ?thesis using mounted_local [OF assms Some] by simp
next
  case None
  note r = mounted_remote [OF assms(1,2) _ None, THEN conjunct1]
  have lk: "f \<noteq> ''.lock''" using is_block_name_special [OF assms(3)] by blast
  show ?thesis
    using r [OF lk] None
    by (auto simp: with_manifest_def registered_def remote_entry_def split: option.splits if_splits)
qed

definition example_mount_env :: "Row list \<Rightarrow> mount_env" where
  "example_mount_env st =
     \<lparr>me_io = io_ok, me_db = db_ok, me_store = (\<lambda>_. Inr st),
      me_http = (example_net 200 [])\<lparr>transport := (\<lambda>_ _. Inr (example_response 200 []))\<rparr>,
      me_decode = (\<lambda>_ _. Inr (empty_manifest\<lparr>mn_Files := [example_file ''blk00001.dat'' 7]\<rparr>)),
      me_encode = (\<lambda>_. Inr []), me_modtime = (\<lambda>_. 0), me_now = 5\<rparr>"

definition example_config :: Config where
  "example_config = (zero_config [])\<lparr>General := (General (zero_config []))\<lparr>g_CacheDir := ''c'', g_LocalDir := ''l''\<rparr>\<rparr>"

lemma example_clean_mount:
  assumes "db_inv st" "finite (dom d)"
  shows "\<exists>nd d'. clean_mount (example_mount_env st) example_config d nd d' st
    (empty_manifest\<lparr>mn_Files := [example_file ''blk00001.dat'' 7]\<rparr>)"
proof -
  let ?mf = "empty_manifest\<lparr>mn_Files := [example_file ''blk00001.dat'' 7]\<rparr>"
  have fetch: "HTTPClient_FetchManifest (me_http (example_mount_env st)) (\<lambda>_ _. Inr ?mf) c [] = Inr (Some ?mf, [])" for c
    by (simp add: HTTPClient_FetchManifest_def manifest_request_def NewRequest_def example_mount_env_def example_net_def
        manifest_response_def example_response_def Parse_def Header_Get_def)
  obtain r d1 where load: "loadInitialManifest io_ok dec (\<lambda>_. Inr []) (\<lambda>_. Inr (Some ?mf, [])) ''c'' d = (r, d1)" for dec
    by (simp add: loadInitialManifest_def)
  obtain es d2 where scan: "ScanLocalFiles io_ok (\<lambda>_. 0) 5 ''l'' d1 = (Inr es, d2)"
    by (cases "scan_local_loop io_ok (\<lambda>_. 0) 5 ''l'' (sorted_list_of_set (dir_names d1 ''l'')) d1")
      (simp add: ScanLocalFiles_def os_ReadDir_def)
  have "r = Inr ?mf" using load by (simp add: loadInitialManifest_def)
  then obtain nd d' where "MountCmd_Execute (example_mount_env st) example_config d = (Inr nd, d')" "fs_manifest (nd_fs nd) = Some ?mf"
    using load scan fetch
    by (simp add: MountCmd_Execute_def example_mount_env_def example_config_def New_cache_def New_fs_def Let_def loadInitialManifest_def)
  then show ?thesis
    using assms by (auto simp: clean_mount_def example_mount_env_def example_config_def example_file_def zero_config_def)
qed

lemma example_names: "plain ''blk00000.dat''" "plain ''blk00001.dat''" "is_block_name ''blk00000.dat''" "is_block_name ''blk00001.dat''"
  by code_simp+

theorem mount_reconciles_witness:
  "\<exists>nd d' e. MountCmd_Execute (example_mount_env []) example_config [''l/blk00000.dat'' \<mapsto> [1, 2]] = (Inr nd, d')
     \<and> lookup (fs_st (nd_fs nd)) ''blk00000.dat'' = Some e \<and> fe_State e = FileStateActive \<and> fe_Size e = 2"
proof -
  obtain nd d' where m: "clean_mount (example_mount_env []) example_config [''l/blk00000.dat'' \<mapsto> [1, 2]] nd d' []
      (empty_manifest\<lparr>mn_Files := [example_file ''blk00001.dat'' 7]\<rparr>)"
    using example_clean_mount [of "[]" "[''l/blk00000.dat'' \<mapsto> [1, 2]]"] by (auto simp: db_inv_def)
  show ?thesis
    using mount_reconciles [OF m example_names(1,3)] m
    by (auto simp: example_config_def zero_config_def path_Join_def clean_mount_def)
qed



text \<open>
  C40. A flaw: a block file that the node had finalised, with its hash in the table, is ACTIVE again
  after a restart, its hash is gone, and it can be opened for writing. The state LOCAL_FINALIZED
  does not survive a mount, although the life cycle has no way back from it.
\<close>

theorem mount_reopens_finalised:
  assumes "clean_mount me cfg d nd d' st mf" "plain f" "is_block_name f"
    and "lookup st f = Some e" "fe_State e = FileStateLocalFinalized"
    and "d (path_Join (g_LocalDir (General cfg)) f) = Some c"
    and "db_fault (env_db env) ''GetFile'' = None" "\<forall>p. fault (env_io env) (SysOpen p) = None" "wants_write flags"
  shows "state_of (nd_fs nd) f = Some FileStateActive
    \<and> map_option fe_SHA256 (lookup (fs_st (nd_fs nd)) f) = Some []
    \<and> (\<exists>w fl. fst (Open env f False flags (nd_fs nd)) = Inr (HWrite w, fl))"
  using mounted_local [OF assms(1-3,6)] assms(7-9)
  by (auto simp: state_of_def Open_def GetFile_lookup Let_def)

theorem mount_reopens_finalised_witness:
  "\<exists>nd d'. MountCmd_Execute (example_mount_env [row_of (example_entry ''blk00000.dat'' FileStateLocalFinalized)])
       example_config [''l/blk00000.dat'' \<mapsto> [1]] = (Inr nd, d')
     \<and> state_of (nd_fs nd) ''blk00000.dat'' = Some FileStateActive"
proof -
  let ?st = "[row_of (example_entry ''blk00000.dat'' FileStateLocalFinalized)]" and ?d = "[''l/blk00000.dat'' \<mapsto> [1]] :: disk"
  obtain nd d' where m: "clean_mount (example_mount_env ?st) example_config ?d nd d' ?st
      (empty_manifest\<lparr>mn_Files := [example_file ''blk00001.dat'' 7]\<rparr>)"
    using example_clean_mount [of ?st ?d] by (auto simp: db_inv_def row_check_def example_entry_def)
  have w: "wants_write O_RDWR" by code_simp
  have "state_of (nd_fs nd) ''blk00000.dat'' = Some FileStateActive"
    using mount_reopens_finalised [OF m example_names(1,3) _ _ _ _ _ w, of _ "[1]" example_env]
    by (simp add: example_entry_def example_config_def zero_config_def path_Join_def example_env_def db_ok_def)
  then show ?thesis using m by (auto simp: clean_mount_def)
qed

text \<open>
  A flaw: a cached file for which the manifest has a new hash keeps its state and its content
  and gets the new hash, so that the cache's invariant, which held before the mount, does not
  hold after it: what is served from the cache is not what the table says.
\<close>

theorem mount_stale_cache:
  assumes "clean_mount me cfg d nd d' st mf" "plain f" "is_block_name f"
    and "d (path_Join (g_LocalDir (General cfg)) f) = None"
    and "cache_ok (fs_ca (nd_fs nd)) (d, st)" "lookup st f = Some e" "fe_State e = FileStateCached"
    and "m \<in> set (mn_Files mf)" "mf_Name m = f" "mf_SHA256 m \<noteq> []" "mf_SHA256 m \<noteq> fe_SHA256 e"
  shows "(\<exists>e' b. lookup (fs_st (nd_fs nd)) f = Some e' \<and> fe_State e' = FileStateCached \<and> fe_SHA256 e' = mf_SHA256 m
      \<and> fs_disk (nd_fs nd) (Path (fs_ca (nd_fs nd)) f) = Some b \<and> sha_hex b = fe_SHA256 e)
    \<and> \<not> cache_ok (fs_ca (nd_fs nd)) (fs_disk (nd_fs nd), fs_st (nd_fs nd))"
proof -
  obtain es d2 where t: "table_facts me (g_CacheDir (General cfg)) (g_LocalDir (General cfg)) d (nd_fs nd) st mf es d2"
    using clean_mount_table [OF assms(1)] by blast
  obtain b where b: "d (Path (fs_ca (nd_fs nd)) f) = Some b" "sha_hex b = fe_SHA256 e"
    using assms(5-7) unfolding cache_ok_def by blast
  have b': "fs_disk (nd_fs nd) (Path (fs_ca (nd_fs nd)) f) = Some b"
    using t b(1) assms(2,3) by (simp add: table_facts_def Path_def)
  have "distinct (map mf_Name (mn_Files mf))" using assms(1) by (simp add: clean_mount_def)
  then have fm: "file_map (mn_Files mf) f = Some m" using file_map_distinct [OF _ assms(8)] assms(9) by simp
  have lk: "f \<noteq> ''.lock''" using is_block_name_special [OF assms(3)] by blast
  obtain e' where e': "lookup (fs_st (nd_fs nd)) f = Some e'" "fe_State e' = FileStateCached" "fe_SHA256 e' = mf_SHA256 m"
    using mounted_remote [OF assms(1,2) lk assms(4)] assms(6,7,10,11)
    by (auto simp: with_manifest_def registered_def fm)
  then have "\<not> cache_ok (fs_ca (nd_fs nd)) (fs_disk (nd_fs nd), fs_st (nd_fs nd))"
    using b' b(2) assms(11) unfolding cache_ok_def by (auto intro!: exI [of _ f] exI [of _ e'])
  then show ?thesis using e' b' b(2) by blast
qed

theorem mount_stale_cache_witness:
  "\<exists>nd d'. MountCmd_Execute (example_mount_env [row_of (cached_entry ''blk00001.dat'' [1, 2] (sha_hex [1, 2]) 0 0)])
       example_config [''c/blk00001.dat'' \<mapsto> [1, 2]] = (Inr nd, d')
     \<and> \<not> cache_ok (fs_ca (nd_fs nd)) (fs_disk (nd_fs nd), fs_st (nd_fs nd))"
proof -
  let ?e = "cached_entry ''blk00001.dat'' [1, 2] (sha_hex [1, 2]) 0 0"
  let ?st = "[row_of ?e]" and ?d = "[''c/blk00001.dat'' \<mapsto> [1, 2]] :: disk"
  obtain nd d' where m: "clean_mount (example_mount_env ?st) example_config ?d nd d' ?st
      (empty_manifest\<lparr>mn_Files := [example_file ''blk00001.dat'' 7]\<rparr>)"
    using example_clean_mount [of ?st ?d] by (auto simp: db_inv_def row_check_def cached_entry_def)
  have "length (sha_hex [1, 2]) \<noteq> length ''ab''" by (simp add: sha_hex_def)
  then have ne: "''ab'' \<noteq> sha_hex [1, 2]" by metis
  have "dc_dir (fs_ca (nd_fs nd)) = ''c''"
    using clean_mount_table [OF m] by (auto simp: table_facts_def example_config_def zero_config_def)
  then have ok: "cache_ok (fs_ca (nd_fs nd)) (?d, ?st)"
    by (simp add: cache_ok_def Path_def path_Join_def scanEntry_row_of)
  have l: "lookup ?st ''blk00001.dat'' = Some (stored ?e)" by (simp add: scanEntry_row_of)
  have "\<not> cache_ok (fs_ca (nd_fs nd)) (fs_disk (nd_fs nd), fs_st (nd_fs nd))"
    using mount_stale_cache [OF m example_names(2,4) _ ok l, of "example_file ''blk00001.dat'' 7"] ne
    by (simp add: example_config_def zero_config_def path_Join_def example_file_def)
  then show ?thesis using m by (auto simp: clean_mount_def)
qed

end
