(* ===== verification/Server_Cmd.thy ===== *)
theory Server_Cmd
  imports Server_Http Syncer Snapshot
begin

text \<open>
  The commands of \<open>slimnode-server\<close> (\<open>cmd/slimnode-server/main.go\<close>) as compositions of the
  generators, the server and the syncer; parsing the command line, the sockets and the signals
  are not modelled. The output path of the manifest is its directory and its name. Shown: the
  archive that \<open>blockmap-gen\<close>, \<open>manifest-gen\<close> and \<open>serve\<close> set up one after the other is
  consistent, from the block files to the hashes in the manifest and the server's headers.
\<close>

definition chainToNetworkMagic :: "string \<Rightarrow> (32 word) result" where
  "chainToNetworkMagic ch =
     (if ch = ''mainnet'' then Inr 0xD9B4BEF9
      else if ch = ''testnet'' \<or> ch = ''testnet3'' then Inr 0x0709110B
      else if ch = ''signet'' then Inr 0x40CF030A
      else if ch = ''regtest'' then Inr 0xDAB5BFFA
      else if ch = ''testnet4'' then Inr 0x283F161C
      else Inl (ErrNew (''unknown chain: '' @ ch)))"

record ManifestGenCmd =
  mg_BlocksDir :: string
  mg_OutputDir :: string
  mg_OutputName :: string
  mg_Chain :: string
  mg_BlockmapDir :: string
  mg_SnapshotDir :: string

definition ManifestGenCmd_Execute :: "(Manifest \<Rightarrow> bytes result) \<Rightarrow> io_env \<Rightarrow> ManifestGenCmd \<Rightarrow> disk_op" where
  "ManifestGenCmd_Execute json_encode env cmd d =
     (case GenerateManifest env d
             \<lparr>cfg_blockmapDir = mg_BlockmapDir cmd, cfg_snapshotDir = mg_SnapshotDir cmd, cfg_baseURL = [], cfg_prev = None\<rparr>
             (mg_BlocksDir cmd) (mg_Chain cmd) of
        Inl e \<Rightarrow> (Some (Errorf ''generate manifest'' e), d)
      | Inr m \<Rightarrow>
          (case WriteFile_manifest json_encode env (mg_OutputDir cmd) (mg_OutputName cmd) m d of
             (Some e, d') \<Rightarrow> (Some (Errorf ''write manifest'' e), d')
           | (None, d') \<Rightarrow> (None, d')))"

record BlockmapGenCmd =
  bg_BlocksDir :: string
  bg_Output :: string
  bg_Chain :: string

definition BlockmapGenCmd_Execute :: "io_env \<Rightarrow> BlockmapGenCmd \<Rightarrow> disk_op" where
  "BlockmapGenCmd_Execute env cmd d =
     (case chainToNetworkMagic (bg_Chain cmd) of
        Inl e \<Rightarrow> (Some e, d)
      | Inr networkMagic \<Rightarrow>
          (case GenerateBlockmaps env (bg_BlocksDir cmd) (bg_Output cmd) networkMagic d of
             (Inl e, d') \<Rightarrow> (Some (Errorf ''generate blockmaps'' e), d')
           | (Inr hashes, d') \<Rightarrow> (None, d')))"

definition SnapshotCmd_Execute :: "(tar_entry list \<Rightarrow> bytes) \<Rightarrow> io_env \<Rightarrow> string \<Rightarrow> string \<Rightarrow> disk_op" where
  "SnapshotCmd_Execute archive env indexDir output d =
     (case CreateBlocksIndexSnapshot archive env indexDir output d of
        (Inl e, d') \<Rightarrow> (Some e, d')
      | (Inr _, d') \<Rightarrow> (None, d'))"

record ServeCmd =
  sv_BlocksDir :: string
  sv_ManifestDir :: string
  sv_ManifestName :: string
  sv_BlockmapDir :: string
  sv_SnapshotDir :: string
  sv_Chain :: string

text \<open>
  \<open>serve\<close> up to the point where the socket is opened: the server with its manifest loaded.
\<close>

definition ServeCmd_start :: "(bytes \<Rightarrow> Manifest result) \<Rightarrow> io_env \<Rightarrow> disk \<Rightarrow> ServeCmd \<Rightarrow> FileServer result" where
  "ServeCmd_start json_Unmarshal env d cmd =
     (case loadManifest json_Unmarshal env d
             (NewFileServer (sv_BlocksDir cmd) (sv_ManifestDir cmd) (sv_ManifestName cmd) (sv_BlockmapDir cmd)
                (sv_SnapshotDir cmd) (if sv_Chain cmd \<noteq> [] then Some (sv_Chain cmd) else None)) of
        (Some e, s) \<Rightarrow> Inl e
      | (None, s) \<Rightarrow> Inr s)"

record SyncCmd =
  sc_BlocksDir :: string
  sc_Chain :: string
  sc_Endpoint :: string
  sc_Region :: string
  sc_BaseURL :: string
  sc_ScanInterval :: int
  sc_BlockmapDir :: string
  sc_ManifestPath :: "(string \<times> string) option"
  sc_PathStyle :: bool
  sc_StorageClass :: string

definition s3Opts :: "SyncCmd \<Rightarrow> (s3Config \<Rightarrow> s3Config) list" where
  "s3Opts cmd =
     (if sc_Endpoint cmd \<noteq> [] then [WithEndpoint (sc_Endpoint cmd)] else [])
     @ (if sc_Region cmd \<noteq> [] then [WithRegion (sc_Region cmd)] else [])
     @ (if sc_PathStyle cmd then [WithPathStyle True] else [])
     @ (if sc_StorageClass cmd \<noteq> [] then [WithStorageClass (sc_StorageClass cmd)] else [])"

definition syncerOpts :: "SyncCmd \<Rightarrow> (Syncer \<Rightarrow> Syncer) list" where
  "syncerOpts cmd =
     (if sc_BlockmapDir cmd \<noteq> [] then [WithSyncerBlockmapDir (sc_BlockmapDir cmd)] else [])
     @ (if sc_ManifestPath cmd \<noteq> None then [WithSyncerManifestPath (sc_ManifestPath cmd)] else [])
     @ [WithSyncerInterval (sc_ScanInterval cmd)]"

text \<open>\<open>sync\<close> up to the start of the loop that runs \<open>Syncer.sync\<close>.\<close>

definition SyncCmd_start :: "go_error option \<Rightarrow> (s3Config \<Rightarrow> aws) \<Rightarrow> SyncCmd \<Rightarrow> Syncer result" where
  "SyncCmd_start load_config service cmd =
     bindE (wrapE ''create S3 client'' (New_s3 load_config service (s3Opts cmd))) (\<lambda>s3Client.
       Inr (NewSyncer (sc_BlocksDir cmd) (sc_Chain cmd) (sc_BaseURL cmd) (Client_uploader s3Client) (syncerOpts cmd)))"

section \<open>The files of the archive\<close>

lemma GenerateBlockmaps_keeps:
  assumes "finite (dom d)" "fault env (SysReadDir dir) = None" "GenerateBlockmaps env dir out magic d = (Inr res, d')"
    and "last q = CHR ''t''"
  shows "d' q = d q"
proof -
  obtain names where gen: "generate_blockmaps env out magic (map (path_Join dir) names) Map.empty d = (Inr res, d')"
    and dn: "distinct names" and sn: "set names = {dat ''blk'' num |num. plain_num num
      \<and> FinalizedFileThreshold \<le> file_size d (path_Join dir (dat ''blk'' num))}"
    using GenerateBlockmaps_files [OF assms(1-3)] by blast
  have "\<forall>n \<in> set names. n \<noteq> [] \<and> CHR ''/'' \<notin> set n \<and> last n = CHR ''t''"
    unfolding sn by (auto simp: dat_def plain_num_def)
  note ok = generate_blockmaps_ok [OF gen dn this]
  have "q \<notin> blockmap_path out ` set names" using assms(4) last_blockmap_path by fastforce
  then show ?thesis using ok assms(4) by blast
qed

lemma generate_blockmaps_finite:
  "generate_blockmaps env out magic ps res d = (r, d') \<Longrightarrow> finite (dom d) \<Longrightarrow> finite (dom d')"
proof (induction ps arbitrary: res d)
  case (Cons p ps)
  have one: "finite (dom d1)" if "generate_blockmap env out magic p d = (r1, d1)" for r1 d1
  proof -
    have w: "finite (dom d2)" if "WriteFile env q bm d = (err, d2)" for q bm err d2
      using that Cons.prems(2) finite_disk_upd [of d q "q @ ''.tmp.'' @ tmp_suffix env" d2]
        write_atomic_other [of env "q @ ''.tmp.'' @ tmp_suffix env" q]
      by (auto simp: WriteFile_def split: option.splits)
    show ?thesis
      using that Cons.prems(2) w
      by (auto simp: generate_blockmap_def Let_def split: sum.splits prod.splits option.splits)
  qed
  then show ?case using Cons by (auto split: prod.splits sum.splits)
qed auto

text \<open>A path with no slash in it is no file that the generator writes.\<close>

lemma generate_blockmaps_dirs:
  "generate_blockmaps env out magic ps res d = (r, d') \<Longrightarrow> CHR ''/'' \<notin> set q \<Longrightarrow> d' q = d q"
proof (induction ps arbitrary: res d)
  case (Cons p ps)
  have ne: "q \<noteq> path_Join out x" "q \<noteq> path_Join out x @ y" for x y using Cons.prems(2) by (auto simp: path_Join_def)
  have w: "d2 q = d q" if "WriteFile env (path_Join out x) bm d = (err, d2)" for x bm err d2
    using that ne write_atomic_other [of env "path_Join out x @ ''.tmp.'' @ tmp_suffix env" "path_Join out x" _ _ _ _ _ d err d2 q]
    by (auto simp: WriteFile_def split: option.splits)
  have "d1 q = d q" if "generate_blockmap env out magic p d = (r1, d1)" for r1 d1
    using that w by (auto simp: generate_blockmap_def Let_def split: sum.splits prod.splits option.splits)
  then show ?case using Cons by (auto split: prod.splits sum.splits)
qed auto

lemma GenerateBlockmaps_disk:
  assumes "GenerateBlockmaps env dir out magic d = (Inr res, d')"
  shows "finite (dom d) \<Longrightarrow> finite (dom d')" "CHR ''/'' \<notin> set q \<Longrightarrow> d' q = d q"
proof -
  obtain ps where "generate_blockmaps env out magic ps Map.empty d = (Inr res, d')"
    using assms by (auto simp: GenerateBlockmaps_def split: sum.splits option.splits)
  then show "finite (dom d) \<Longrightarrow> finite (dom d')" "CHR ''/'' \<notin> set q \<Longrightarrow> d' q = d q"
    using generate_blockmaps_finite generate_blockmaps_dirs by blast+
qed

lemma file_hash_map_distinct:
  "distinct (map mf_Name fs) \<Longrightarrow> f \<in> set fs \<Longrightarrow> mf_SHA256 f \<noteq> [] \<Longrightarrow> file_hash_map fs (mf_Name f) = Some (mf_SHA256 f)"
  unfolding file_hash_map_def by (induction fs rule: rev_induct) (auto simp: rev_image_eqI)

lemma EncodeToString_Sum256_nonempty: "EncodeToString (Sum256 c) \<noteq> []"
  using length_EncodeToString [of "Sum256 c"] by (metis length_Sum256 list.size(3) mult_eq_0_iff zero_neq_numeral)

lemma manifest_entry_blockmap:
  assumes "manifest_entry env d cfg Map.empty s = Inr mf" "cfg_blockmapDir cfg \<noteq> []" "\<forall>c. fault env c = None"
    and "d (path_Join (cfg_blockmapDir cfg) (sf_Name s @ ''.blockmap'')) = Some raw"
  shows "mf_Name mf = sf_Name s \<and> mf_BlockmapSHA256 mf = EncodeToString (Sum256 raw)"
  using assms by (auto simp: manifest_entry_def Let_def result_iffs sha256File_def os_Stat_def)

lemma GenerateManifest_blockmaps:
  assumes "GenerateManifest env d cfg dir ch = Inr m" "cfg_prev cfg = None" "cfg_blockmapDir cfg \<noteq> []" "\<forall>c. fault env c = None"
    and "mf \<in> set (mn_Files m)" "d (path_Join (cfg_blockmapDir cfg) (mf_Name mf @ ''.blockmap'')) = Some raw"
  shows "mf_BlockmapSHA256 mf = EncodeToString (Sum256 raw)"
proof -
  obtain scanned where "list_all2 (\<lambda>s mf. manifest_entry env d cfg Map.empty s = Inr mf) scanned (mn_Files m)"
    using GenerateManifest_files [OF assms(1)] assms(2) unfolding mapE_Inr by auto
  then obtain s where s: "manifest_entry env d cfg Map.empty s = Inr mf"
    using assms(5) by (auto simp: list_all2_conv_all_nth in_set_conv_nth)
  then have "mf_Name mf = sf_Name s"
    by (auto simp: manifest_entry_def Let_def result_iffs split: if_splits sum.splits)
  then show ?thesis using manifest_entry_blockmap [OF s assms(3,4)] assms(6) by simp
qed

text \<open>Writing the manifest keeps the blockmap files too.\<close>

lemma manifest_keeps_blockmap:
  assumes "WriteFile_manifest enc env dir name m d = (err, d')" "name \<noteq> []" "last name \<notin> {CHR ''t'', CHR ''p''}"
  shows "d' (path_Join out (n @ ''.blockmap'')) = d (path_Join out (n @ ''.blockmap''))"
proof -
  let ?q = "path_Join out (n @ ''.blockmap'')"
  have "last ?q \<noteq> last (path_Join dir name)" using assms(2,3) by (auto simp: path_Join_def)
  then have 1: "?q \<noteq> path_Join dir name" by metis
  have "last (butlast ?q) \<noteq> last (butlast (path_Join dir (''.manifest-'' @ tmp_suffix env @ ''.tmp'')))"
    by (simp add: path_Join_def butlast_append)
  then have 2: "?q \<noteq> path_Join dir (''.manifest-'' @ tmp_suffix env @ ''.tmp'')" by metis
  show ?thesis using write_atomic_other [OF assms(1) [unfolded WriteFile_manifest_def] 2] 1 by simp
qed

lemma archive_setup:
  assumes "finite (dom d)" "\<forall>c. fault env c = None" "\<forall>m bs. enc m = Inr bs \<longrightarrow> dec bs = Inr m"
    and "BlockmapGenCmd_Execute env \<lparr>bg_BlocksDir = dir, bg_Output = out, bg_Chain = ch\<rparr> d = (None, d1)" "out \<noteq> []"
    and "ManifestGenCmd_Execute enc env \<lparr>mg_BlocksDir = dir, mg_OutputDir = mdir, mg_OutputName = mname, mg_Chain = ch,
           mg_BlockmapDir = out, mg_SnapshotDir = snap\<rparr> d1 = (None, d2)"
    and "mname \<noteq> []" "last mname \<notin> {CHR ''t'', CHR ''p''}"
    and "ServeCmd_start dec env d2 \<lparr>sv_BlocksDir = dir, sv_ManifestDir = mdir, sv_ManifestName = mname, sv_BlockmapDir = out,
           sv_SnapshotDir = snap, sv_Chain = ch\<rparr> = Inr s"
  shows "\<exists>magic m. chainToNetworkMagic ch = Inr magic \<and> dec (manifestJSON s) = Inr m
    \<and> mf_Name ` set (mn_Files m) = {n. finalized d dir n} \<and> distinct (map mf_Name (mn_Files m))
    \<and> (\<forall>f \<in> set (mn_Files m). \<exists>c. d2 (path_Join dir (mf_Name f)) = Some c \<and> d (path_Join dir (mf_Name f)) = Some c
        \<and> mf_Size f = int (length c) \<and> mf_SHA256 f = EncodeToString (Sum256 c)
        \<and> fileHashes s (mf_Name f) = Some (EncodeToString (Sum256 c))
        \<and> (HasPrefix (mf_Name f) ''blk'' \<longrightarrow>
            (\<exists>bs raw. list_all valid_block bs \<and> c = frames magic bs
              \<and> d2 (path_Join out (mf_Name f @ ''.blockmap'')) = Some raw
              \<and> mf_BlockmapSHA256 f = EncodeToString (Sum256 raw)
              \<and> (length bs < 1000000 \<longrightarrow> int (length c) < 2 ^ 63 \<longrightarrow>
                   Read raw = Inr (\<lparr>Filename = [], Entries = entries_of 0 bs\<rparr>, [])))))"
proof -
  obtain magic res where magic: "chainToNetworkMagic ch = Inr magic"
    and gb: "GenerateBlockmaps env dir out magic d = (Inr res, d1)"
    using assms(4) by (auto simp: BlockmapGenCmd_Execute_def split: sum.splits prod.splits)
  let ?cfg = "\<lparr>cfg_blockmapDir = out, cfg_snapshotDir = snap, cfg_baseURL = [], cfg_prev = None\<rparr>"
  obtain m where gm: "GenerateManifest env d1 ?cfg dir ch = Inr m"
    and wm: "WriteFile_manifest enc env mdir mname m d1 = (None, d2)"
    using assms(6) by (auto simp: ManifestGenCmd_Execute_def split: sum.splits prod.splits option.splits)
  have rd: "fault env (SysReadDir dir) = None" using assms(2) by blast
  have fin1: "finite (dom d1)" by (rule GenerateBlockmaps_disk(1) [OF gb assms(1)])
  have t1: "\<forall>q. last q = CHR ''t'' \<longrightarrow> d1 q = d q" using GenerateBlockmaps_keeps [OF assms(1) rd gb] by blast
  note t2 = manifest_written_same [OF wm assms(7,8)]
  obtain bs where bs: "enc m = Inr bs" "d2 (path_Join mdir mname) = Some bs" using t2(2) by blast
  have load: "manifestJSON s = bs" "fileHashes s = file_hash_map (mn_Files m)"
    using assms(9) bs assms(3) loadManifest_None [of dec env d2]
    by (fastforce simp: ServeCmd_start_def NewFileServer_def split: prod.splits option.splits)+
  note ex = GenerateManifest_exact [OF fin1 rd _ gm]
  have names: "mf_Name ` set (mn_Files m) = {n. finalized d dir n}" "distinct (map mf_Name (mn_Files m))"
    and each: "\<forall>mf \<in> set (mn_Files m). \<exists>c. d1 (path_Join dir (mf_Name mf)) = Some c \<and> mf_Finalized mf
        \<and> mf_Size mf = int (length c) \<and> mf_SHA256 mf = EncodeToString (Sum256 c)"
    using ex finalized_same [OF t1, of dir] by simp_all
  have one: "\<exists>c. d2 (path_Join dir (mf_Name f)) = Some c \<and> d (path_Join dir (mf_Name f)) = Some c
        \<and> mf_Size f = int (length c) \<and> mf_SHA256 f = EncodeToString (Sum256 c)
        \<and> fileHashes s (mf_Name f) = Some (EncodeToString (Sum256 c))
        \<and> (HasPrefix (mf_Name f) ''blk'' \<longrightarrow>
            (\<exists>bs raw. list_all valid_block bs \<and> c = frames magic bs
              \<and> d2 (path_Join out (mf_Name f @ ''.blockmap'')) = Some raw
              \<and> mf_BlockmapSHA256 f = EncodeToString (Sum256 raw)
              \<and> (length bs < 1000000 \<longrightarrow> int (length c) < 2 ^ 63 \<longrightarrow>
                   Read raw = Inr (\<lparr>Filename = [], Entries = entries_of 0 bs\<rparr>, []))))"
    if f: "f \<in> set (mn_Files m)" for f
  proof -
    obtain c where c: "d1 (path_Join dir (mf_Name f)) = Some c" "mf_Size f = int (length c)" "mf_SHA256 f = EncodeToString (Sum256 c)"
      using each f by blast
    have fn: "finalized d dir (mf_Name f)" using names(1) f by auto
    then have lt: "last (path_Join dir (mf_Name f)) = CHR ''t''" by (rule finalized_last)
    have fh: "fileHashes s (mf_Name f) = Some (EncodeToString (Sum256 c))"
      unfolding load(2) using file_hash_map_distinct [OF names(2) f] c(3) EncodeToString_Sum256_nonempty by metis
    have blk: "\<exists>bs raw. list_all valid_block bs \<and> c = frames magic bs
        \<and> d2 (path_Join out (mf_Name f @ ''.blockmap'')) = Some raw \<and> mf_BlockmapSHA256 f = EncodeToString (Sum256 raw)
        \<and> (length bs < 1000000 \<longrightarrow> int (length c) < 2 ^ 63 \<longrightarrow>
             Read raw = Inr (\<lparr>Filename = [], Entries = entries_of 0 bs\<rparr>, []))" if pre: "HasPrefix (mf_Name f) ''blk''"
    proof -
      note bme = GenerateBlockmaps_exact [OF assms(1) rd gb]
      have "mf_Name f \<in> dom res" using bme fn pre by blast
      then obtain bs raw where b: "list_all valid_block bs" "d (path_Join dir (mf_Name f)) = Some (frames magic bs)"
        "d1 (path_Join out (mf_Name f @ ''.blockmap'')) = Some raw"
        "length bs < 1000000 \<longrightarrow> int (length (frames magic bs)) < 2 ^ 63 \<longrightarrow>
             Read raw = Inr (\<lparr>Filename = [], Entries = entries_of 0 bs\<rparr>, [])"
        using bme by blast
      have "c = frames magic bs" using b(2) c(1) t1 lt by auto
      moreover have "d2 (path_Join out (mf_Name f @ ''.blockmap'')) = Some raw"
        using manifest_keeps_blockmap [OF wm assms(7,8), of out "mf_Name f"] b(3) by simp
      moreover have "mf_BlockmapSHA256 f = EncodeToString (Sum256 raw)"
        using GenerateManifest_blockmaps [OF gm _ _ assms(2) f] b(3) assms(5) by simp
      ultimately show ?thesis using b(1,4) by blast
    qed
    show ?thesis using c fh blk t1 t2(1) lt by auto
  qed
  then show ?thesis using magic names load(1) bs(1) assms(3) by auto
qed

text \<open>The commands run through over a directory with one block file.\<close>

lemma example_archive:
  "\<exists>d1 d2 m s enc. (\<forall>x bs. enc x = Inr bs \<longrightarrow> x = m)
     \<and> BlockmapGenCmd_Execute io_ok \<lparr>bg_BlocksDir = ''b'', bg_Output = ''m'', bg_Chain = ''mainnet''\<rparr>
         (example_frames 0xD9B4BEF9) = (None, d1)
     \<and> ManifestGenCmd_Execute enc io_ok \<lparr>mg_BlocksDir = ''b'', mg_OutputDir = ''w'', mg_OutputName = ''manifest.json'',
         mg_Chain = ''mainnet'', mg_BlockmapDir = ''m'', mg_SnapshotDir = []\<rparr> d1 = (None, d2)
     \<and> ServeCmd_start (\<lambda>_. Inr m) io_ok d2 \<lparr>sv_BlocksDir = ''b'', sv_ManifestDir = ''w'', sv_ManifestName = ''manifest.json'',
         sv_BlockmapDir = ''m'', sv_SnapshotDir = [], sv_Chain = ''mainnet''\<rparr> = Inr s"
proof -
  let ?d = "example_frames 0xD9B4BEF9"
  obtain res d1 where gb: "GenerateBlockmaps io_ok ''b'' ''m'' 0xD9B4BEF9 ?d = (Inr res, d1)"
    using example_frames_run by blast
  have fin: "finite (dom ?d)" by (simp add: example_frames_def)
  have fin1: "finite (dom d1)"
    using GenerateBlockmaps_disk(1) [OF gb fin] .
  let ?cfg = "\<lparr>cfg_blockmapDir = ''m'', cfg_snapshotDir = [], cfg_baseURL = [], cfg_prev = None\<rparr>"
  have b: "d1 ''b'' = None"
    using GenerateBlockmaps_disk(2) [OF gb, of "''b''"] by (simp add: example_frames_def)
  obtain m where gm: "GenerateManifest io_ok d1 ?cfg ''b'' ''mainnet'' = Inr m"
    using GenerateManifest_total [OF fin1 _ b, of io_ok] by auto
  let ?enc = "\<lambda>x. if x = m then Inr [] else Inl (ErrNew [])" and ?dec = "\<lambda>_. Inr m"
  have "emits (Write_manifest ?enc m) []" by (simp add: Write_manifest_def)
  then have "fst (WriteFile_manifest ?enc io_ok ''w'' ''manifest.json'' m d1) = None"
    unfolding WriteFile_manifest_def by (rule write_atomic_ok) (simp_all add: io_ok_def)
  then obtain d2 where wm: "WriteFile_manifest ?enc io_ok ''w'' ''manifest.json'' m d1 = (None, d2)" by (metis prod.collapse)
  have e1: "BlockmapGenCmd_Execute io_ok \<lparr>bg_BlocksDir = ''b'', bg_Output = ''m'', bg_Chain = ''mainnet''\<rparr> ?d = (None, d1)"
    using gb by (simp add: BlockmapGenCmd_Execute_def chainToNetworkMagic_def)
  have e2: "ManifestGenCmd_Execute ?enc io_ok \<lparr>mg_BlocksDir = ''b'', mg_OutputDir = ''w'', mg_OutputName = ''manifest.json'',
      mg_Chain = ''mainnet'', mg_BlockmapDir = ''m'', mg_SnapshotDir = []\<rparr> d1 = (None, d2)"
    using gm wm by (simp add: ManifestGenCmd_Execute_def)
  have "d2 (path_Join ''w'' ''manifest.json'') \<noteq> None" using manifest_written_same(2) [OF wm] by simp
  then obtain s where e3: "ServeCmd_start ?dec io_ok d2 \<lparr>sv_BlocksDir = ''b'', sv_ManifestDir = ''w'', sv_ManifestName = ''manifest.json'',
      sv_BlockmapDir = ''m'', sv_SnapshotDir = [], sv_Chain = ''mainnet''\<rparr> = Inr s"
    by (auto simp: ServeCmd_start_def loadManifest_def NewFileServer_def os_ReadFile_def os_Open_def)
  show ?thesis using e1 e2 e3 by (intro exI [of _ d1] exI [of _ d2] exI [of _ m] exI [of _ s] exI [of _ ?enc]) simp
qed

section \<open>Properties\<close>

text \<open>
  C7. The archive that \<open>blockmap-gen\<close>, \<open>manifest-gen\<close> and \<open>serve\<close> set up over one blocks directory:
  the manifest that the server hands out lists each finalized file once with the size and the
  SHA-256 it has on disk, the server announces these hashes, and every blk file is a sequence of
  frames of the chain, with a blockmap file of the listed SHA-256 that reads back as its index.
\<close>

theorem archive_published:
  assumes "finite (dom d)" "\<forall>c. fault env c = None" "\<forall>m bs. enc m = Inr bs \<longrightarrow> dec bs = Inr m"
    and "BlockmapGenCmd_Execute env \<lparr>bg_BlocksDir = dir, bg_Output = out, bg_Chain = ch\<rparr> d = (None, d1)" "out \<noteq> []"
    and "ManifestGenCmd_Execute enc env \<lparr>mg_BlocksDir = dir, mg_OutputDir = mdir, mg_OutputName = mname, mg_Chain = ch,
           mg_BlockmapDir = out, mg_SnapshotDir = snap\<rparr> d1 = (None, d2)"
    and "mname \<noteq> []" "last mname \<notin> {CHR ''t'', CHR ''p''}"
    and "ServeCmd_start dec env d2 \<lparr>sv_BlocksDir = dir, sv_ManifestDir = mdir, sv_ManifestName = mname, sv_BlockmapDir = out,
           sv_SnapshotDir = snap, sv_Chain = ch\<rparr> = Inr s"
  shows "\<exists>magic m. chainToNetworkMagic ch = Inr magic \<and> dec (manifestJSON s) = Inr m
    \<and> mf_Name ` set (mn_Files m) = {n. finalized d dir n} \<and> distinct (map mf_Name (mn_Files m))
    \<and> (\<forall>f \<in> set (mn_Files m). \<exists>c. d2 (path_Join dir (mf_Name f)) = Some c \<and> d (path_Join dir (mf_Name f)) = Some c
        \<and> mf_Size f = int (length c) \<and> mf_SHA256 f = EncodeToString (Sum256 c)
        \<and> fileHashes s (mf_Name f) = Some (EncodeToString (Sum256 c))
        \<and> (HasPrefix (mf_Name f) ''blk'' \<longrightarrow>
            (\<exists>bs raw. list_all valid_block bs \<and> c = frames magic bs
              \<and> d2 (path_Join out (mf_Name f @ ''.blockmap'')) = Some raw
              \<and> mf_BlockmapSHA256 f = EncodeToString (Sum256 raw)
              \<and> (length bs < 1000000 \<longrightarrow> int (length c) < 2 ^ 63 \<longrightarrow>
                   Read raw = Inr (\<lparr>Filename = [], Entries = entries_of 0 bs\<rparr>, [])))))"
  using assms by (rule archive_setup)

theorem archive_published_witness:
  "\<exists>d1 d2 m s. BlockmapGenCmd_Execute io_ok \<lparr>bg_BlocksDir = ''b'', bg_Output = ''m'', bg_Chain = ''mainnet''\<rparr>
       (example_frames 0xD9B4BEF9) = (None, d1)
     \<and> ServeCmd_start (\<lambda>_. Inr m) io_ok d2 \<lparr>sv_BlocksDir = ''b'', sv_ManifestDir = ''w'', sv_ManifestName = ''manifest.json'',
         sv_BlockmapDir = ''m'', sv_SnapshotDir = [], sv_Chain = ''mainnet''\<rparr> = Inr s
     \<and> mf_Name ` set (mn_Files m) = {''blk00000.dat''}"
proof -
  let ?d = "example_frames 0xD9B4BEF9"
  obtain d1 d2 m s enc where enc: "\<forall>x bs. enc x = Inr bs \<longrightarrow> x = m"
    and e1: "BlockmapGenCmd_Execute io_ok \<lparr>bg_BlocksDir = ''b'', bg_Output = ''m'', bg_Chain = ''mainnet''\<rparr> ?d = (None, d1)"
    and e2: "ManifestGenCmd_Execute enc io_ok \<lparr>mg_BlocksDir = ''b'', mg_OutputDir = ''w'', mg_OutputName = ''manifest.json'',
      mg_Chain = ''mainnet'', mg_BlockmapDir = ''m'', mg_SnapshotDir = []\<rparr> d1 = (None, d2)"
    and e3: "ServeCmd_start (\<lambda>_. Inr m) io_ok d2 \<lparr>sv_BlocksDir = ''b'', sv_ManifestDir = ''w'', sv_ManifestName = ''manifest.json'',
      sv_BlockmapDir = ''m'', sv_SnapshotDir = [], sv_Chain = ''mainnet''\<rparr> = Inr s"
    using example_archive by (elim exE conjE) (rule that, assumption+)
  have rt: "\<forall>x bs. enc x = Inr bs \<longrightarrow> (\<lambda>_. Inr m) bs = Inr x" using enc by auto
  have fin: "finite (dom ?d)" by (simp add: example_frames_def)
  have "mf_Name ` set (mn_Files m) = {n. finalized ?d ''b'' n}"
    using archive_published [OF fin _ rt e1 _ e2 _ _ e3] by auto
  then show ?thesis using e1 e3 by (auto simp: example_frames_finalized)
qed

end
