(* ===== verification/Client_Cmd.thy ===== *)
theory Client_Cmd
  imports Mount Snapshot
begin

text \<open>
  The other commands of \<open>slimnode\<close> (\<open>internal/cmd\<close>): \<open>init\<close>, \<open>compact\<close>, \<open>status\<close>, \<open>stop\<close> and the
  start in the background. Messages to the terminal are left out; what starts and signals
  processes is a parameter. Shown: \<open>init\<close> never touches a block file and keeps only blockmaps
  that have the manifest's hash, the counts of \<open>status\<close> add up to the table, and a daemon is
  not started twice.
\<close>

section \<open>Initialisation\<close>

text \<open>What is under a path, as \<open>os.Lstat\<close> sees it; links are kept apart from the files.\<close>

datatype link_node = Symlink string | NoSymlink

type_synonym links = "string \<rightharpoonup> link_node"

text \<open>
  The second argument says whether the source directory exists. \<open>Lstat\<close> fails by \<open>SysStat\<close>,
  \<open>Readlink\<close> by \<open>SysOpen\<close>, \<open>Symlink\<close> by \<open>SysCreate\<close> of the link and when there is something.
\<close>

definition ensureBlocksIndexSymlink ::
  "io_env \<Rightarrow> bool \<Rightarrow> string \<Rightarrow> string \<Rightarrow> links \<Rightarrow> go_error option \<times> links" where
  "ensureBlocksIndexSymlink env source_exists source linkPath l =
     (if fault env (SysStat source) = None \<and> \<not> source_exists \<or> fault env (SysStat source) = Some ErrNotExist
      then (Some (ErrNew (''source index directory does not exist: '' @ source)), l)
      else
     (case fault env (SysMkdirAll (path_Dir linkPath)) of
        Some e \<Rightarrow> (Some (Errorf ''creating parent directory'' e), l)
      | None \<Rightarrow>
     (case (if fault env (SysStat linkPath) = None then l linkPath else None) of
        Some (Symlink target) \<Rightarrow>
          (case fault env (SysOpen linkPath) of
             Some e \<Rightarrow> (Some (Errorf ''reading existing symlink'' e), l)
           | None \<Rightarrow>
               if target = source then (None, l)
               else (Some (ErrNew (''symlink '' @ linkPath @ '' already points to '' @ target)), l))
      | Some NoSymlink \<Rightarrow> (Some (ErrNew (linkPath @ '' already exists and is not a symlink'')), l)
      | None \<Rightarrow>
          (case fault env (SysCreate linkPath) of
             Some e \<Rightarrow> (Some (Errorf ''creating symlink'' e), l)
           | None \<Rightarrow>
               if l linkPath = None then (None, l(linkPath \<mapsto> Symlink source))
               else (Some (Errorf ''creating symlink'' (ErrNew ''file exists'')), l)))))"

text \<open>\<open>os.Create\<close> and a write operation into the new file.\<close>

definition create_and_write :: "io_env \<Rightarrow> string \<Rightarrow> write_op \<Rightarrow> disk \<Rightarrow> go_error option result \<times> disk" where
  "create_and_write env p body d =
     (case fault env (SysCreate p) of
        Some e \<Rightarrow> (Inl e, d)
      | None \<Rightarrow> (case body (fresh_writer env p) of (err, w) \<Rightarrow> (Inr err, d(p \<mapsto> written w))))"

definition index_tmp :: "io_env \<Rightarrow> string \<Rightarrow> string" where
  "index_tmp env tmpDir = path_Join tmpDir (''blocks-index-'' @ tmp_suffix env @ ''.tar.zst'')"

definition downloadBlocksIndex ::
  "tar_reader \<Rightarrow> io_env \<Rightarrow> (string \<Rightarrow> write_op) \<Rightarrow> string \<Rightarrow> Config \<Rightarrow> SnapshotEntry \<Rightarrow> disk_op" where
  "downloadBlocksIndex reader env fetchSnapshot tmpDir cfg entry d =
     (let name = path_Base (sn_URL entry); tmpPath = index_tmp env tmpDir;
          destDir = path_Join (g_LocalDir (General cfg)) ''index'';
          cleanup = (\<lambda>(err, d). (err, snd (os_Remove env tmpPath d))) in
      case create_and_write env tmpPath (fetchSnapshot name) d of
        (Inl e, d1) \<Rightarrow> (Some (Errorf ''create temp file'' e), d1)
      | (Inr (Some e), d1) \<Rightarrow> cleanup (Some (Errorf ''download blocks/index'' e), d1)
      | (Inr None, d1) \<Rightarrow>
          (case fault env (SysMkdirAll destDir) of
             Some e \<Rightarrow> cleanup (Some (Errorf ''create index dir'' e), d1)
           | None \<Rightarrow>
               (case os_Open env d1 tmpPath of
                  Inl e \<Rightarrow> cleanup (Some (Errorf ''open temp file'' e), d1)
                | Inr f \<Rightarrow>
                    (case ExtractTarZst reader env f destDir d1 of
                       (Some e, d2) \<Rightarrow> cleanup (Some (Errorf ''extract blocks/index'' e), d2)
                     | (None, d2) \<Rightarrow> cleanup (None, d2)))))"

definition downloadUTXOSnapshot ::
  "io_env \<Rightarrow> (string \<Rightarrow> write_op) \<Rightarrow> Config \<Rightarrow> SnapshotEntry \<Rightarrow> disk_op" where
  "downloadUTXOSnapshot env fetchSnapshot cfg entry d =
     (let name = path_Base (sn_URL entry); destPath = path_Join (g_CacheDir (General cfg)) name in
      case create_and_write env destPath (fetchSnapshot name) d of
        (Inl e, d1) \<Rightarrow> (Some (Errorf ''create UTXO file'' e), d1)
      | (Inr (Some e), d1) \<Rightarrow> (Some (Errorf ''download UTXO'' e), snd (os_Remove env destPath d1))
      | (Inr None, d1) \<Rightarrow> (None, d1))"

definition init_blockmap :: "io_env \<Rightarrow> (string \<Rightarrow> bytes result) \<Rightarrow> string \<Rightarrow> disk \<Rightarrow> ManifestFile \<Rightarrow> disk" where
  "init_blockmap env fetchBlockmap blockmapDir d f =
     (if \<not> HasBlockmap f then d
      else case fetchBlockmap (mf_Name f) of
        Inl e \<Rightarrow> d
      | Inr data \<Rightarrow>
          if EncodeToString (Sum256 data) \<noteq> mf_BlockmapSHA256 f then d
          else snd (os_WriteFile env (filepath_Join blockmapDir (mf_Name f @ ''.blockmap'')) data d))"

record init_env =
  ie_io :: io_env
  ie_http :: http_env
  ie_decode :: "Manifest json_stream"
  ie_encode :: "Manifest \<Rightarrow> bytes result"
  ie_reader :: tar_reader
  ie_tmpDir :: string
  ie_source_exists :: bool

definition init_manifest :: "init_env \<Rightarrow> Config \<Rightarrow> Manifest result" where
  "init_manifest ie cfg =
     (case HTTPClient_FetchManifest (ie_http ie) (ie_decode ie)
             (New_client (sc_URL (Server cfg)) (sc_RetryCount (Server cfg))) [] of
        Inl e \<Rightarrow> Inl (Errorf ''fetching manifest'' e)
      | Inr (None, _) \<Rightarrow> Inl (ErrNew ''server returned empty manifest'')
      | Inr (Some mf, _) \<Rightarrow> Inr mf)"

text \<open>The downloads after the manifest is saved; their errors are logged.\<close>

definition init_downloads :: "init_env \<Rightarrow> Config \<Rightarrow> Manifest \<Rightarrow> disk \<Rightarrow> disk" where
  "init_downloads ie cfg mf d =
     (let rc = New_client (sc_URL (Server cfg)) (sc_RetryCount (Server cfg));
          fetchSnapshot = HTTPClient_FetchSnapshot (ie_http ie) rc;
          d1 = foldl (init_blockmap (ie_io ie) (HTTPClient_FetchBlockmap (ie_http ie) rc)
                 (path_Join (g_CacheDir (General cfg)) ''blockmaps'')) d (mn_Files mf);
          d2 = (if sn_URL (BlocksIndex (mn_Snapshots mf)) \<noteq> []
                then snd (downloadBlocksIndex (ie_reader ie) (ie_io ie) fetchSnapshot (ie_tmpDir ie) cfg
                            (BlocksIndex (mn_Snapshots mf)) d1)
                else d1)
      in if sn_URL (UTXO (mn_Snapshots mf)) \<noteq> []
         then snd (downloadUTXOSnapshot (ie_io ie) fetchSnapshot cfg (UTXO (mn_Snapshots mf)) d2)
         else d2)"

definition InitCmd_Execute :: "init_env \<Rightarrow> Config \<Rightarrow> disk \<times> links \<Rightarrow> go_error option \<times> disk \<times> links" where
  "InitCmd_Execute ie cfg = (\<lambda>(d, l).
     let io = ie_io ie; cacheDir = g_CacheDir (General cfg); localDir = g_LocalDir (General cfg) in
     case fault io (SysMkdirAll cacheDir) of
       Some e \<Rightarrow> (Some (Errorf (''creating directory '' @ cacheDir) e), d, l)
     | None \<Rightarrow>
    (case fault io (SysMkdirAll localDir) of
       Some e \<Rightarrow> (Some (Errorf (''creating directory '' @ localDir) e), d, l)
     | None \<Rightarrow>
    (case init_manifest ie cfg of
       Inl e \<Rightarrow> (Some e, d, l)
     | Inr mf \<Rightarrow>
    (case WriteFile_manifest (ie_encode ie) io cacheDir ''manifest.json'' mf d of
       (Some e, d1) \<Rightarrow> (Some (Errorf ''saving manifest'' e), d1, l)
     | (None, d1) \<Rightarrow>
    (case fault io (SysMkdirAll (path_Join cacheDir ''blockmaps'')) of
       Some e \<Rightarrow> (Some (Errorf ''creating blockmap cache dir'' e), d1, l)
     | None \<Rightarrow>
         (None, init_downloads ie cfg mf d1,
          snd (ensureBlocksIndexSymlink io (ie_source_exists ie) (path_Join localDir ''index'')
                 (path_Join (g_BitcoinDataDir (General cfg)) ''blocks/index'') l)))))))"

section \<open>Compaction and status\<close>

definition CompactCmd_Execute ::
  "mount_env \<Rightarrow> Config \<Rightarrow> disk \<Rightarrow> go_error option \<times> (disk \<times> Row list) option" where
  "CompactCmd_Execute me cfg d =
     (let cacheDir = g_CacheDir (General cfg) in
      case me_store me (path_Join cacheDir ''slimnode.db'') of
        Inl e \<Rightarrow> (Some (Errorf ''opening store'' e), None)
      | Inr st \<Rightarrow>
     (case New_cache (me_io me) cacheDir (maxBytes cfg) (nat (cc_MinKeepRecent (Cache cfg))) of
        Inl e \<Rightarrow> (Some (Errorf ''creating cache'' e), Some (d, st))
      | Inr ca \<Rightarrow>
     (case (case HTTPClient_FetchManifest (me_http me) (me_decode me)
                   (New_client (sc_URL (Server cfg)) (sc_RetryCount (Server cfg))) [] of
              Inr (mf, _) \<Rightarrow> Inr mf
            | Inl _ \<Rightarrow> wrapE ''loading manifest'' (bindE
                (ParseFile (me_decode me None) (me_io me) d (path_Join cacheDir ''manifest.json'')) (\<lambda>m. Inr (Some m)))) of
        Inl e \<Rightarrow> (Some e, Some (d, st))
      | Inr mf \<Rightarrow>
          (case Compact (me_io me) (me_db me)
                  \<lparr>co_localDir = g_LocalDir (General cfg), co_stateFile = path_Join cacheDir ''compaction-state''\<rparr> mf (d, st) of
             (Some e, w) \<Rightarrow> (Some (Errorf ''compaction failed'' e), Some w)
           | (None, w) \<Rightarrow> (None, Some w)))))"

record node_status =
  ns_counts :: "FileState \<Rightarrow> nat"
  ns_used :: int
  ns_total :: int

definition StatusCmd_Execute :: "mount_env \<Rightarrow> Config \<Rightarrow> disk \<Rightarrow> node_status result" where
  "StatusCmd_Execute me cfg d =
     (let cacheDir = g_CacheDir (General cfg) in
      bindE (wrapE ''opening store'' (me_store me (path_Join cacheDir ''slimnode.db''))) (\<lambda>st.
      bindE (wrapE ''creating cache'' (New_cache (me_io me) cacheDir (maxBytes cfg) (nat (cc_MinKeepRecent (Cache cfg))))) (\<lambda>ca.
        let counts = (\<lambda>state. if state \<in> {FileStateActive, FileStateLocalFinalized, FileStateCached, FileStateRemote}
              then (case ListByState (me_db me) st state of Inl e \<Rightarrow> 0 | Inr entries \<Rightarrow> length entries) else 0);
            usage = Usage (me_io me) ca d
        in Inr \<lparr>ns_counts = counts, ns_used = fst usage, ns_total = snd usage\<rparr>)))"

section \<open>The daemon process\<close>

text \<open>
  \<open>kill\<close> is the answer of \<open>kill(pid, 0)\<close>: no error, the error EPERM, or another one.
\<close>

datatype kill_result = KillOk | KillPerm | KillError go_error

definition string_of :: "bytes \<Rightarrow> string" where
  "string_of b = map (\<lambda>x. char_of (unat x)) b"

definition readPID :: "io_env \<Rightarrow> (int \<Rightarrow> kill_result) \<Rightarrow> disk \<Rightarrow> string \<Rightarrow> int result" where
  "readPID env kill d pidPath =
     bindE (os_ReadFile env d pidPath) (\<lambda>data.
       case Atoi (string_of (TrimSpace data)) of
         None \<Rightarrow> Inl (ErrNew ''invalid PID file'')
       | Some pid \<Rightarrow>
           (case kill pid of
              KillError e \<Rightarrow> Inl (Errorf (''process '' @ Itoa pid @ '' not running'') e)
            | _ \<Rightarrow> Inr pid))"

definition writePID :: "io_env \<Rightarrow> string \<Rightarrow> int \<Rightarrow> disk_op" where
  "writePID env pidPath pid d =
     (case fault env (SysMkdirAll (path_Dir pidPath)) of
        Some e \<Rightarrow> (Some e, d)
      | None \<Rightarrow> os_WriteFile env pidPath (bytes_of (Itoa pid)) d)"

definition removePID :: "io_env \<Rightarrow> string \<Rightarrow> disk \<Rightarrow> disk" where
  "removePID env pidPath d = snd (os_Remove env pidPath d)"

definition filterBackgroundFlag :: "string list \<Rightarrow> string list" where
  "filterBackgroundFlag args = filter (\<lambda>arg. \<not> (arg = ''--background'' \<or> arg = ''-b'')) args"

text \<open>
  \<open>start\<close> is \<open>exec.Command(...).Start\<close> on the arguments of the child: its process number or an
  error; the result also lists the commands that were started. The log file is created when it
  is missing.
\<close>

definition daemonize ::
  "io_env \<Rightarrow> (int \<Rightarrow> kill_result) \<Rightarrow> string result \<Rightarrow> (string \<Rightarrow> string list \<Rightarrow> int result) \<Rightarrow> string list
     \<Rightarrow> string \<Rightarrow> string \<Rightarrow> disk \<Rightarrow> (go_error option \<times> disk) \<times> string list list" where
  "daemonize env kill os_Executable start args pidPath logPath d =
     (case readPID env kill d pidPath of
        Inr pid \<Rightarrow> ((Some (ErrNew (''slimnode already running (pid '' @ Itoa pid @ '')'')), d), [])
      | Inl _ \<Rightarrow>
     (case fault env (SysCreate logPath) of
        Some e \<Rightarrow> ((Some (Errorf ''opening log file'' e), d), [])
      | None \<Rightarrow>
          let d1 = (if d logPath = None then d(logPath \<mapsto> []) else d); child = filterBackgroundFlag args in
     (case os_Executable of
        Inl e \<Rightarrow> ((Some (Errorf ''resolving executable'' e), d1), [])
      | Inr exe \<Rightarrow>
     (case start exe child of
        Inl e \<Rightarrow> ((Some (Errorf ''starting daemon'' e), d1), [])
      | Inr pid \<Rightarrow>
          (case writePID env pidPath pid d1 of
             (Some e, d2) \<Rightarrow> ((Some (Errorf ''writing PID file'' e), d2), [child])
           | (None, d2) \<Rightarrow> ((None, d2), [child]))))))"

text \<open>
  \<open>stop\<close> after the configuration is loaded: \<open>sigterm\<close> is the answer of \<open>kill(pid, SIGTERM)\<close>, and
  \<open>polls\<close> says for every tick of the ticker until the deadline whether \<open>kill(pid, 0)\<close> fails then.
\<close>

fun stop_loop :: "io_env \<Rightarrow> string \<Rightarrow> int \<Rightarrow> bool list \<Rightarrow> disk_op" where
  "stop_loop env pidPath pid [] d =
     (Some (ErrNew (''slimnode (pid '' @ Itoa pid @ '') did not stop within 3s'')), d)"
| "stop_loop env pidPath pid (ended # later) d =
     (if ended then (None, removePID env pidPath d) else stop_loop env pidPath pid later d)"

definition StopCmd_Execute ::
  "io_env \<Rightarrow> (int \<Rightarrow> kill_result) \<Rightarrow> (int \<Rightarrow> go_error option) \<Rightarrow> bool list \<Rightarrow> string \<Rightarrow> disk_op" where
  "StopCmd_Execute env kill sigterm polls pidPath d =
     (case readPID env kill d pidPath of
        Inl _ \<Rightarrow> (Some (ErrNew ''slimnode is not running''), d)
      | Inr pid \<Rightarrow>
          (case sigterm pid of
             Some e \<Rightarrow> (Some (Errorf ''sending signal'' e), removePID env pidPath d)
           | None \<Rightarrow> stop_loop env pidPath pid polls d))"

section \<open>Log levels\<close>

definition to_lower :: "char \<Rightarrow> char" where
  "to_lower c = (if (of_char c :: nat) \<in> {65..90} then char_of ((of_char c :: nat) + 32) else c)"

datatype slog_Level = LevelDebug | LevelInfo | LevelWarn | LevelError

definition parseLogLevel :: "string \<Rightarrow> slog_Level result" where
  "parseLogLevel level =
     (let l = map to_lower (string_of (TrimSpace (bytes_of level))) in
      if l = ''debug'' then Inr LevelDebug
      else if l = ''info'' \<or> l = [] then Inr LevelInfo
      else if l = ''warn'' \<or> l = ''warning'' then Inr LevelWarn
      else if l = ''error'' then Inr LevelError
      else Inl (ErrNew (''invalid general.log-level '' @ level)))"

section \<open>What \<open>init\<close> changes\<close>

lemma create_and_write_other: "create_and_write env p body d = (r, d') \<Longrightarrow> q \<noteq> p \<Longrightarrow> d' q = d q"
  by (auto simp: create_and_write_def split: option.splits prod.splits)

lemma downloadBlocksIndex_other:
  assumes "downloadBlocksIndex reader env fetch tmpDir cfg entry d = (err, d')"
    and "clean_dir (path_Join (g_LocalDir (General cfg)) ''index'')"
    and "q \<noteq> index_tmp env tmpDir" "\<not> below (path_Join (g_LocalDir (General cfg)) ''index'') q"
  shows "d' q = d q"
proof -
  have ex: "d2 q = d1 q" if "ExtractTarZst reader env f (path_Join (g_LocalDir (General cfg)) ''index'') d1 = (e, d2)" for f d1 e d2
    using that assms(4) extract_loop_below [OF assms(2)] by (fastforce simp: ExtractTarZst_def split: sum.splits prod.splits)
  have rm: "snd (os_Remove env (index_tmp env tmpDir) d1) q = d1 q" for d1 using os_Remove_other assms(3) by blast
  obtain r d1 where c: "create_and_write env (index_tmp env tmpDir) (fetch (path_Base (sn_URL entry))) d = (r, d1)" by fastforce
  have "d1 q = d q" by (rule create_and_write_other [OF c assms(3)])
  moreover have "d' q = d1 q"
    using assms(1) c ex rm unfolding downloadBlocksIndex_def Let_def
    by (auto split: sum.splits option.splits prod.splits)
  ultimately show ?thesis by simp
qed

lemma downloadUTXOSnapshot_other:
  assumes "downloadUTXOSnapshot env fetch cfg entry d = (err, d')"
    and "q \<noteq> path_Join (g_CacheDir (General cfg)) (path_Base (sn_URL entry))"
  shows "d' q = d q"
proof -
  obtain r d1 where c: "create_and_write env (path_Join (g_CacheDir (General cfg)) (path_Base (sn_URL entry)))
      (fetch (path_Base (sn_URL entry))) d = (r, d1)" by fastforce
  show ?thesis
    using assms(1) c create_and_write_other [OF c assms(2)] os_Remove_other [OF assms(2)]
    by (auto simp: downloadUTXOSnapshot_def Let_def split: sum.splits option.splits)
qed

text \<open>A blockmap file is left alone, or holds what the manifest's hash says.\<close>

lemma init_blockmap_cases:
  assumes "space env (filepath_Join dir (mf_Name f @ ''.blockmap'')) = None"
  shows "init_blockmap env fetch dir d f q = d q
    \<or> q = filepath_Join dir (mf_Name f @ ''.blockmap'') \<and> (\<exists>data. init_blockmap env fetch dir d f q = Some data
        \<and> fetch (mf_Name f) = Inr data \<and> HasBlockmap f \<and> EncodeToString (Sum256 data) = mf_BlockmapSHA256 f)"
  using assms
  by (auto simp: init_blockmap_def os_WriteFile_def w_write_def fresh_writer_def split: sum.splits option.splits)

lemma init_blockmaps_cases:
  assumes "\<forall>p. space env p = None"
  shows "foldl (init_blockmap env fetch dir) d fs q = d q
    \<or> (\<exists>f \<in> set fs. q = filepath_Join dir (mf_Name f @ ''.blockmap'') \<and> (\<exists>data. foldl (init_blockmap env fetch dir) d fs q = Some data
        \<and> fetch (mf_Name f) = Inr data \<and> HasBlockmap f \<and> EncodeToString (Sum256 data) = mf_BlockmapSHA256 f))"
proof (induction fs arbitrary: d)
  case (Cons f fs)
  show ?case
    using Cons.IH [of "init_blockmap env fetch dir d f"] init_blockmap_cases [of env dir f fetch d q] assms by auto
qed simp

lemma Join_plain:
  assumes "clean_dir dir" "plain n"
  shows "filepath_Join dir (n @ ''.blockmap'') = path_Join dir (n @ ''.blockmap'')"
proof -
  have "last (n @ ''.blockmap'') = CHR ''p''" by simp
  then have "list_all proper [n @ ''.blockmap'']" using assms(2) by (auto simp: proper_def plain_def)
  from Join_names [OF assms(1) this] show ?thesis by simp
qed

lemma path_Base_slash: "path_Base p = ''/'' \<or> plain (path_Base p)"
proof -
  have "c \<noteq> CHR ''/''" if "c \<in> set (takeWhile (\<lambda>c. c \<noteq> CHR ''/'') xs)" for c and xs :: string
    using that by (auto dest: set_takeWhileD)
  then show ?thesis by (auto simp: path_Base_def plain_def Let_def)
qed

lemma path_Base_apart:
  assumes "plain f" "f \<noteq> []" "a \<noteq> b"
  shows "path_Join a f \<noteq> path_Join b (path_Base p)"
proof (cases "path_Base p = ''/''")
  case True
  have "last (path_Join a f) = last f" "last (path_Join b ''/'') = CHR ''/''" using assms(2) by (simp_all add: path_Join_def)
  moreover have "last f \<noteq> CHR ''/''" using assms(1,2) by (metis last_in_set plain_def)
  ultimately show ?thesis using True by metis
next
  case False
  then have "plain (path_Base p)" using path_Base_slash by blast
  then show ?thesis using path_Join_plain [OF assms(1)] assms(3) by blast
qed

lemma below_index:
  assumes "plain f" "f \<noteq> ''index''"
  shows "\<not> below (path_Join l ''index'') (path_Join l f)"
proof
  assume "below (path_Join l ''index'') (path_Join l f)"
  then consider "path_Join l f = path_Join l ''index''" | x where "path_Join l f = path_Join (path_Join l ''index'') x"
    unfolding below_def by blast
  then show False
  proof cases
    case (2 x)
    then have "f = ''index/'' @ x" by (simp add: path_Join_def)
    then show False using assms(1) by (simp add: plain_def)
  qed (use assms(2) in simp)
qed

lemma index_tmp_plain: "plain (''blocks-index-'' @ tmp_suffix env @ ''.tar.zst'')"
  using Itoa_no_slash [of "int (tmp_rnd env)"] by (simp add: plain_def tmp_suffix_def Itoa_def)

text \<open>The paths outside of what the downloads write.\<close>

lemma init_downloads_other:
  assumes "clean_dir (path_Join (g_LocalDir (General cfg)) ''index'')" "\<not> below (path_Join (g_LocalDir (General cfg)) ''index'') q"
    and "q \<noteq> index_tmp (ie_io ie) (ie_tmpDir ie)"
    and "q \<noteq> path_Join (g_CacheDir (General cfg)) (path_Base (sn_URL (UTXO (mn_Snapshots mf))))"
  shows "init_downloads ie cfg mf d q = foldl (init_blockmap (ie_io ie) (HTTPClient_FetchBlockmap (ie_http ie)
      (New_client (sc_URL (Server cfg)) (sc_RetryCount (Server cfg)))) (path_Join (g_CacheDir (General cfg)) ''blockmaps'')) d (mn_Files mf) q"
proof -
  have "snd (downloadUTXOSnapshot (ie_io ie) fs cfg (UTXO (mn_Snapshots mf)) x) q = x q" for fs x
    using downloadUTXOSnapshot_other [OF _ assms(4)] by (metis prod.collapse)
  moreover have "snd (downloadBlocksIndex rd (ie_io ie) fs (ie_tmpDir ie) cfg en x) q = x q" for rd fs en x
    using downloadBlocksIndex_other [OF _ assms(1,3,2)] by (metis prod.collapse)
  ultimately show ?thesis by (simp add: init_downloads_def Let_def)
qed

lemma InitCmd_cases:
  assumes "InitCmd_Execute ie cfg (d, l) = (err, d', l')"
  shows "d' = d \<or> (\<exists>mf e d1. init_manifest ie cfg = Inr mf
    \<and> WriteFile_manifest (ie_encode ie) (ie_io ie) (g_CacheDir (General cfg)) ''manifest.json'' mf d = (e, d1)
    \<and> (d' = d1 \<or> d' = init_downloads ie cfg mf d1))"
  using assms by (auto simp: InitCmd_Execute_def Let_def split: option.splits sum.splits prod.splits)

lemma init_blockmaps_plain:
  assumes "\<forall>p. space env p = None" "clean_dir bm" "\<forall>f \<in> set fs. plain (mf_Name f)" "plain n"
  shows "l \<noteq> bm \<Longrightarrow> foldl (init_blockmap env fetch bm) x fs (path_Join l n) = x (path_Join l n)"
    and "foldl (init_blockmap env fetch bm) x fs (path_Join bm (n @ ''.blockmap'')) = x (path_Join bm (n @ ''.blockmap''))
      \<or> (\<exists>f \<in> set fs. mf_Name f = n \<and> (\<exists>data. foldl (init_blockmap env fetch bm) x fs (path_Join bm (n @ ''.blockmap'')) = Some data
          \<and> EncodeToString (Sum256 data) = mf_BlockmapSHA256 f))"
proof -
  have eq: "filepath_Join bm (mf_Name f @ ''.blockmap'') = path_Join bm (mf_Name f @ ''.blockmap'')"
    and plf: "plain (mf_Name f @ ''.blockmap'')" if "f \<in> set fs" for f
    using Join_plain [OF assms(2)] assms(3) that by (auto simp: plain_def)
  show "foldl (init_blockmap env fetch bm) x fs (path_Join l n) = x (path_Join l n)" if "l \<noteq> bm"
    using init_blockmaps_cases [OF assms(1), of fetch bm x fs "path_Join l n"] eq plf path_Join_plain [OF assms(4)] that
    by metis
  show "foldl (init_blockmap env fetch bm) x fs (path_Join bm (n @ ''.blockmap'')) = x (path_Join bm (n @ ''.blockmap''))
      \<or> (\<exists>f \<in> set fs. mf_Name f = n \<and> (\<exists>data. foldl (init_blockmap env fetch bm) x fs (path_Join bm (n @ ''.blockmap'')) = Some data
          \<and> EncodeToString (Sum256 data) = mf_BlockmapSHA256 f))"
    using init_blockmaps_cases [OF assms(1), of fetch bm x fs "path_Join bm (n @ ''.blockmap'')"] eq by fastforce
qed

section \<open>Properties\<close>


definition example_init_env :: init_env where
  "example_init_env = \<lparr>ie_io = io_ok,
      ie_http = (example_net 200 [])\<lparr>transport := (\<lambda>_ _. Inr (example_response 200 []))\<rparr>,
      ie_decode = (\<lambda>_ _. Inr (empty_manifest\<lparr>mn_Files := [example_file ''blk00001.dat'' 7]\<rparr>)),
      ie_encode = (\<lambda>_. Inr []), ie_reader = (\<lambda>_. Inl EOF), ie_tmpDir = ''/tmp'', ie_source_exists = True\<rparr>"

lemma example_init_manifest:
  "init_manifest example_init_env cfg = Inr (empty_manifest\<lparr>mn_Files := [example_file ''blk00001.dat'' 7]\<rparr>)"
  by (simp add: init_manifest_def example_init_env_def HTTPClient_FetchManifest_def manifest_request_def NewRequest_def
      example_net_def manifest_response_def example_response_def Parse_def Header_Get_def)




section \<open>Status\<close>

lemma count_states:
  "list_all row_check db \<Longrightarrow> length (filter (\<lambda>r. c_state r = FileStateActive) db)
     + length (filter (\<lambda>r. c_state r = FileStateLocalFinalized) db) + length (filter (\<lambda>r. c_state r = FileStateCached) db)
     + length (filter (\<lambda>r. c_state r = FileStateRemote) db) = length db"
proof (induction db)
  case (Cons r db)
  then show ?case by (cases "c_state r") (simp_all add: row_check_def)
qed simp

text \<open>
  The counts that \<open>status\<close> prints: each is the number of files in that state, and together they
  are all files of the table; no file is counted twice or left out.
\<close>

theorem status_counts:
  assumes "StatusCmd_Execute me cfg d = Inr s" "engine_ok (me_db me)" "db_fault (me_db me) ''ListByState'' = None"
    and "me_store me (path_Join (g_CacheDir (General cfg)) ''slimnode.db'') = Inr db" "db_inv db"
  shows "(\<forall>st \<in> {FileStateActive, FileStateLocalFinalized, FileStateCached, FileStateRemote}.
       ns_counts s st = card {f. map_option fe_State (lookup db f) = Some st})
    \<and> ns_counts s FileStateActive + ns_counts s FileStateLocalFinalized + ns_counts s FileStateCached
        + ns_counts s FileStateRemote = length db"
proof -
  have cnt: "ns_counts s st = length (filter (\<lambda>r. c_state r = st) db)"
    if "st \<in> {FileStateActive, FileStateLocalFinalized, FileStateCached, FileStateRemote}" for st
  proof -
    have "length (row_order (me_db me) rs) = length rs" for rs using assms(2) by (metis engine_ok_def size_mset)
    then show ?thesis
      using assms(1,3,4) that by (auto simp: StatusCmd_Execute_def Let_def ListByState_def result_iffs)
  qed
  have d: "distinct (map c_filename db)" "list_all row_check db" using assms(5) by (simp_all add: db_inv_def)
  have "card {f. map_option fe_State (lookup db f) = Some st} = length (filter (\<lambda>r. c_state r = st) db)" for st
  proof -
    have "{f. map_option fe_State (lookup db f) = Some st} = c_filename ` set (filter (\<lambda>r. c_state r = st) db)"
      using lookup_Some_iff [OF d(1)] by auto
    moreover have "distinct (map c_filename (filter (\<lambda>r. c_state r = st) db))" using d(1) by (rule distinct_map_filter)
    ultimately show ?thesis by (metis distinct_card length_map list.set_map)
  qed
  then show ?thesis using cnt count_states [OF d(2)] by simp
qed

theorem status_counts_witness:
  "\<exists>s. StatusCmd_Execute (example_mount_env [row_of (example_entry ''a'' FileStateRemote), row_of (example_entry ''b'' FileStateCached)])
       example_config Map.empty = Inr s \<and> ns_counts s FileStateRemote = 1"
proof -
  let ?db = "[row_of (example_entry ''a'' FileStateRemote), row_of (example_entry ''b'' FileStateCached)]"
  obtain s where s: "StatusCmd_Execute (example_mount_env ?db) example_config Map.empty = Inr s"
    by (simp add: StatusCmd_Execute_def example_mount_env_def New_cache_def Let_def)
  have "db_inv ?db" by (simp add: db_inv_def row_check_def example_entry_def)
  with status_counts [OF s, of ?db]
  have "ns_counts s FileStateRemote = card {f. map_option fe_State (lookup ?db f) = Some FileStateRemote}"
    by (simp add: example_mount_env_def db_ok_def engine_ok_def)
  also have "{f. map_option fe_State (lookup ?db f) = Some FileStateRemote} = {''a''}"
    by (auto simp: example_entry_def split: if_splits)
  finally show ?thesis using s by simp
qed

section \<open>The PID file\<close>

lemma unat_of_char_byte: "unat (of_char c :: byte) = of_char c"
proof -
  have "unat (of_nat (of_char c) :: byte) = of_char c mod 256" by (simp add: unat_of_nat)
  then show ?thesis by (simp add: of_nat_of_char)
qed

lemma string_of_bytes_of [simp]: "string_of (bytes_of s) = s"
  by (simp add: string_of_def bytes_of_def comp_def unat_of_char_byte)

lemma TrimSpace_digits:
  assumes "list_all is_digit s"
  shows "TrimSpace (bytes_of s) = bytes_of s"
proof -
  have ns: "\<not> is_space (of_char c)" if "is_digit c" for c
  proof
    assume "is_space (of_char c)"
    then have "unat (of_char c :: byte) \<le> 32" unfolding is_space_def by auto
    then show False using that by (simp add: unat_of_char_byte is_digit_def)
  qed
  have *: "dropWhile is_space xs = xs" if "\<forall>x \<in> set xs. \<not> is_space x" for xs using that by (cases xs) auto
  have "\<forall>x \<in> set (bytes_of s). \<not> is_space x" using assms ns by (auto simp: bytes_of_def list_all_iff)
  then show ?thesis unfolding TrimSpace_def by (simp add: *)
qed

lemma readPID_written:
  assumes "d pidPath = Some (bytes_of (Itoa pid))" "0 \<le> pid" "pid < 2 ^ 63"
    and "fault env (SysOpen pidPath) = None" "fault env (SysReadAt pidPath 0) = None"
  shows "readPID env kill d pidPath = (case kill pid of KillError e \<Rightarrow> Inl (Errorf (''process '' @ Itoa pid @ '' not running'') e) | _ \<Rightarrow> Inr pid)"
proof -
  have i: "Itoa pid = Itoa_nat (nat pid)" using assms(2) by (simp add: Itoa_def)
  have "TrimSpace (bytes_of (Itoa pid)) = bytes_of (Itoa pid)"
    using TrimSpace_digits Itoa_nat_digits [of "nat pid"] unfolding i by blast
  moreover have "Atoi (Itoa pid) = Some pid"
    using ParseInt_digits [of "Itoa_nat (nat pid)"] Itoa_nat_digits [of "nat pid"] assms(2,3) unfolding i
    by (simp add: Atoi_def in_int64_def)
  ultimately show ?thesis using assms by (simp add: readPID_def os_ReadFile_def os_Open_def)
qed

text \<open>
  Starting in the background: when the PID file names a live process, nothing is started and
  nothing changes; at most one process is started, never with the flag that would start another;
  and after a start that succeeds, a second one finds the process as long as it lives.
\<close>

theorem daemonize_once:
  assumes "daemonize env kill exe start args pidPath logPath d = ((err, d'), started)"
  shows "(\<forall>pid. readPID env kill d pidPath = Inr pid \<longrightarrow> started = [] \<and> d' = d \<and> err \<noteq> None)
    \<and> length started \<le> 1 \<and> (\<forall>as \<in> set started. as = filterBackgroundFlag args \<and> ''--background'' \<notin> set as \<and> ''-b'' \<notin> set as)
    \<and> (err = None \<longrightarrow> (\<exists>x pid. exe = Inr x \<and> start x (filterBackgroundFlag args) = Inr pid
        \<and> d' pidPath = Some (bytes_of (Itoa pid)) \<and> started = [filterBackgroundFlag args]
        \<and> (0 \<le> pid \<longrightarrow> pid < 2 ^ 63 \<longrightarrow> (\<forall>e. kill' pid \<noteq> KillError e) \<longrightarrow>
             fault env' (SysOpen pidPath) = None \<longrightarrow> fault env' (SysReadAt pidPath 0) = None \<longrightarrow>
             snd (daemonize env' kill' exe' start' args' pidPath logPath' d') = [])))"
proof -
  have second: "snd (daemonize env' kill' exe' start' args' pidPath logPath' d') = []"
    if "d' pidPath = Some (bytes_of (Itoa pid))" "0 \<le> pid" "pid < 2 ^ 63" "\<forall>e. kill' pid \<noteq> KillError e"
      "fault env' (SysOpen pidPath) = None" "fault env' (SysReadAt pidPath 0) = None" for pid
    using readPID_written [of d' pidPath pid env' kill'] that by (cases "kill' pid") (simp_all add: daemonize_def)
  have w: "d2 pidPath = Some (bytes_of (Itoa pid))" if "writePID env pidPath pid d1 = (None, d2)" for pid d1 d2
    using that os_WriteFile_None by (fastforce simp: writePID_def split: option.splits)
  have flags: "''--background'' \<notin> set (filterBackgroundFlag args)" "''-b'' \<notin> set (filterBackgroundFlag args)"
    by (simp_all add: filterBackgroundFlag_def)
  show ?thesis
  proof (cases "readPID env kill d pidPath")
    case (Inr pid)
    then show ?thesis using assms by (auto simp: daemonize_def)
  next
    case (Inl e)
    show ?thesis
    proof (cases "err = None")
      case True
      then obtain x pid d1 where s: "exe = Inr x" "start x (filterBackgroundFlag args) = Inr pid"
        "writePID env pidPath pid d1 = (None, d')" "started = [filterBackgroundFlag args]"
        using assms Inl unfolding daemonize_def Let_def by (auto split: option.splits sum.splits prod.splits if_splits)
      then show ?thesis using w [OF s(3)] second Inl flags by auto
    next
      case False
      then have "started = [] \<or> started = [filterBackgroundFlag args]"
        using assms Inl unfolding daemonize_def Let_def by (auto split: option.splits sum.splits prod.splits if_splits)
      then show ?thesis using False Inl flags by auto
    qed
  qed
qed

theorem daemonize_once_witness:
  "\<exists>d'. daemonize io_ok (\<lambda>_. KillOk) (Inr ''slimnode'') (\<lambda>_ _. Inr 42) [''mount'', ''-b''] ''s/pid'' ''s/log'' Map.empty
       = ((None, d'), [[''mount'']])
     \<and> snd (daemonize io_ok (\<lambda>_. KillOk) (Inr ''slimnode'') (\<lambda>_ _. Inr 43) [''mount'', ''-b''] ''s/pid'' ''s/log'' d') = []"
proof -
  let ?run = "daemonize io_ok (\<lambda>_. KillOk) (Inr ''slimnode'') (\<lambda>_ _. Inr 42) [''mount'', ''-b''] ''s/pid'' ''s/log'' Map.empty"
  obtain d' where x: "?run = ((None, d'), [[''mount'']])"
    by (simp add: daemonize_def readPID_def os_ReadFile_def os_Open_def Let_def filterBackgroundFlag_def writePID_def os_WriteFile_ok io_ok_def)
  from daemonize_once [OF x, of "\<lambda>_. KillOk" io_ok "Inr ''slimnode''" "\<lambda>_ _. Inr 43" "[''mount'', ''-b'']" "''s/log''"]
  show ?thesis using x by auto
qed

end
