(* ===== verification/Services.thy ===== *)
theory Services
  imports Daemon Server_Cmd
begin

text \<open>
  The loops that run until they are told to stop: \<open>CacheManager.Run\<close>, \<open>ManifestPoller.Run\<close>,
  \<open>CompactionManager.Run\<close> and \<open>Syncer.Run\<close> of \<open>internal/daemon\<close> and \<open>runAutoReload\<close> of
  \<open>internal/server\<close>. Each waits for the next tick or for the end of its context; what a tick
  meets (system calls, the database, what other programs did to the disk since the last one) is
  part of the tick. The locale \<open>ticker_service\<close> lifts what a tick keeps to whole runs and is
  interpreted for each loop.
\<close>

section \<open>The loops\<close>

text \<open>\<open>None\<close> is the end of the context, \<open>Some t\<close> a tick; without an event the loop still waits.\<close>

fun ticker_loop :: "('e \<Rightarrow> 's \<Rightarrow> 's) \<Rightarrow> 'e option list \<Rightarrow> 's \<Rightarrow> 's" where
  "ticker_loop tick [] s = s"
| "ticker_loop tick (None # es) s = s"
| "ticker_loop tick (Some e # es) s = ticker_loop tick es (tick e s)"

locale ticker_service =
  fixes tick :: "'e \<Rightarrow> 's \<Rightarrow> 's" and good :: "'e \<Rightarrow> bool" and inv :: "'s \<Rightarrow> bool"
  assumes keeps: "good e \<Longrightarrow> inv s \<Longrightarrow> inv (tick e s)"
begin

lemma loop_inv: "list_all (pred_option good) es \<Longrightarrow> inv s \<Longrightarrow> inv (ticker_loop tick es s)"
  using keeps by (induction tick es s rule: ticker_loop.induct) auto

end

text \<open>The daemons of the client.\<close>

record daemon_tick =
  dt_io :: io_env
  dt_db :: db_env
  dt_now :: time
  dt_fetch :: "string \<Rightarrow> (Manifest option \<times> string) result"
  dt_manifest :: "Manifest option"

definition NewCacheManager :: "DiskCache \<Rightarrow> int \<Rightarrow> CacheManager" where
  "NewCacheManager ca maxBytes = \<lparr>cm_ca = ca, cm_maxBytes = maxBytes\<rparr>"

definition evict_tick :: "CacheManager \<Rightarrow> daemon_tick \<Rightarrow> world \<Rightarrow> world" where
  "evict_tick m t w = snd (evictIfNeeded (dt_io t) (dt_db t) m w)"

definition CacheManager_Run :: "CacheManager \<Rightarrow> daemon_tick option list \<Rightarrow> world \<Rightarrow> world" where
  "CacheManager_Run m = ticker_loop (evict_tick m)"

definition NewManifestPoller :: "Manifest option \<Rightarrow> ManifestPoller" where
  "NewManifestPoller initial = \<lparr>current = initial, etag = []\<rparr>"

definition poll_tick :: "daemon_tick \<Rightarrow> ManifestPoller \<times> Row list \<Rightarrow> ManifestPoller \<times> Row list" where
  "poll_tick t w = snd (poll (dt_db t) (dt_fetch t) (dt_now t) w)"

definition ManifestPoller_Run :: "daemon_tick option list \<Rightarrow> ManifestPoller \<times> Row list \<Rightarrow> ManifestPoller \<times> Row list" where
  "ManifestPoller_Run = ticker_loop poll_tick"

definition NewCompactionManager :: "string \<Rightarrow> string \<Rightarrow> CompactionManager" where
  "NewCompactionManager localDir stateFile = \<lparr>co_localDir = localDir, co_stateFile = stateFile\<rparr>"

definition compact_tick :: "CompactionManager \<Rightarrow> daemon_tick \<Rightarrow> world \<Rightarrow> world" where
  "compact_tick m t w = snd (Compact (dt_io t) (dt_db t) m (dt_manifest t) w)"

text \<open>With the trigger \<open>manual\<close> it compacts once and returns, with any other it waits for ticks.\<close>

definition TriggerManual :: string where
  "TriggerManual = ''manual''"

definition CompactionManager_Run ::
  "CompactionManager \<Rightarrow> string \<Rightarrow> daemon_tick \<Rightarrow> daemon_tick option list \<Rightarrow> world \<Rightarrow> go_error option \<times> world" where
  "CompactionManager_Run m trigger t es w =
     (if trigger = TriggerManual then Compact (dt_io t) (dt_db t) m (dt_manifest t) w
      else (None, ticker_loop (compact_tick m) es w))"

text \<open>
  The loops of the server. A tick is the system that it meets and what the node did to its
  disk since the tick before.
\<close>

type_synonym server_tick = "io_env \<times> (disk \<Rightarrow> disk)"

definition reload_tick ::
  "(bytes \<Rightarrow> Manifest result) \<Rightarrow> (bytes \<Rightarrow> Manifest result) \<Rightarrow> (Manifest \<Rightarrow> bytes result) \<Rightarrow> server_tick
     \<Rightarrow> string list \<times> FileServer \<times> disk \<Rightarrow> string list \<times> FileServer \<times> disk" where
  "reload_tick json_decode json_Unmarshal json_encode = (\<lambda>(env, node) (lastFiles, s, d).
     maybeReloadManifest json_decode json_Unmarshal json_encode env (lastFiles, s, node d))"

definition runAutoReload ::
  "(bytes \<Rightarrow> Manifest result) \<Rightarrow> (bytes \<Rightarrow> Manifest result) \<Rightarrow> (Manifest \<Rightarrow> bytes result) \<Rightarrow> server_tick option list
     \<Rightarrow> FileServer \<times> disk \<Rightarrow> string list \<times> FileServer \<times> disk" where
  "runAutoReload json_decode json_Unmarshal json_encode es = (\<lambda>(s, d).
     ticker_loop (reload_tick json_decode json_Unmarshal json_encode) es ([], s, d))"

text \<open>\<open>None\<close>: a round whose listing of the bucket never ends.\<close>

definition sync_tick ::
  "(Manifest \<Rightarrow> bytes result) \<Rightarrow> server_tick \<Rightarrow> (Syncer \<times> disk \<times> bucket) option \<Rightarrow> (Syncer \<times> disk \<times> bucket) option" where
  "sync_tick json_encode = (\<lambda>(env, node) st.
     case st of
       None \<Rightarrow> None
     | Some (s, d, b) \<Rightarrow> map_option snd (sync json_encode env s (node d) b))"

definition Syncer_Run ::
  "(Manifest \<Rightarrow> bytes result) \<Rightarrow> server_tick \<Rightarrow> server_tick option list \<Rightarrow> Syncer \<times> disk \<times> bucket
     \<Rightarrow> (Syncer \<times> disk \<times> bucket) option" where
  "Syncer_Run json_encode first es st = ticker_loop (sync_tick json_encode) es (sync_tick json_encode first (Some st))"

section \<open>The node at work\<close>

text \<open>
  What the node may do to its blocks directory: anything but change a file that is already
  finalized.
\<close>

definition grows :: "string \<Rightarrow> disk \<Rightarrow> disk \<Rightarrow> bool" where
  "grows dir d d' \<longleftrightarrow> finite (dom d') \<and> (\<forall>n. finalized d dir n \<longrightarrow> d' (path_Join dir n) = d (path_Join dir n))"

lemma finalized_blk:
  assumes "FinalizedFileThreshold \<le> file_size d (path_Join dir (''blk'' @ num @ ''.dat''))" "CHR ''/'' \<notin> set num"
  shows "finalized d dir (''blk'' @ num @ ''.dat'')"
  using assms by (auto simp: finalized_def file_size_def FinalizedFileThreshold_def MaxBlockFileSize_def split: option.splits)

lemma grows_finalized:
  assumes "grows dir d d'" "finalized d dir n"
  shows "finalized d' dir n"
proof -
  obtain num where num: "n = ''blk'' @ num @ ''.dat'' \<or> n = ''rev'' @ num @ ''.dat'' \<and> num \<noteq> []" "CHR ''/'' \<notin> set num"
    "d (path_Join dir n) \<noteq> None" "FinalizedFileThreshold \<le> file_size d (path_Join dir (''blk'' @ num @ ''.dat''))"
    using assms(2) by (auto simp: finalized_def)
  have "d' (path_Join dir (''blk'' @ num @ ''.dat'')) = d (path_Join dir (''blk'' @ num @ ''.dat''))"
    "d' (path_Join dir n) = d (path_Join dir n)"
    using assms finalized_blk [OF num(4,2)] by (auto simp: grows_def)
  then show ?thesis unfolding finalized_def using num by (intro exI [of _ num]) (simp add: file_size_def)
qed

text \<open>A list of files that says the truth: finalized files with their size and SHA-256.\<close>

definition listing_exact :: "disk \<Rightarrow> string \<Rightarrow> ManifestFile list \<Rightarrow> bool" where
  "listing_exact d dir fs \<longleftrightarrow> (\<forall>f \<in> set fs. finalized d dir (mf_Name f) \<and> (\<exists>c. d (path_Join dir (mf_Name f)) = Some c
     \<and> mf_Size f = int (length c) \<and> mf_SHA256 f = EncodeToString (Sum256 c)))"

lemma listing_exact_grows: "grows dir d d' \<Longrightarrow> listing_exact d dir fs \<Longrightarrow> listing_exact d' dir fs"
  using grows_finalized unfolding listing_exact_def grows_def by metis

lemma listing_exact_hashes: "listing_exact d dir fs \<Longrightarrow> hashes_ok d dir fs"
  by (auto simp: listing_exact_def hashes_ok_def)

lemma same_dat_grows: "\<forall>q. last q = CHR ''t'' \<longrightarrow> d' q = d q \<Longrightarrow> finite (dom d') \<Longrightarrow> grows dir d d'"
  using finalized_last unfolding grows_def by blast

lemma generated_listing:
  assumes "finite (dom d)" "fault env (SysReadDir dir) = None" "GenerateManifest env d cfg dir ch = Inr m"
    and "\<forall>p. cfg_prev cfg = Some p \<longrightarrow> listing_exact d dir (mn_Files p)"
  shows "listing_exact d dir (mn_Files m)"
proof -
  have "\<forall>p. cfg_prev cfg = Some p \<longrightarrow> hashes_ok d dir (mn_Files p)" using assms(4) listing_exact_hashes by blast
  from GenerateManifest_exact [OF assms(1,2) this assms(3)] show ?thesis
    unfolding listing_exact_def by (metis image_eqI mem_Collect_eq)
qed

section \<open>What the loops keep\<close>

text \<open>The daemons of the client keep the table well formed, and eviction only removes files.\<close>

lemma upsert_fold_inv: "db_inv db \<Longrightarrow> db_inv (foldl (\<lambda>db f. snd (UpsertFile denv (g f) db)) db fs)"
proof (induction fs arbitrary: db)
  case (Cons f fs)
  then have "db_inv (snd (UpsertFile denv (g f) db))" using store_ops_inv(1) by (metis prod.collapse)
  then show ?case using Cons.IH by simp
qed simp

lemma delete_fold_inv: "db_inv db \<Longrightarrow> db_inv (foldl (\<lambda>db f. snd (DeleteFile denv (g f) db)) db fs)"
proof (induction fs arbitrary: db)
  case (Cons f fs)
  then have "db_inv (snd (DeleteFile denv (g f) db))" using store_ops_inv(4) by (metis prod.collapse)
  then show ?case using Cons.IH by simp
qed simp

interpretation poller: ticker_service poll_tick "\<lambda>_. True" "\<lambda>(p, db). db_inv db"
  by unfold_locales
    (auto simp: poll_tick_def poll_def Let_def upsert_fold_inv delete_fold_inv split: sum.splits option.splits prod.splits)

lemma Compact_inv:
  assumes "Compact env denv m mf (d, db) = (err, (d', db'))" "db_inv db"
  shows "db_inv db'"
proof (cases "db' = db")
  case False
  then obtain es d1 d2 where "replaceFiles env denv (co_localDir m) es (d1, db) = (d2, db')"
    using assms(1) by (auto simp: Compact_def split: option.splits sum.splits prod.splits if_splits)
  then show ?thesis using replaceFiles_effect assms(2) by blast
qed (use assms(2) in simp)

interpretation compaction: ticker_service "compact_tick m" "\<lambda>_. True" "\<lambda>w. db_inv (snd w)"
  by unfold_locales (metis Compact_inv compact_tick_def prod.collapse)

lemma evict_loop_inv:
  "evict_loop env denv c es (d, db) = (ev, (d', db')) \<Longrightarrow> db_inv db \<Longrightarrow> db_inv db'"
proof (induction es arbitrary: d db ev)
  case (Cons e es)
  obtain err d1 db1 where rm: "Remove_file env denv c (fe_Filename e) (d, db) = (err, (d1, db1))" by (metis prod.exhaust)
  obtain ev1 where lp: "evict_loop env denv c es (d1, db1) = (ev1, (d', db'))"
    using Cons.prems rm by (auto split: option.splits prod.splits)
  have "db_inv db1"
    using rm store_ops_inv(2) [OF Cons.prems(2)] Cons.prems(2)
    by (auto simp: Remove_file_def split: option.splits prod.splits if_splits)
  with Cons.IH [OF lp] show ?case .
qed simp

lemma evict_tick_keeps:
  assumes "honest_io (dt_io t)"
  shows "fst (evict_tick m t w) \<subseteq>\<^sub>m fst w \<and> (db_inv (snd w) \<longrightarrow> db_inv (snd (evict_tick m t w)))"
proof -
  obtain d db where w: "w = (d, db)" by fastforce
  show ?thesis
  proof (cases "evict_tick m t w = w")
    case False
    then obtain es ev where "evict_loop (dt_io t) (dt_db t) (cm_ca m) es (d, db) = (ev, evict_tick m t w)"
      using w by (auto simp: evict_tick_def evictIfNeeded_def ForceEvict_def Let_def split: if_splits sum.splits prod.splits)
    then show ?thesis using evict_loop_inv evict_loop_shrinks [OF _ assms] w by (metis fst_conv prod.collapse snd_conv)
  qed simp
qed

interpretation cache_manager: ticker_service "evict_tick m" "\<lambda>t. honest_io (dt_io t)" "\<lambda>w. fst w \<subseteq>\<^sub>m d0 \<and> db_inv (snd w)"
  by unfold_locales (metis evict_tick_keeps map_le_trans)

section \<open>The server while the node works\<close>

definition srv_exact :: "(bytes \<Rightarrow> Manifest result) \<Rightarrow> string \<Rightarrow> disk \<Rightarrow> FileServer \<Rightarrow> bool" where
  "srv_exact json_decode dir d s \<longleftrightarrow> srv_blocksDir s = dir
     \<and> (\<forall>n h. fileHashes s n = Some h \<longrightarrow> finalized d dir n \<and> (\<exists>c. d (path_Join dir n) = Some c \<and> h = EncodeToString (Sum256 c)))
     \<and> (\<forall>m. json_decode (manifestJSON s) = Inr m \<longrightarrow> listing_exact d dir (mn_Files m))"

lemma srv_exact_grows:
  assumes "srv_exact dec dir d s" "grows dir d d'"
  shows "srv_exact dec dir d' s"
proof -
  have "finalized d' dir n \<and> (\<exists>c. d' (path_Join dir n) = Some c \<and> h = EncodeToString (Sum256 c))" if "fileHashes s n = Some h" for n h
    using assms that grows_finalized [OF assms(2)] unfolding srv_exact_def grows_def by metis
  then show ?thesis using assms listing_exact_grows [OF assms(2)] by (simp add: srv_exact_def)
qed

lemma loaded_exact:
  assumes "loadManifest unm env d s = (None, s')" "d (path_Join (srv_manifestDir s) (srv_manifestName s)) = Some bs"
    and "unm bs = Inr m" "dec bs = Inr m" "listing_exact d (srv_blocksDir s) (mn_Files m)"
  shows "srv_exact dec (srv_blocksDir s) d s'"
proof -
  have l: "manifestJSON s' = bs" "fileHashes s' = file_hash_map (mn_Files m)" "srv_blocksDir s' = srv_blocksDir s"
    using loadManifest_None [OF assms(1)] assms(2,3) by auto
  have "finalized d (srv_blocksDir s) n \<and> (\<exists>c. d (path_Join (srv_blocksDir s) n) = Some c \<and> h = EncodeToString (Sum256 c))"
    if "file_hash_map (mn_Files m) n = Some h" for n h
    using file_hash_map_Some [OF that] assms(5) by (auto simp: listing_exact_def)
  then show ?thesis using l assms(4,5) by (simp add: srv_exact_def)
qed

lemma loadManifest_names:
  "loadManifest unm env d s = (err, s') \<Longrightarrow> srv_manifestDir s' = srv_manifestDir s \<and> srv_manifestName s' = srv_manifestName s"
  by (auto simp: loadManifest_def split: sum.splits)

definition reload_inv ::
  "(bytes \<Rightarrow> Manifest result) \<Rightarrow> (Manifest \<Rightarrow> bytes result) \<Rightarrow> string \<Rightarrow> string list \<times> FileServer \<times> disk \<Rightarrow> bool" where
  "reload_inv dec enc dir = (\<lambda>(lastFiles, s, d). srv_exact dec dir d s \<and> finite (dom d)
     \<and> srv_manifestName s \<noteq> [] \<and> last (srv_manifestName s) \<notin> {CHR ''t'', CHR ''p''}
     \<and> (\<forall>m bs. enc m = Inr bs \<longrightarrow> dec bs = Inr m))"

definition node_tick :: "string \<Rightarrow> server_tick \<Rightarrow> bool" where
  "node_tick dir = (\<lambda>(env, node). fault env (SysReadDir dir) = None \<and> (\<forall>d. finite (dom d) \<longrightarrow> grows dir d (node d)))"

lemma reload_exact:
  assumes "maybeReloadManifest dec dec enc env (lf, s, d) = (lf', s', d')" "reload_inv dec enc dir (lf, s, d)"
    and "fault env (SysReadDir dir) = None"
  shows "reload_inv dec enc dir (lf', s', d')"
proof -
  have inv: "srv_exact dec dir d s" "finite (dom d)" "srv_manifestName s \<noteq> []"
    "last (srv_manifestName s) \<notin> {CHR ''t'', CHR ''p''}" "\<forall>m bs. enc m = Inr bs \<longrightarrow> dec bs = Inr m"
    using assms(2) by (auto simp: reload_inv_def)
  have dir: "srv_blocksDir s = dir" using inv(1) by (simp add: srv_exact_def)
  from reload_cases [OF assms(1) inv(3,4)] show ?thesis
  proof (elim disjE exE conjE)
    assume "s' = s" and same: "\<forall>q. last q = CHR ''t'' \<longrightarrow> d' q = d q" and "finite (dom d) \<longrightarrow> finite (dom d')"
    then show ?thesis using inv srv_exact_grows [OF inv(1) same_dat_grows [OF same]] by (simp add: reload_inv_def)
  next
    fix m bs
    assume same: "\<forall>q. last q = CHR ''t'' \<longrightarrow> d' q = d q" and g: "GenerateManifest env d (reload_cfg dec s) (srv_blocksDir s) (srv_chain s) = Inr m"
      and bs: "enc m = Inr bs" and l: "loadManifest dec env d' s = (None, s')"
      "d' (path_Join (srv_manifestDir s) (srv_manifestName s)) = Some bs" and fin: "finite (dom d) \<longrightarrow> finite (dom d')"
    have "\<forall>p. cfg_prev (reload_cfg dec s) = Some p \<longrightarrow> listing_exact d dir (mn_Files p)"
      using inv(1) by (auto simp: reload_cfg_def srv_exact_def Parse_def result_iffs split: if_splits sum.splits dest!: wrapE_eq_Inr [THEN iffD1])
    from generated_listing [OF inv(2) assms(3) g [unfolded dir] this] have "listing_exact d' dir (mn_Files m)"
      using listing_exact_grows [OF same_dat_grows [OF same]] fin inv(2) by blast
    moreover have "dec bs = Inr m" using inv(5) bs by blast
    ultimately have "srv_exact dec dir d' s'" using loaded_exact [OF l, of m dec] dir by simp
    then show ?thesis using inv fin loadManifest_names [OF l(1)] by (simp add: reload_inv_def)
  qed
qed

interpretation auto_reload: ticker_service "reload_tick dec dec enc" "node_tick dir" "reload_inv dec enc dir"
proof
  fix t w assume t: "node_tick dir t" and w: "reload_inv dec enc dir w"
  obtain env node where tt: "t = (env, node)" by fastforce
  obtain lf s d where ww: "w = (lf, s, d)" by (metis prod.exhaust)
  obtain lf' s' d' where r: "maybeReloadManifest dec dec enc env (lf, s, node d) = (lf', s', d')" by (metis prod.exhaust)
  have fin: "finite (dom d)" and ex: "srv_exact dec dir d s" using w ww by (auto simp: reload_inv_def)
  have gr: "grows dir d (node d)" and rd: "fault env (SysReadDir dir) = None" using t fin tt by (auto simp: node_tick_def)
  have "finite (dom (node d))" using gr by (simp add: grows_def)
  with srv_exact_grows [OF ex gr] have "reload_inv dec enc dir (lf, s, node d)" using w ww by (simp add: reload_inv_def)
  then show "reload_inv dec enc dir (reload_tick dec dec enc t w)"
    using reload_exact [OF r _ rd] r tt ww by (simp add: reload_tick_def)
qed

lemma exact_file_answer:
  assumes "srv_exact dec dir d s" "StatusCode (serve_routes multi io d s (''/v1/file/'' @ f) rq) \<in> {200, 206}"
  shows "\<exists>c. d (path_Join dir f) = Some c
    \<and> serve_routes multi io d s (''/v1/file/'' @ f) rq =
        ServeContent multi io (path_Join dir f) [''X-SHA256'' \<mapsto> EncodeToString (Sum256 c)] rq c"
proof -
  note h = routes_file [OF assms(2)]
  obtain c hash where c: "d (path_Join (srv_blocksDir s) f) = Some c"
    "handleFile multi io d s f rq = ServeContent multi io (path_Join (srv_blocksDir s) f) [''X-SHA256'' \<mapsto> hash] rq c"
    "hash = (case fileHashes s f of Some h \<Rightarrow> if h = [] then EncodeToString (Sum256 c) else h | None \<Rightarrow> EncodeToString (Sum256 c))"
    using handleFile_ok [OF assms(2) [unfolded h]] by blast
  have dir: "srv_blocksDir s = dir" using assms(1) by (simp add: srv_exact_def)
  have "hash = EncodeToString (Sum256 c)"
  proof (cases "fileHashes s f")
    case (Some k)
    then have "k = EncodeToString (Sum256 c)" using assms(1) c(1) dir by (fastforce simp: srv_exact_def)
    then show ?thesis using c(3) Some by simp
  qed (use c(3) in simp)
  then show ?thesis using c h dir by auto
qed

lemma started_exact:
  assumes "finite (dom d)" "\<forall>c. fault env c = None" "\<forall>m bs. enc m = Inr bs \<longrightarrow> dec bs = Inr m"
    and "BlockmapGenCmd_Execute env \<lparr>bg_BlocksDir = dir, bg_Output = out, bg_Chain = ch\<rparr> d = (None, d1)"
    and "ManifestGenCmd_Execute enc env \<lparr>mg_BlocksDir = dir, mg_OutputDir = mdir, mg_OutputName = mname, mg_Chain = ch,
           mg_BlockmapDir = out, mg_SnapshotDir = snap\<rparr> d1 = (None, d2)"
    and "mname \<noteq> []" "last mname \<notin> {CHR ''t'', CHR ''p''}"
    and "ServeCmd_start dec env d2 \<lparr>sv_BlocksDir = dir, sv_ManifestDir = mdir, sv_ManifestName = mname, sv_BlockmapDir = out,
           sv_SnapshotDir = snap, sv_Chain = ch\<rparr> = Inr s"
  shows "reload_inv dec enc dir ([], s, d2)"
proof -
  obtain magic res where gb: "GenerateBlockmaps env dir out magic d = (Inr res, d1)"
    using assms(4) by (auto simp: BlockmapGenCmd_Execute_def split: sum.splits prod.splits)
  let ?cfg = "\<lparr>cfg_blockmapDir = out, cfg_snapshotDir = snap, cfg_baseURL = [], cfg_prev = None\<rparr>"
  obtain m where gm: "GenerateManifest env d1 ?cfg dir ch = Inr m"
    and wm: "WriteFile_manifest enc env mdir mname m d1 = (None, d2)"
    using assms(5) by (auto simp: ManifestGenCmd_Execute_def split: sum.splits prod.splits option.splits)
  have fin1: "finite (dom d1)" by (rule GenerateBlockmaps_disk(1) [OF gb assms(1)])
  have fin2: "finite (dom d2)" by (rule manifest_written_finite [OF wm fin1])
  note t2 = manifest_written_same [OF wm assms(6,7)]
  obtain bs where bs: "enc m = Inr bs" "d2 (path_Join mdir mname) = Some bs" using t2(2) by blast
  have "listing_exact d1 dir (mn_Files m)" by (rule generated_listing [OF fin1 _ gm]) (use assms(2) in simp_all)
  then have le: "listing_exact d2 dir (mn_Files m)" by (rule listing_exact_grows [OF same_dat_grows [OF t2(1) fin2]])
  let ?s0 = "NewFileServer dir mdir mname out snap (if ch \<noteq> [] then Some ch else None)"
  have ld: "loadManifest dec env d2 ?s0 = (None, s)"
    using assms(8) by (auto simp: ServeCmd_start_def split: prod.splits option.splits)
  have f: "srv_manifestDir ?s0 = mdir" "srv_manifestName ?s0 = mname" "srv_blocksDir ?s0 = dir"
    by (simp_all add: NewFileServer_def)
  have "dec bs = Inr m" using assms(3) bs(1) by blast
  then have "srv_exact dec dir d2 s" using loaded_exact [OF ld, of bs m dec] bs(2) le f by simp
  then show ?thesis using fin2 assms(3,6,7) loadManifest_names [OF ld] f by (simp add: reload_inv_def)
qed

section \<open>The bucket while the node works\<close>

definition bucket_exact :: "string \<Rightarrow> disk \<Rightarrow> bucket \<Rightarrow> bool" where
  "bucket_exact dir d b \<longleftrightarrow>
     (\<forall>n. last n = CHR ''t'' \<longrightarrow> b n \<noteq> None \<longrightarrow> finalized d dir n \<and> body b n = d (path_Join dir n))"

definition sync_inv ::
  "(bytes \<Rightarrow> Manifest result) \<Rightarrow> (Manifest \<Rightarrow> bytes result) \<Rightarrow> string \<Rightarrow> Syncer \<times> disk \<times> bucket \<Rightarrow> bool" where
  "sync_inv dec enc dir = (\<lambda>(s, d, b). sy_blocksDir s = dir \<and> uploader (sy_s3 s) \<and> finite (dom d) \<and> finite (dom b)
     \<and> (\<forall>mdir name. sy_manifestPath s = Some (mdir, name) \<longrightarrow> name \<noteq> [] \<and> last name \<notin> {CHR ''t'', CHR ''p''})
     \<and> bucket_exact dir d b \<and> published_ok dec b
     \<and> (\<forall>m. sy_lastManifest s = Some m \<longrightarrow> listing_exact d dir (mn_Files m)) \<and> (\<forall>m bs. enc m = Inr bs \<longrightarrow> dec bs = Inr m))"

lemma bucket_exact_ok: "bucket_exact dir d b \<Longrightarrow> bucket_ok d dir b"
  using finalized_name unfolding bucket_exact_def bucket_ok_def by blast

lemma bucket_exact_grows:
  assumes "bucket_exact dir d b" "grows dir d d'"
  shows "bucket_exact dir d' b"
  using assms grows_finalized [OF assms(2)] unfolding bucket_exact_def grows_def by metis

lemma sync_inv_grows:
  assumes "sync_inv dec enc dir (s, d, b)" "grows dir d d'"
  shows "sync_inv dec enc dir (s, d', b)"
  using assms bucket_exact_grows [OF _ assms(2)] listing_exact_grows [OF assms(2)] by (auto simp: sync_inv_def grows_def)

lemma uploads_exact:
  assumes "uploads d dir new b b'" "bucket_exact dir d b" "new \<subseteq> {n. finalized d dir n}"
  shows "bucket_exact dir d b'"
  using assms body_cong unfolding bucket_exact_def uploads_def by (metis mem_Collect_eq subsetD)

lemma uploadManifest_fields:
  assumes "syncer_uploadManifest enc env s d b = (err, s', d', b')"
  shows "sy_blocksDir s' = sy_blocksDir s" "sy_s3 s' = sy_s3 s" "sy_manifestPath s' = sy_manifestPath s"
    and "sy_lastManifest s' = sy_lastManifest s
      \<or> (\<exists>m. GenerateManifest env d (manifestOpts s) (sy_blocksDir s) (sy_chain s) = Inr m \<and> sy_lastManifest s' = Some m)"
    and "finite (dom d) \<Longrightarrow> finite (dom d')"
    and "uploader (sy_s3 s) \<Longrightarrow> finite (dom b) \<Longrightarrow> finite (dom b')"
proof -
  have "snd (WriteFile_manifest enc env dir name m d) = d' \<Longrightarrow> finite (dom d) \<Longrightarrow> finite (dom d')" for dir name m
    using manifest_written_finite by (metis prod.collapse)
  then show "finite (dom d) \<Longrightarrow> finite (dom d')"
    using assms by (auto simp: syncer_uploadManifest_def Let_def split: sum.splits option.splits prod.splits)
  have "finite (dom b')" if "up_UploadManifest (sy_s3 s) k x b = (e, b')" "uploader (sy_s3 s)" "finite (dom b)" for k x e
    using put_effect_dom [OF uploader.UploadManifest_effect [OF that(2,1)]] that(3) by (meson finite.insertI finite_subset)
  then show "uploader (sy_s3 s) \<Longrightarrow> finite (dom b) \<Longrightarrow> finite (dom b')"
    using assms by (auto simp: syncer_uploadManifest_def Let_def split: sum.splits option.splits prod.splits)
qed (use assms in \<open>auto simp: syncer_uploadManifest_def Let_def split: sum.splits option.splits prod.splits\<close>)

lemma sync_keeps:
  assumes "sync enc env s d b = Some (err, s', d', b')" "sync_inv dec enc dir (s, d, b)" "fault env (SysReadDir dir) = None"
  shows "sync_inv dec enc dir (s', d', b')"
proof -
  have inv: "sy_blocksDir s = dir" "uploader (sy_s3 s)" "finite (dom d)" "finite (dom b)"
    "\<forall>mdir name. sy_manifestPath s = Some (mdir, name) \<longrightarrow> name \<noteq> [] \<and> last name \<notin> {CHR ''t'', CHR ''p''}"
    "bucket_exact dir d b" "published_ok dec b" "\<forall>m. sy_lastManifest s = Some m \<longrightarrow> listing_exact d dir (mn_Files m)"
    "\<forall>m bs. enc m = Inr bs \<longrightarrow> dec bs = Inr m"
    using assms(2) by (auto simp: sync_inv_def)
  have rd: "fault env (SysReadDir (sy_blocksDir s)) = None" using assms(3) inv(1) by simp
  note bo = bucket_exact_ok [OF inv(6)]
  show ?thesis
  proof (rule uploader.sync_cases [OF inv(2) assms(1) refl inv(3,4) rd], goal_cases idle failed published)
    case idle
    then show ?thesis using assms(2) by simp
  next
    case (failed new)
    have "bucket_exact dir d b'" using uploads_exact [OF failed(3) [unfolded inv(1)] inv(6)] failed(6) inv(1) by blast
    moreover have "published_ok dec b'" using uploads_ok(2) [OF failed(3) [unfolded inv(1)] bo inv(7) failed(4)] .
    moreover have "finite (dom b')" using failed(3) inv(4) by (simp add: uploads_def)
    ultimately show ?thesis using failed(1,2) inv by (simp add: sync_inv_def)
  next
    case (published new b1)
    have b1: "bucket_exact dir d b1" using uploads_exact [OF published(1) [unfolded inv(1)] inv(6)] published(4) inv(1) by blast
    have p1: "published_ok dec b1" using uploads_ok(2) [OF published(1) [unfolded inv(1)] bo inv(7) published(2)] .
    have f1: "finite (dom b1)" using published(1) inv(4) by (simp add: uploads_def)
    have ho: "\<forall>m. sy_lastManifest s = Some m \<longrightarrow> hashes_ok d (sy_blocksDir s) (mn_Files m)"
      using inv(1,8) listing_exact_hashes by blast
    have all: "\<forall>n. finalized d (sy_blocksDir s) n \<longrightarrow> body b1 n = d (path_Join (sy_blocksDir s) n)"
      using uploader.all_uploaded [OF inv(2) published(1) _ published(4,5)] bucket_exact_ok [OF b1] inv(1) by simp
    note r = uploader.uploadManifest_ok [OF inv(2) published(6) refl inv(3) rd inv(9,5) ho all p1]
    note fl = uploadManifest_fields [OF published(6)]
    have gr: "grows dir d d'" using same_dat_grows r fl(5) inv(3) by blast
    have key: "b' n = b1 n" if "last n = CHR ''t''" for n
    proof -
      have "n \<noteq> ''manifest.json''" using that by auto
      then show ?thesis using conjunct1 [OF conjunct2 [OF r]] by blast
    qed
    have "bucket_exact dir d b'"
      using b1 unfolding bucket_exact_def body_def by (simp add: key)
    then have "bucket_exact dir d' b'" by (rule bucket_exact_grows [OF _ gr])
    moreover have "listing_exact d dir (mn_Files m)" if "sy_lastManifest s' = Some m" for m
      using fl(4) that inv(1,8) generated_listing [OF inv(3) assms(3), of "manifestOpts s"] by (auto simp: manifestOpts_def)
    ultimately show ?thesis
      using r fl inv f1 listing_exact_grows [OF gr] by (auto simp: sync_inv_def grows_def)
  qed
qed

interpretation syncer_loop: ticker_service "sync_tick enc" "node_tick dir" "pred_option (sync_inv dec enc dir)"
proof
  fix t w assume t: "node_tick dir t" and w: "pred_option (sync_inv dec enc dir) w"
  obtain env node where tt: "t = (env, node)" by fastforce
  show "pred_option (sync_inv dec enc dir) (sync_tick enc t w)"
  proof (cases w)
    case (Some st)
    obtain s d b where st: "st = (s, d, b)" by (metis prod.exhaust)
    have inv: "sync_inv dec enc dir (s, d, b)" using w Some st by simp
    then have "grows dir d (node d)" and rd: "fault env (SysReadDir dir) = None"
      using t tt by (auto simp: node_tick_def sync_inv_def)
    then have inv': "sync_inv dec enc dir (s, node d, b)" using sync_inv_grows [OF inv] by blast
    have "sync_inv dec enc dir r" if "sync enc env s (node d) b = Some (err, r)" for err r
      using sync_keeps [OF _ inv' rd] that by (metis prod.exhaust)
    then show ?thesis using Some st tt by (cases "sync enc env s (node d) b") (auto simp: sync_tick_def)
  qed (use tt in \<open>simp add: sync_tick_def\<close>)
qed

section \<open>Properties\<close>

text \<open>
  C2. The archive stays truthful while the node works: from the set-up by the commands on, over any
  sequence of automatic reloads, whichever calls of them fail, and whatever the node does to files
  that are not finalized yet, every file that the server hands out carries the SHA-256 of the
  content that is handed out, and the manifest lists only finalized files, with the size and
  SHA-256 that they have on disk.
\<close>

theorem archive_stays_truthful:
  assumes "finite (dom d)" "\<forall>c. fault env c = None" "\<forall>m bs. enc m = Inr bs \<longrightarrow> dec bs = Inr m"
    and "BlockmapGenCmd_Execute env \<lparr>bg_BlocksDir = dir, bg_Output = out, bg_Chain = ch\<rparr> d = (None, d1)"
    and "ManifestGenCmd_Execute enc env \<lparr>mg_BlocksDir = dir, mg_OutputDir = mdir, mg_OutputName = mname, mg_Chain = ch,
           mg_BlockmapDir = out, mg_SnapshotDir = snap\<rparr> d1 = (None, d2)"
    and "mname \<noteq> []" "last mname \<notin> {CHR ''t'', CHR ''p''}"
    and "ServeCmd_start dec env d2 \<lparr>sv_BlocksDir = dir, sv_ManifestDir = mdir, sv_ManifestName = mname, sv_BlockmapDir = out,
           sv_SnapshotDir = snap, sv_Chain = ch\<rparr> = Inr s"
    and "list_all (pred_option (node_tick dir)) es" "runAutoReload dec dec enc es (s, d2) = (lf, s', d3)" "grows dir d3 d4"
  shows "(\<forall>f rq io multi. StatusCode (serve_routes multi io d4 s' (''/v1/file/'' @ f) rq) \<in> {200, 206} \<longrightarrow>
        (\<exists>c. d4 (path_Join dir f) = Some c \<and> serve_routes multi io d4 s' (''/v1/file/'' @ f) rq =
           ServeContent multi io (path_Join dir f) [''X-SHA256'' \<mapsto> EncodeToString (Sum256 c)] rq c))
    \<and> (\<forall>m. dec (manifestJSON s') = Inr m \<longrightarrow> listing_exact d4 dir (mn_Files m))"
proof -
  have "reload_inv dec enc dir (ticker_loop (reload_tick dec dec enc) es ([], s, d2))"
    by (rule auto_reload.loop_inv [OF assms(9) started_exact [OF assms(1-8)]])
  then have "srv_exact dec dir d3 s'" using assms(10) by (simp add: runAutoReload_def reload_inv_def)
  then have ex: "srv_exact dec dir d4 s'" by (rule srv_exact_grows [OF _ assms(11)])
  then show ?thesis using exact_file_answer [OF ex] by (simp add: srv_exact_def)
qed

theorem archive_stays_truthful_witness:
  "\<exists>d1 d2 m s enc lf s' d3. BlockmapGenCmd_Execute io_ok \<lparr>bg_BlocksDir = ''b'', bg_Output = ''m'', bg_Chain = ''mainnet''\<rparr>
         (example_frames 0xD9B4BEF9) = (None, d1)
     \<and> ManifestGenCmd_Execute enc io_ok \<lparr>mg_BlocksDir = ''b'', mg_OutputDir = ''w'', mg_OutputName = ''manifest.json'',
         mg_Chain = ''mainnet'', mg_BlockmapDir = ''m'', mg_SnapshotDir = []\<rparr> d1 = (None, d2)
     \<and> ServeCmd_start (\<lambda>_. Inr m) io_ok d2 \<lparr>sv_BlocksDir = ''b'', sv_ManifestDir = ''w'', sv_ManifestName = ''manifest.json'',
         sv_BlockmapDir = ''m'', sv_SnapshotDir = [], sv_Chain = ''mainnet''\<rparr> = Inr s
     \<and> runAutoReload (\<lambda>_. Inr m) (\<lambda>_. Inr m) enc [Some (io_ok, \<lambda>d. d), None] (s, d2) = (lf, s', d3)
     \<and> listing_exact d3 ''b'' (mn_Files m)"
proof -
  let ?d = "example_frames 0xD9B4BEF9"
  obtain d1 d2 m s enc where enc: "\<forall>x bs. enc x = Inr bs \<longrightarrow> x = m"
    and e1: "BlockmapGenCmd_Execute io_ok \<lparr>bg_BlocksDir = ''b'', bg_Output = ''m'', bg_Chain = ''mainnet''\<rparr> ?d = (None, d1)"
    and e2: "ManifestGenCmd_Execute enc io_ok \<lparr>mg_BlocksDir = ''b'', mg_OutputDir = ''w'', mg_OutputName = ''manifest.json'',
      mg_Chain = ''mainnet'', mg_BlockmapDir = ''m'', mg_SnapshotDir = []\<rparr> d1 = (None, d2)"
    and e3: "ServeCmd_start (\<lambda>_. Inr m) io_ok d2 \<lparr>sv_BlocksDir = ''b'', sv_ManifestDir = ''w'', sv_ManifestName = ''manifest.json'',
      sv_BlockmapDir = ''m'', sv_SnapshotDir = [], sv_Chain = ''mainnet''\<rparr> = Inr s"
    using example_archive by (elim exE conjE) (rule that, assumption+)
  have rt: "\<forall>x bs. enc x = Inr bs \<longrightarrow> (\<lambda>_. Inr m) bs = Inr x" using enc by auto
  have fin: "finite (dom ?d)" by (simp add: example_frames_def)
  let ?es = "[Some (io_ok, \<lambda>d. d), None]"
  have es: "list_all (pred_option (node_tick ''b'')) ?es" by (simp add: node_tick_def grows_def)
  obtain lf s' d3 where run: "runAutoReload (\<lambda>_. Inr m) (\<lambda>_. Inr m) enc ?es (s, d2) = (lf, s', d3)" by (metis prod.exhaust)
  have "reload_inv (\<lambda>_. Inr m) enc ''b'' (ticker_loop (reload_tick (\<lambda>_. Inr m) (\<lambda>_. Inr m) enc) ?es ([], s, d2))"
    by (rule auto_reload.loop_inv [OF es started_exact [OF fin _ rt e1 e2 _ _ e3]]) simp_all
  then have "grows ''b'' d3 d3" using run by (simp add: runAutoReload_def reload_inv_def grows_def)
  then have "listing_exact d3 ''b'' (mn_Files m)"
    using archive_stays_truthful [OF fin _ rt e1 e2 _ _ e3 es run] by simp
  then show ?thesis using e1 e2 e3 run by blast
qed


definition example_sync_cmd :: SyncCmd where
  "example_sync_cmd = \<lparr>sc_BlocksDir = ''b'', sc_Chain = ''mainnet'', sc_Endpoint = [], sc_Region = ''us-east-1'',
     sc_BaseURL = ''http://a'', sc_ScanInterval = 600000000000, sc_BlockmapDir = [], sc_ManifestPath = None,
     sc_PathStyle = False, sc_StorageClass = ''STANDARD_IA''\<rparr>"


text \<open>
  The daemons of the client, run for as long as one likes under any faults of the system and the
  database, keep the table well formed; the cache manager never adds or changes a file.
\<close>

theorem daemons_keep_table:
  assumes "db_inv db" "list_all (pred_option (\<lambda>t. honest_io (dt_io t))) es"
  shows "db_inv (snd (CacheManager_Run m es (d, db))) \<and> fst (CacheManager_Run m es (d, db)) \<subseteq>\<^sub>m d
    \<and> db_inv (snd (ManifestPoller_Run es (p, db)))
    \<and> db_inv (snd (snd (CompactionManager_Run c trigger t es (d, db))))"
proof -
  have true: "list_all (pred_option (\<lambda>_. True)) (es :: daemon_tick option list)"
    by (simp add: list_all_iff pred_option_def)
  have "fst (ticker_loop (evict_tick m) es (d, db)) \<subseteq>\<^sub>m d \<and> db_inv (snd (ticker_loop (evict_tick m) es (d, db)))"
    using cache_manager.loop_inv [OF assms(2), where s = "(d, db)" and ?d0.0 = d] assms(1) by simp
  moreover have "db_inv (snd (ticker_loop poll_tick es (p, db)))"
    using poller.loop_inv [OF true, of "(p, db)"] assms(1) by (simp add: case_prod_beta)
  moreover have "db_inv (snd (ticker_loop (compact_tick c) es (d, db)))"
    using compaction.loop_inv [OF true, where s = "(d, db)"] assms(1) by simp
  moreover have "db_inv (snd (snd (Compact (dt_io t) (dt_db t) c (dt_manifest t) (d, db))))"
    using Compact_inv assms(1) by (metis prod.collapse)
  ultimately show ?thesis
    by (simp add: CacheManager_Run_def ManifestPoller_Run_def CompactionManager_Run_def)
qed

theorem daemons_keep_table_witness:
  "db_inv (snd (ManifestPoller_Run [Some \<lparr>dt_io = io_ok, dt_db = db_ok, dt_now = 0, dt_fetch = (\<lambda>_. Inr (Some empty_manifest, [])),
       dt_manifest = None\<rparr>, None] (NewManifestPoller None, [])))"
  using daemons_keep_table [of "[]" "[Some \<lparr>dt_io = io_ok, dt_db = db_ok, dt_now = 0, dt_fetch = (\<lambda>_. Inr (Some empty_manifest, [])),
       dt_manifest = None\<rparr>, None]"]
  by (simp add: db_inv_def)

end
