(* ===== verification/Spec2Isabelle.thy ===== *)
theory Spec2Isabelle
  imports Revfile_Record Fusefs_Run Fusefs_Session Daemon Server_Http Xorstrip Syncer Snapshot Config Mount Server_Cmd Client_Cmd Services
begin

text \<open>
  SlimNode lets a Bitcoin node run without its block files: a FUSE file system stands in for the
  blocks directory, and files that the node has filled up come from an archive server, by block, by
  range or whole. The repository has the client (\<open>slimnode\<close>: \<open>init\<close>, \<open>mount\<close>, \<open>compact\<close>, \<open>status\<close>,
  \<open>stop\<close>), the server (\<open>slimnode-server\<close>: \<open>blockmap-gen\<close>, \<open>manifest-gen\<close>, \<open>snapshot\<close>, \<open>serve\<close>,
  \<open>sync\<close>) and the tool \<open>xorstrip\<close>. This development models them from the sources, one theory per
  component, and proves the properties that make them work together. The names of definitions are
  those of the code (methods of different types with one name get a suffix or the type in front);
  paths below are relative to the root of the repository.

  How the model is built.
  \<^item> Functions of the code are functions on values. A method that changes its receiver takes its
    record and returns it updated. \<open>Prelude\<close> has errors (\<open>go_error\<close> with wrapping and \<open>errors.Is\<close>),
    results (\<open>Inl\<close> an error), readers as functions on the remaining bytes and writers with
    limited space; its locales \<open>decoder\<close>, \<open>codec\<close> and \<open>fixed_codec\<close> are the contract of a
    format, interpreted for every format of the program. A panic is an error value of its own.
  \<^item> \<open>Go_Lib\<close> and \<open>Sha256\<close> define what the code uses of the standard library: string functions,
    decimal numbers, hexadecimal, sorting and binary search, SHA-256. 64-bit arithmetic wraps
    (\<open>wrap64\<close>), counters and flags are words; where a computation cannot leave the range, it is
    on integers.
  \<^item> \<open>Files\<close> has the disk, a map from path names to contents, and the calls of package \<open>os\<close>. An
    \<open>io_env\<close> decides which call fails and how much room there is: theorems quantify over it and
    so over all failures. Directories are implicit in the names; links appear in \<open>Client_Cmd\<close> only.
    \<open>Filepath\<close> has \<open>filepath.Clean\<close> and \<open>Join\<close>.
  \<^item> Other packages are parameters: the JSON codec, tar and zstd, go-flags, the AWS client, the
    HTTP transport with its failures, the SQLite engine's faults, processes and signals. What is
    assumed of them is a hypothesis where it is needed, for instance that decoding gives back what
    was encoded.
  \<^item> Handlers run one after the other. Parallel workers of the generators and of \<open>xorstrip\<close> run in
    the order of the files; singleflight, semaphores and mutexes are then not visible.

  The components.
  \<^item> \<open>Revfile_Numbers\<close>, \<open>Revfile_Script\<close>, \<open>Revfile_Coin\<close>, \<open>Revfile_Record\<close>
    (\<open>internal/revfile\<close>): the undo files byte for byte. What is written reads back, from the
    numbers to whole records with their checksum; which scripts and which damage do not.
  \<^item> \<open>Blockmap\<close> (\<open>internal/blockmap\<close>): the index of a blk file. The binary search finds the block
    of an offset, the overlap query is exact, the format reads back, and the scanner accepts
    exactly the files that are whole frames of the network.
  \<^item> \<open>Store\<close> (\<open>internal/store\<close>): the table of files, rows with NULLs and CHECK constraints. The
    locale \<open>file_store\<close> is its contract for the clients; over any sequence of operations with
    faults it refines a map. \<open>State\<close> (\<open>internal/state\<close>): the life cycle of a file as a relation.
  \<^item> \<open>Manifest\<close> (\<open>internal/manifest\<close>), \<open>Disk_Cache\<close> (\<open>internal/cache\<close>), \<open>Block_Cache\<close>
    (\<open>internal/blockcache\<close>, contract in the locale \<open>block_cache\<close>), \<open>Fetch_Policy\<close>
    (\<open>internal/fusefs/fetch_policy.go\<close>): what is stored has been verified and stays so, eviction is
    by last use, a sequential reader is promoted to fetching the whole file.
  \<^item> \<open>Fusefs_State\<close>, \<open>Fusefs_Read\<close>, \<open>Fusefs_Write\<close>, \<open>Fusefs_Node\<close> (\<open>internal/fusefs\<close>): the file
    system's handlers with all their fallbacks. \<open>Fusefs_Run\<close> has the step relation \<open>fs_step\<close> of
    arbitrary sequences of requests: sealed files stay sealed, and the run of every file is one of
    the state machine. \<open>Fusefs_Session\<close> shows that what the client holds of a file stays the
    server's over whole sessions of reads.
  \<^item> \<open>Daemon\<close> (\<open>internal/daemon\<close>): ticks of the cache manager, the poller and the compaction.
    \<open>Services\<close>: the loops that run the ticks, also those of the server and of the syncer; the
    locale \<open>ticker_service\<close> lifts what a tick keeps to whole runs while the node goes on writing.
  \<^item> \<open>Remote\<close> (\<open>internal/remote\<close>): both HTTP clients. The contract of the retry loop is the locale
    \<open>retrying\<close>; outcomes, waits and verification follow from it for both.
  \<^item> \<open>Server_Gen\<close>, \<open>Server_Http\<close>, \<open>Snapshot\<close> (\<open>internal/server\<close>): the scan for finalized files,
    blockmaps and manifest, the routes and handlers with ranges and entity tags, reloads, packing and
    unpacking of the index. Over a network that loses, repeats and cuts answers, what the client
    returns is what is on the server's disk.
  \<^item> \<open>Syncer\<close> (\<open>internal/daemon/syncer.go\<close>, \<open>internal/s3\<close>): rounds of uploads. The locale
    \<open>uploader\<close> is the contract of the bucket, interpreted for the S3 client over a paged listing.
  \<^item> \<open>Xorstrip\<close> (\<open>tools/xorstrip\<close>): conversion of obfuscated block files, interruption and repair.
  \<^item> \<open>Config\<close> (\<open>internal/config\<close>), \<open>Mount\<close> and \<open>Client_Cmd\<close> (\<open>internal/cmd\<close>), \<open>Server_Cmd\<close>
    (\<open>cmd/slimnode-server\<close>): the commands as compositions of the components.

  This theory composes them all: it follows the bytes of the node's block files over generators, server,
  network, client, caches and file system to the reader.

  Loops and bounds. Loops over lists are structural. The loops of the scanner, of the number
  encodings, of the block conversion and of binary search are functions with a termination proof, so
  no fuel is needed there. \<open>list_loop\<close>, the paged listing of a bucket, may run forever and is a
  \<open>partial_function\<close>; that it ends on a service with pages of at least one key is shown in
  \<open>Syncer\<close>. The retry loop has the configured number of rounds, and the service loops have one
  round per event of their list, of any length. Hypotheses like \<open>length file < 2 ^ 63\<close> are the
  range of the offsets in the code; the bound of a million blocks is the reader's.

  What the properties do not hold for. Where the code does not do what it means to, the theory of the
  component states what it does instead, in theorems whose text calls it a flaw: the end of a
  damaged undo file, finalised files that are writable again after a restart, stale cached copies, names of a
  manifest that leave the directory, uploads that are not repeated, the repair of other networks'
  files, reads that fail during a conversion.

  Not modelled. Opening the SQLite database, its pragmas and prepared statements (\<open>store.New\<close>),
  mounting through the FUSE library and starting goroutines (\<open>fusefs.Mount\<close>, the end of \<open>mount\<close>),
  listening on a socket and shutting down: calls of libraries and of the system that return
  handles. Statfs and opening the lock file pass a system call through. The interleaving of handlers
  inside each other's calls and data races: the model has one handler at a time. Log messages and
  progress output. \<open>cmd/slimnode/main.go\<close> hands its arguments to go-flags; \<open>internal/testutil\<close> serves
  the tests only. \<open>allocate_other.go\<close> is the variant for systems other than Linux.
\<close>

section \<open>From the archive to the reader\<close>

lemma read_entries_length:
  "read_loop n read_entry r = Inr (es, r') \<Longrightarrow> length es = n \<and> length r = 44 * n + length r'"
proof (induction n arbitrary: r es)
  case (Suc n)
  then obtain e r1 es1 where e: "read_entry r = Inr (e, r1)" "read_loop n read_entry r1 = Inr (es1, r')" "es = e # es1"
    by (auto simp: result_iffs)
  have "length r = 44 + length r1" using e(1) by (auto simp: read_entry_def result_iffs ReadFull_Inr EntrySize_def)
  then show ?case using Suc.IH [OF e(2)] e(3) by simp
qed simp

lemma Read_length:
  assumes "Read raw = Inr (bm, r)"
  shows "length raw = 16 + 44 * length (Entries bm) + length r"
proof -
  obtain hd r1 n es where "ReadFull HeaderSize raw = Inr (hd, r1)" "read_loop n read_entry r1 = Inr (es, r)" "bm = \<lparr>Filename = [], Entries = es\<rparr>"
    using assms by (auto simp: Read_def result_iffs Let_def)
  then show ?thesis using read_entries_length by (fastforce simp: ReadFull_Inr HeaderSize_def)
qed

text \<open>What the client needs of the server for one blk file.\<close>

lemma client_of_archive:
  assumes "connected henv (baseURL c) multi d s" "0 \<le> retryCount c" "list_all plain_char f"
    and "d (path_Join (srv_blocksDir s) f) = Some (frames magic bs)"
    and "d (path_Join (srv_blockmapDir s) (f @ ''.blockmap'')) = Some raw"
    and "Read raw = Inr (\<lparr>Filename = [], Entries = entries_of 0 bs\<rparr>, [])" "length bs < 1000000"
    and "env_rc env = HTTPClient_remote henv c"
  shows "serves (env_rc env) f (frames magic bs) \<and> fetched_ok env f (entries_of 0 bs)"
proof -
  have "int (length raw) \<le> maxBlockmapSize"
    using Read_length [OF assms(6)] assms(7) by (simp add: maxBlockmapSize_def)
  then have "raw' = raw" if "FetchBlockmap (env_rc env) f = Inr raw'" for raw'
    using blockmap_from_server [OF assms(1,3,2,5)] that assms(8) by (simp add: HTTPClient_remote_def)
  then have "fetched_ok env f (entries_of 0 bs)" using assms(6) by (auto simp: fetched_ok_def)
  then show ?thesis using client_serves [OF assms(1-4)] assms(8) by simp
qed

lemma frames_index:
  assumes "list_all valid_block bs" "length (frames magic bs) < 2 ^ 63"
  shows "index_of (frames magic bs) (entries_of 0 bs)"
  using entries_of_wf [OF assms(1), of 0 magic] entries_of_chain [OF assms(1), of 0 magic] assms(2)
  by (simp add: index_of_def)

lemma served_dirs:
  assumes "ServeCmd_start dec env d \<lparr>sv_BlocksDir = dir, sv_ManifestDir = mdir, sv_ManifestName = mname, sv_BlockmapDir = out,
     sv_SnapshotDir = snap, sv_Chain = ch\<rparr> = Inr s"
  shows "srv_blocksDir s = dir" "srv_blockmapDir s = out"
  using assms by (auto simp: ServeCmd_start_def loadManifest_def NewFileServer_def split: prod.splits option.splits sum.splits)

text \<open>One blk file of the archive.\<close>

lemma archive_file:
  assumes "finite (dom d)" "\<forall>c. fault io c = None" "\<forall>m bs. enc m = Inr bs \<longrightarrow> dec bs = Inr m"
    and "BlockmapGenCmd_Execute io \<lparr>bg_BlocksDir = dir, bg_Output = out, bg_Chain = ch\<rparr> d = (None, d1)" "out \<noteq> []"
    and "ManifestGenCmd_Execute enc io \<lparr>mg_BlocksDir = dir, mg_OutputDir = mdir, mg_OutputName = mname, mg_Chain = ch,
           mg_BlockmapDir = out, mg_SnapshotDir = snap\<rparr> d1 = (None, d2)"
    and "mname \<noteq> []" "last mname \<notin> {CHR ''t'', CHR ''p''}"
    and "ServeCmd_start dec io d2 \<lparr>sv_BlocksDir = dir, sv_ManifestDir = mdir, sv_ManifestName = mname, sv_BlockmapDir = out,
           sv_SnapshotDir = snap, sv_Chain = ch\<rparr> = Inr s"
    and "finalized d dir f" "HasPrefix f ''blk''" "d (path_Join dir f) = Some file"
  shows "\<exists>magic bs raw. list_all valid_block bs \<and> file = frames magic bs \<and> d2 (path_Join dir f) = Some file
    \<and> d2 (path_Join out (f @ ''.blockmap'')) = Some raw
    \<and> (length bs < 1000000 \<longrightarrow> int (length file) < 2 ^ 63 \<longrightarrow>
         Read raw = Inr (\<lparr>Filename = [], Entries = entries_of 0 bs\<rparr>, []))"
proof -
  obtain magic and m :: Manifest where m: "mf_Name ` set (mn_Files m) = {n. finalized d dir n}"
    and each: "\<forall>f \<in> set (mn_Files m). \<exists>c. d2 (path_Join dir (mf_Name f)) = Some c \<and> d (path_Join dir (mf_Name f)) = Some c
        \<and> mf_Size f = int (length c) \<and> mf_SHA256 f = EncodeToString (Sum256 c)
        \<and> fileHashes s (mf_Name f) = Some (EncodeToString (Sum256 c))
        \<and> (HasPrefix (mf_Name f) ''blk'' \<longrightarrow>
            (\<exists>bs raw. list_all valid_block bs \<and> c = frames magic bs
              \<and> d2 (path_Join out (mf_Name f @ ''.blockmap'')) = Some raw
              \<and> mf_BlockmapSHA256 f = EncodeToString (Sum256 raw)
              \<and> (length bs < 1000000 \<longrightarrow> int (length c) < 2 ^ 63 \<longrightarrow>
                   Read raw = Inr (\<lparr>Filename = [], Entries = entries_of 0 bs\<rparr>, []))))"
    using archive_setup [OF assms(1-9)] by (elim exE conjE) (rule that, assumption, assumption)
  have "f \<in> mf_Name ` set (mn_Files m)" unfolding m using assms(10) by simp
  then obtain g where g: "g \<in> set (mn_Files m)" "mf_Name g = f" by (elim imageE) (rule that, simp_all)
  obtain c where c: "d2 (path_Join dir f) = Some c" "d (path_Join dir f) = Some c"
    and b: "HasPrefix f ''blk'' \<longrightarrow> (\<exists>bs raw. list_all valid_block bs \<and> c = frames magic bs
      \<and> d2 (path_Join out (f @ ''.blockmap'')) = Some raw \<and> mf_BlockmapSHA256 g = EncodeToString (Sum256 raw)
      \<and> (length bs < 1000000 \<longrightarrow> int (length c) < 2 ^ 63 \<longrightarrow>
           Read raw = Inr (\<lparr>Filename = [], Entries = entries_of 0 bs\<rparr>, [])))"
    using bspec [OF each g(1), unfolded g(2)] by (elim exE conjE) (rule that, assumption+)
  have "c = file" using c(2) assms(12) by simp
  with mp [OF b assms(11)] c(1) show ?thesis by fast
qed

text \<open>
  One call of a session against the archive: its remote client is the HTTP client, over any network
  between it and the server, and it asks for a range that 64-bit offsets can express.
\<close>

definition archive_call :: "HTTPClient \<Rightarrow> (bytes \<Rightarrow> (int \<times> int) list \<Rightarrow> http_response) \<Rightarrow> disk \<Rightarrow> FileServer \<Rightarrow> read_call \<Rightarrow> bool" where
  "archive_call c multi d s = (\<lambda>(env, dest, x).
     (\<exists>henv. connected henv (baseURL c) multi d s \<and> env_rc env = HTTPClient_remote henv c)
     \<and> honest_io (env_io env) \<and> 0 < length dest \<and> x + length dest < 2 ^ 63)"


text \<open>A reliable network between one client and a server.\<close>

definition link_to :: "disk \<Rightarrow> FileServer \<Rightarrow> http_env" where
  "link_to d s = \<lparr>url_error = (\<lambda>_. None),
     transport = (\<lambda>_ rq. if take 8 (req_URL rq) = ''http://a''
       then Inr (serve_routes (\<lambda>_ _. http_Error [] 500) io_ok d s (drop 8 (req_URL rq)) rq)
       else Inl (ErrIO ''no such host'')),
     cancelled_wait = (\<lambda>_. None), cancelled_do = (\<lambda>_. None), rand_Int63n = (\<lambda>_ _. 0)\<rparr>"

lemma link_to_connected: "connected (link_to d s) ''http://a'' (\<lambda>_ _. http_Error [] 500) d s"
  unfolding connected_def
proof (intro allI impI)
  fix i rq r path
  assume "transport (link_to d s) i rq = Inr r" "req_URL rq = ''http://a'' @ path" "list_all plain_char path"
  then have "r = serve_routes (\<lambda>_ _. http_Error [] 500) io_ok d s path rq" by (auto simp: link_to_def split: if_splits)
  then show "500 \<le> StatusCode r \<or> (\<exists>io. arrives (serve_routes (\<lambda>_ _. http_Error [] 500) io d s path rq) r)"
    by (auto simp: arrives_def)
qed

text \<open>The length in the header of the first frame leaves no room for a second one.\<close>

lemma one_frame:
  assumes "frames m [b] = frames magic bs" "length b < 2 ^ 32"
  shows "length bs = 1"
proof (cases bs)
  case Nil
  then show ?thesis using arg_cong [OF assms(1), of length] by (simp add: frames_def)
next
  case (Cons c cs)
  have "take 4 (drop 4 (frames m [b])) = take 4 (drop 4 (frames magic bs))" using assms(1) by simp
  then have "Uint32 (PutUint32 (of_nat (length b))) = Uint32 (PutUint32 (of_nat (length c)))"
    using Cons by (simp add: frames_def frame_def)
  then have "unat (of_nat (length b) :: 32 word) = unat (of_nat (length c) :: 32 word)" by simp
  then have "length b = length c mod 2 ^ 32" using assms(2) by (simp add: unsigned_of_nat take_bit_eq_mod)
  then have "length b \<le> length c" by simp
  moreover have "8 + length b = 8 + length c + length (frames magic cs)"
    using arg_cong [OF assms(1), of length] Cons by (simp add: frames_def)
  ultimately have "length (frames magic cs) = 0" by linarith
  then have "cs = []" by (cases cs) (simp_all add: frames_def)
  then show ?thesis using Cons by simp
qed

definition example_reader :: "disk \<Rightarrow> FileServer \<Rightarrow> fs_env" where
  "example_reader d s = example_env\<lparr>env_rc := HTTPClient_remote (link_to d s) (New_client ''http://a'' 2)\<rparr>"

abbreviation first_handle :: FileHandle where
  "first_handle \<equiv> example_handle\<lparr>h_filename := ''blk00000.dat''\<rparr>"

lemma example_read_served:
  assumes "d (path_Join (srv_blocksDir s) ''blk00000.dat'') = Some file" "x + n < 2 ^ 63" "x < length file" "0 < n"
  shows "FetchBlock (env_rc (example_reader d s)) ''blk00000.dat'' (int x) (int n) = Inr (slice x n file)"
proof -
  have "HTTPClient_FetchBlock (link_to d s) (New_client ''http://a'' 2) ''blk00000.dat'' (int x) (int n) = Inr (slice x n file)"
  proof (rule range_answered [where i = 0 and multi = "\<lambda>_ _. http_Error [] 500" and io = io_ok and d = d and s = s])
    show "\<forall>rq. req_URL rq = baseURL (New_client ''http://a'' 2) @ ''/v1/file/'' @ ''blk00000.dat'' \<longrightarrow>
        transport (link_to d s) 0 rq = Inr (serve_routes (\<lambda>_ _. http_Error [] 500) io_ok d s (''/v1/file/'' @ ''blk00000.dat'') rq)"
      unfolding example_link_base by (simp add: link_to_def)
    show "never_cancelled (link_to d s)" "\<forall>u. url_error (link_to d s) u = None"
      by (simp_all add: never_cancelled_def link_to_def)
  qed (use assms in \<open>simp_all add: New_client_def bad_filename_def\<close>)
  then show ?thesis by (simp add: example_reader_def HTTPClient_remote_def)
qed


end
